(* ===== verification/Prelude.thy ===== *)
theory Prelude
  imports Main "HOL-Library.Word" "HOL-Library.AList" "HOL-Library.Sublist"
begin

text \<open>
  Shared vocabulary of the development: the widths of the machine integers the gateway
  uses, computations that may panic, the two clocks an operation reads, keyed tables
  (the contents of a \<open>DashMap\<close>) with the laws the components rely on, and the
  contract "an operation keeps an invariant", from which every batch loop gets its
  invariant.

  A \<open>DashMap\<close> is modelled by its entries, in the order in which an iteration would
  visit them now.  Every statement quantifies over arbitrary tables, so it holds for every
  iteration order; nothing is assumed about the order itself.
\<close>

named_theorems table_simps \<open>rewrite rules for table operations\<close>
named_theorems keyed_intros \<open>operations that keep a table well formed\<close>

section \<open>Machine integers, panics and clocks\<close>

type_synonym u8 = "8 word"
type_synonym u16 = "16 word"
type_synonym u32 = "32 word"
type_synonym u64 = "64 word"

text \<open>A Rust computation either returns or panics (slice index, overflow in a library call).\<close>

datatype 'a comp = Panic | Ret 'a

fun comp_bind :: "'a comp \<Rightarrow> ('a \<Rightarrow> 'b comp) \<Rightarrow> 'b comp" where
  "comp_bind Panic f = Panic"
| "comp_bind (Ret x) f = f x"

lemma comp_bind_split:
  "P (comp_bind c f) \<longleftrightarrow> (c = Panic \<longrightarrow> P Panic) \<and> (\<forall>x. c = Ret x \<longrightarrow> P (f x))"
  by (cases c) auto

lemma comp_bind_eq_Ret [simp]: "comp_bind c f = Ret y \<longleftrightarrow> (\<exists>x. c = Ret x \<and> f x = Ret y)"
  by (cases c) auto

lemma comp_bind_Ret_right [simp]: "comp_bind c Ret = c"
  by (cases c) auto

text \<open>
  \<open>inst\<close> is \<open>Instant::now()\<close> (monotonic, nanoseconds since an arbitrary origin) and
  \<open>utc\<close> is \<open>Utc::now()\<close> (wall clock, nanoseconds; it may jump backwards).  The reads
  inside one operation are taken at one moment.
\<close>

record clock =
  inst :: nat
  utc :: int

definition secs :: "nat \<Rightarrow> nat" where
  "secs n = n * 1000000000"

text \<open>\<open>Instant::elapsed().as_secs()\<close>: saturates at zero, whole seconds.\<close>

definition elapsed_secs :: "clock \<Rightarrow> nat \<Rightarrow> nat" where
  "elapsed_secs now start = (inst now - start) div 1000000000"

text \<open>
  \<open>TimeDelta::num_seconds\<close> and \<open>num_hours\<close>: whole units, truncated towards zero.
\<close>

definition trunc_div :: "int \<Rightarrow> int \<Rightarrow> int" where
  "trunc_div a b = (if a < 0 then - ((- a) div b) else a div b)"

definition num_seconds :: "int \<Rightarrow> int" where
  "num_seconds d = trunc_div d 1000000000"

definition num_hours :: "int \<Rightarrow> int" where
  "num_hours d = trunc_div (num_seconds d) 3600"

lemma trunc_div_mono: "0 < b \<Longrightarrow> x \<le> y \<Longrightarrow> trunc_div x b \<le> trunc_div y b"
proof -
  assume b: "0 < b" and xy: "x \<le> y"
  consider "y < 0" | "x < 0" "0 \<le> y" | "0 \<le> x" by linarith
  then show ?thesis
  proof cases
    case 1
    with xy b have "(- y) div b \<le> (- x) div b" by (intro zdiv_mono1) auto
    with 1 xy show ?thesis by (simp add: trunc_div_def)
  next
    case 2
    with b have "0 \<le> (- x) div b" "0 \<le> y div b"
      by (auto simp: pos_imp_zdiv_nonneg_iff)
    with 2 show ?thesis by (simp add: trunc_div_def)
  next
    case 3
    with xy b show ?thesis by (simp add: trunc_div_def zdiv_mono1)
  qed
qed

lemma num_seconds_mono: "x \<le> y \<Longrightarrow> num_seconds x \<le> num_seconds y"
  by (simp add: num_seconds_def trunc_div_mono)

lemma num_hours_mono: "x \<le> y \<Longrightarrow> num_hours x \<le> num_hours y"
  by (simp add: num_hours_def trunc_div_mono num_seconds_mono)

lemma unat_u8 [simp]: "unat (b :: u8) < 256"
  using unsigned_less [of b, where ?'a = nat] by simp

lemma unat_u16 [simp]: "unat (b :: u16) < 65536"
  using unsigned_less [of b, where ?'a = nat] by simp

lemma unat_u32 [simp]: "unat (b :: u32) < 4294967296"
  using unsigned_less [of b, where ?'a = nat] by simp

lemma unat_u64 [simp]: "unat (b :: u64) < 18446744073709551616"
  using unsigned_less [of b, where ?'a = nat] by simp

section \<open>Tables\<close>

type_synonym ('k, 'v) table = "('k \<times> 'v) list"

definition tbl_get :: "('k, 'v) table \<Rightarrow> 'k \<Rightarrow> 'v option" where
  "tbl_get m k = map_of m k"

definition tbl_has :: "('k, 'v) table \<Rightarrow> 'k \<Rightarrow> bool" where
  "tbl_has m k \<longleftrightarrow> tbl_get m k \<noteq> None"

definition tbl_put :: "'k \<Rightarrow> 'v \<Rightarrow> ('k, 'v) table \<Rightarrow> ('k, 'v) table" where
  "tbl_put k v m = AList.update k v m"

definition tbl_del :: "'k \<Rightarrow> ('k, 'v) table \<Rightarrow> ('k, 'v) table" where
  "tbl_del k m = filter (\<lambda>e. fst e \<noteq> k) m"

text \<open>\<open>get_mut\<close> followed by an in-place change of the value.\<close>

definition tbl_modify :: "'k \<Rightarrow> ('v \<Rightarrow> 'v) \<Rightarrow> ('k, 'v) table \<Rightarrow> ('k, 'v) table" where
  "tbl_modify k f m = (case tbl_get m k of None \<Rightarrow> m | Some v \<Rightarrow> tbl_put k (f v) m)"

definition tbl_retain :: "('k \<Rightarrow> 'v \<Rightarrow> bool) \<Rightarrow> ('k, 'v) table \<Rightarrow> ('k, 'v) table" where
  "tbl_retain P m = filter (\<lambda>(k, v). P k v) m"

definition tbl_len :: "('k, 'v) table \<Rightarrow> nat" where
  "tbl_len m = length m"

definition tbl_vals :: "('k, 'v) table \<Rightarrow> 'v list" where
  "tbl_vals m = map snd m"

definition keys_ok :: "('k, 'v) table \<Rightarrow> bool" where
  "keys_ok m \<longleftrightarrow> distinct (map fst m)"

lemma tbl_get_Nil [simp, table_simps]: "tbl_get [] k = None"
  by (simp add: tbl_get_def)

lemma tbl_get_put [simp, table_simps]:
  "tbl_get (tbl_put k v m) k' = (if k' = k then Some v else tbl_get m k')"
  by (simp add: tbl_get_def tbl_put_def AList.update_conv')

lemma tbl_get_del [simp, table_simps]:
  "tbl_get (tbl_del k m) k' = (if k' = k then None else tbl_get m k')"
  by (induction m) (auto simp: tbl_get_def tbl_del_def)

lemma tbl_get_modify [simp, table_simps]:
  "tbl_get (tbl_modify k f m) k' = (if k' = k then map_option f (tbl_get m k) else tbl_get m k')"
  by (simp add: tbl_modify_def split: option.split)

lemma tbl_get_retain [table_simps]:
  "keys_ok m \<Longrightarrow>
   tbl_get (tbl_retain P m) k =
     (case tbl_get m k of None \<Rightarrow> None | Some v \<Rightarrow> if P k v then Some v else None)"
  by (induction m) (auto simp: tbl_get_def tbl_retain_def keys_ok_def map_of_eq_None_iff
      split: option.split)

lemma tbl_has_put [simp, table_simps]: "tbl_has (tbl_put k v m) k' \<longleftrightarrow> k' = k \<or> tbl_has m k'"
  by (simp add: tbl_has_def)

lemma tbl_has_iff: "tbl_has m k \<longleftrightarrow> k \<in> fst ` set m"
  by (simp add: tbl_has_def tbl_get_def map_of_eq_None_iff)

lemma tbl_has_modify [simp, table_simps]: "tbl_has (tbl_modify k f m) k' \<longleftrightarrow> tbl_has m k'"
  by (auto simp: tbl_has_def)

lemma tbl_has_del [simp, table_simps]: "tbl_has (tbl_del k m) k' \<longleftrightarrow> k' \<noteq> k \<and> tbl_has m k'"
  by (simp add: tbl_has_def)

lemma keys_ok_Nil [simp, keyed_intros]: "keys_ok []"
  by (simp add: keys_ok_def)

lemma keys_ok_put [simp, keyed_intros]: "keys_ok m \<Longrightarrow> keys_ok (tbl_put k v m)"
  by (simp add: keys_ok_def tbl_put_def AList.distinct_update)

lemma keys_ok_del [simp, keyed_intros]: "keys_ok m \<Longrightarrow> keys_ok (tbl_del k m)"
  by (simp add: keys_ok_def tbl_del_def distinct_map_filter)

lemma keys_ok_retain [simp, keyed_intros]: "keys_ok m \<Longrightarrow> keys_ok (tbl_retain P m)"
  by (simp add: keys_ok_def tbl_retain_def distinct_map_filter)

lemma keys_ok_modify [simp, keyed_intros]: "keys_ok m \<Longrightarrow> keys_ok (tbl_modify k f m)"
  by (simp add: tbl_modify_def split: option.split)

lemma tbl_get_in_set: "tbl_get m k = Some v \<Longrightarrow> (k, v) \<in> set m"
  by (simp add: tbl_get_def map_of_SomeD)

lemma in_set_tbl_get: "keys_ok m \<Longrightarrow> (k, v) \<in> set m \<Longrightarrow> tbl_get m k = Some v"
  by (simp add: tbl_get_def keys_ok_def)

lemma in_tbl_vals: "v \<in> set (tbl_vals m) \<longleftrightarrow> (\<exists>k. (k, v) \<in> set m)"
  by (force simp: tbl_vals_def)

lemma set_tbl_put_subset: "set (tbl_put k v m) \<subseteq> insert (k, v) (set m)"
  unfolding tbl_put_def by (induction m) auto

lemma tbl_len_put:
  "tbl_len (tbl_put k v m) = (if tbl_has m k then tbl_len m else Suc (tbl_len m))"
proof -
  have "map fst (AList.update k v m) = (if k \<in> fst ` set m then map fst m else map fst m @ [k])"
    by (simp add: AList.update_keys)
  then have "length (AList.update k v m) = (if k \<in> fst ` set m then length m else Suc (length m))"
    by (metis length_append_singleton length_map)
  then show ?thesis by (simp add: tbl_len_def tbl_put_def tbl_has_iff)
qed

lemma tbl_len_modify [simp, table_simps]: "tbl_len (tbl_modify k f m) = tbl_len m"
  by (auto simp: tbl_modify_def tbl_len_put tbl_has_def split: option.split)

lemma tbl_len_del:
  "keys_ok m \<Longrightarrow> tbl_len (tbl_del k m) = (if tbl_has m k then tbl_len m - 1 else tbl_len m)"
proof (induction m)
  case Nil
  then show ?case by (simp add: tbl_len_def tbl_del_def)
next
  case (Cons e m)
  have *: "filter (\<lambda>e. fst e \<noteq> k) m = m" if "fst e = k"
  proof (rule filter_True)
    from Cons.prems that have "k \<notin> fst ` set m" by (simp add: keys_ok_def)
    then show "\<forall>e\<in>set m. fst e \<noteq> k" by blast
  qed
  show ?case
  proof (cases "fst e = k")
    case True
    with * show ?thesis
      using Cons.prems by (force simp: tbl_len_def tbl_del_def tbl_has_iff keys_ok_def)
  next
    case False
    moreover have "tbl_has m k \<Longrightarrow> 0 < length m" by (auto simp: tbl_has_iff)
    ultimately show ?thesis using Cons
      by (auto simp: tbl_len_def tbl_del_def tbl_has_iff keys_ok_def)
  qed
qed

lemma tbl_len_retain: "tbl_len (tbl_retain P m) \<le> tbl_len m"
  by (simp add: tbl_len_def tbl_retain_def)

section \<open>The interface of a keyed store\<close>

text \<open>
  What the gateway relies on when it uses a concurrent map: lookups after an insertion and
  after a removal, and the number of entries.  The two clients of the interface are the
  move of an entry between two stores (ban and unban) and the insertion that never
  overwrites.
\<close>

locale keyed_store =
  fixes get :: "'m \<Rightarrow> 'k \<Rightarrow> 'v option"
    and put :: "'k \<Rightarrow> 'v \<Rightarrow> 'm \<Rightarrow> 'm"
    and del :: "'k \<Rightarrow> 'm \<Rightarrow> 'm"
    and size_of :: "'m \<Rightarrow> nat"
    and ok :: "'m \<Rightarrow> bool"
  assumes get_put: "ok m \<Longrightarrow> get (put k v m) k' = (if k' = k then Some v else get m k')"
    and get_del: "ok m \<Longrightarrow> get (del k m) k' = (if k' = k then None else get m k')"
    and size_put: "ok m \<Longrightarrow> size_of (put k v m) =
          (if get m k = None then Suc (size_of m) else size_of m)"
    and size_del: "ok m \<Longrightarrow> size_of (del k m) =
          (if get m k = None then size_of m else size_of m - 1)"
    and size_pos: "ok m \<Longrightarrow> get m k \<noteq> None \<Longrightarrow> 0 < size_of m"
    and ok_put: "ok m \<Longrightarrow> ok (put k v m)"
    and ok_del: "ok m \<Longrightarrow> ok (del k m)"
begin

text \<open>Moving an entry from one store to another loses nothing and touches nothing else.\<close>

lemma move_lookup:
  assumes "ok a" "ok b" "get a k = Some v"
  shows "get (del k a) k = None" "get (put k v b) k = Some v"
    "k' \<noteq> k \<Longrightarrow> get (del k a) k' = get a k'" "k' \<noteq> k \<Longrightarrow> get (put k v b) k' = get b k'"
  using assms by (simp_all add: get_put get_del)

lemma move_size:
  assumes "ok a" "ok b" "get a k = Some v" "get b k = None"
  shows "size_of (del k a) + size_of (put k v b) = size_of a + size_of b"
  using assms size_pos [of a k] by (simp add: size_put size_del)

lemma move_back:
  assumes "ok a" "ok b" "get a k = Some v" "get b k = None"
  shows "get (put k v (del k a)) = get a" "get (del k (put k v b)) = get b"
  using assms by (auto simp: get_put get_del ok_put ok_del)

lemma put_absent_bound:
  assumes "ok m" "get m k = None" "size_of m < n"
  shows "size_of (put k v m) \<le> n"
  using assms by (simp add: size_put)

end

interpretation tbl: keyed_store tbl_get tbl_put tbl_del tbl_len keys_ok
proof unfold_locales
  fix m :: "('a \<times> 'b) list" and k assume "tbl_get m k \<noteq> None"
  then show "0 < tbl_len m" by (cases m) (auto simp: tbl_len_def)
qed (auto simp: tbl_len_put tbl_len_del tbl_has_def)

section \<open>Operations that keep an invariant\<close>

text \<open>
  Many operations share one contract: called on a good state with any argument, they leave
  a good state.  The loops of the program run such an operation over a batch.
\<close>

locale keeps =
  fixes inv :: "'s \<Rightarrow> bool" and step :: "'a \<Rightarrow> 's \<Rightarrow> 's"
  assumes keeps: "inv s \<Longrightarrow> inv (step x s)"
begin

lemma keeps_fold: "inv s \<Longrightarrow> inv (fold step xs s)"
  by (induction xs arbitrary: s) (auto intro: keeps)

lemma keeps_foldl: "inv s \<Longrightarrow> inv (foldl (\<lambda>s x. step x s) s xs)"
  by (induction xs arbitrary: s) (auto intro: keeps)

end

section \<open>Lists\<close>

lemma filter_find: "find P xs = Some x \<Longrightarrow> x \<in> set xs \<and> P x"
  by (auto simp: find_Some_iff)

end
