(* ===== verification/F64.thy ===== *)
theory F64
  imports Complex_Main "HOL-Library.Log_Nat" Prelude
begin

text \<open>
  IEEE 754 double precision as the pool's scores use it.  A finite \<open>f64\<close> is the rational
  it stands for; every operation computes the exact result and rounds it once, to nearest
  with ties to even, on a 53-bit significand with the subnormal and overflow ranges of the
  format.  The sign of a zero is not kept: no operation of the sources can observe it.
  The point of the theory is that rounding is monotone and exact on small integers, which
  is what carries the bounds of the latency average through the rounding errors.
\<close>

section \<open>Rounding\<close>

definition flog2 :: "rat \<Rightarrow> int" where
  "flog2 x = (let (p, q) = quotient_of x; e = bitlen p - bitlen q
              in if 2 powi e \<le> x then e else e - 1)"

definition round_half_even :: "rat \<Rightarrow> int" where
  "round_half_even x =
     (let f = \<lfloor>x\<rfloor>; d = x - of_int f
      in if d < 1 / 2 then f else if d > 1 / 2 then f + 1 else if even f then f else f + 1)"

text \<open>The exponent of the last significand bit of a positive number.\<close>

definition last_bit :: "rat \<Rightarrow> int" where
  "last_bit x = max (flog2 x - 52) (- 1074)"

definition rnd_pos :: "rat \<Rightarrow> rat" where
  "rnd_pos x = of_int (round_half_even (x / 2 powi last_bit x)) * 2 powi last_bit x"

definition rnd :: "rat \<Rightarrow> rat" where
  "rnd x = (if x = 0 then 0 else if x < 0 then - rnd_pos (- x) else rnd_pos x)"

lemma powi2_pos [simp]: "0 < (2 :: rat) powi e"
  by (simp add: zero_less_power_int)

lemma powi2_mono: "d \<le> e \<Longrightarrow> (2 :: rat) powi d \<le> 2 powi e"
  by (simp add: power_int_increasing)

lemma powi2_less: "(2 :: rat) powi d < 2 powi e \<longleftrightarrow> d < e"
proof
  assume "(2 :: rat) powi d < 2 powi e"
  then show "d < e" using powi2_mono [of e d] by linarith
qed (simp add: power_int_strict_increasing)

lemma powi2_integer: "0 \<le> e \<Longrightarrow> (2 :: rat) powi e = of_int (2 ^ nat e)"
  by (simp add: power_int_def)

lemma flog2_bounds:
  assumes "0 < x"
  shows "2 powi flog2 x \<le> x" "x < 2 powi (flog2 x + 1)"
proof -
  obtain p q where pq: "quotient_of x = (p, q)" by fastforce
  have x: "x = of_int p / of_int q" using quotient_of_div [OF pq] .
  have q: "0 < q" using quotient_of_denom_pos [OF pq] .
  have p: "0 < p" using assms x q by (simp add: zero_less_divide_iff)
  let ?bp = "bitlen p" and ?bq = "bitlen q"
  have bits: "(2 :: rat) powi (bitlen n - 1) \<le> of_int n \<and> of_int n < (2 :: rat) powi bitlen n"
    if "0 < n" for n
  proof -
    from bitlen_bounds [OF that] have b: "2 ^ nat (bitlen n - 1) \<le> n" "n < 2 ^ nat (bitlen n)"
      by auto
    have pos: "0 < bitlen n"
      using b(2) that bitlen_nonneg [of n] by (cases "bitlen n = 0") auto
    have "(2 :: rat) ^ nat (bitlen n - 1) \<le> of_int n" "of_int n < (2 :: rat) ^ nat (bitlen n)"
      using b by (metis of_int_le_iff of_int_numeral of_int_power,
          metis of_int_less_iff of_int_numeral of_int_power)
    with pos show ?thesis by (simp add: power_int_def)
  qed
  have P: "(2 :: rat) powi (?bp - 1) \<le> of_int p" "of_int p < (2 :: rat) powi ?bp"
    and Q: "(2 :: rat) powi (?bq - 1) \<le> of_int q" "of_int q < (2 :: rat) powi ?bq"
    using bits [OF p] bits [OF q] by auto
  have up: "x < 2 powi (?bp - ?bq + 1)"
  proof -
    have "x < 2 powi ?bp / 2 powi (?bq - 1)"
      unfolding x using P(2) Q(1) q p by (intro frac_less) auto
    also have "\<dots> = 2 powi (?bp - ?bq + 1)"
      by (simp flip: power_int_diff add: algebra_simps)
    finally show ?thesis .
  qed
  have lo: "2 powi (?bp - ?bq - 1) \<le> x"
  proof -
    have "2 powi (?bp - ?bq - 1) = (2 :: rat) powi (?bp - 1) / 2 powi ?bq"
      by (simp flip: power_int_diff add: algebra_simps)
    also have "\<dots> \<le> x"
      unfolding x using P(1) Q(2) q p by (intro frac_le) auto
    finally show ?thesis .
  qed
  show "2 powi flog2 x \<le> x" "x < 2 powi (flog2 x + 1)"
    using up lo pq by (auto simp: flog2_def Let_def algebra_simps)
qed

lemma flog2_unique: "0 < x \<Longrightarrow> 2 powi e \<le> x \<Longrightarrow> x < 2 powi (e + 1) \<Longrightarrow> flog2 x = e"
  using flog2_bounds [of x] powi2_mono [of "e + 1" "flog2 x"] powi2_mono [of "flog2 x + 1" e]
  by (cases "flog2 x" e rule: linorder_cases) force+

lemma flog2_mono:
  assumes "0 < x" "x \<le> y" shows "flog2 x \<le> flog2 y"
proof (rule ccontr)
  assume "\<not> flog2 x \<le> flog2 y"
  then have "(2 :: rat) powi (flog2 y + 1) \<le> 2 powi flog2 x" by (intro powi2_mono) simp
  with flog2_bounds [of x] flog2_bounds [of y] assms show False by linarith
qed

lemma round_half_even_int [simp]: "round_half_even (of_int n) = n"
  by (simp add: round_half_even_def)

lemma round_half_even_floor: "\<lfloor>x\<rfloor> \<le> round_half_even x" "round_half_even x \<le> \<lfloor>x\<rfloor> + 1"
  by (auto simp: round_half_even_def Let_def)

lemma round_half_even_mono:
  assumes "x \<le> y" shows "round_half_even x \<le> round_half_even y"
proof (cases "\<lfloor>x\<rfloor> = \<lfloor>y\<rfloor>")
  case True
  with assms show ?thesis by (auto simp: round_half_even_def Let_def)
next
  case False
  with assms have "\<lfloor>x\<rfloor> + 1 \<le> \<lfloor>y\<rfloor>" by (metis floor_mono order_le_less zless_imp_add1_zle)
  with round_half_even_floor [of x] round_half_even_floor [of y] show ?thesis by linarith
qed

lemma last_bit_mono: "0 < x \<Longrightarrow> x \<le> y \<Longrightarrow> last_bit x \<le> last_bit y"
  using flog2_mono [of x y] by (auto simp: last_bit_def)

text \<open>A number that is an integral multiple of the last bit is not rounded past.\<close>

lemma rnd_pos_le:
  assumes "x \<le> of_int n * 2 powi last_bit x" shows "rnd_pos x \<le> of_int n * 2 powi last_bit x"
proof -
  have "x / 2 powi last_bit x \<le> of_int n" using assms by (simp add: pos_divide_le_eq)
  from round_half_even_mono [OF this] show ?thesis by (simp add: rnd_pos_def)
qed

lemma rnd_pos_ge:
  assumes "of_int n * 2 powi last_bit x \<le> x" shows "of_int n * 2 powi last_bit x \<le> rnd_pos x"
proof -
  have "of_int n \<le> x / 2 powi last_bit x" using assms by (simp add: pos_le_divide_eq)
  from round_half_even_mono [OF this] show ?thesis by (simp add: rnd_pos_def)
qed

lemma rnd_pos_mono:
  assumes "0 < x" "x \<le> y" shows "rnd_pos x \<le> rnd_pos y"
proof (cases "last_bit x = last_bit y")
  case True
  have "x / 2 powi last_bit y \<le> y / 2 powi last_bit y"
    using assms by (intro divide_right_mono) (auto simp: less_imp_le)
  from round_half_even_mono [OF this] True show ?thesis by (simp add: rnd_pos_def)
next
  case False
  with last_bit_mono [OF assms] have lt: "last_bit x < last_bit y" by simp
  define k where "k = flog2 y"
  have k: "last_bit y = k - 52" and kx: "flog2 x < k"
    using lt by (auto simp: last_bit_def k_def)
  have split: "(2 :: rat) powi k = of_int (2 ^ nat (k - d)) * 2 powi d" if "d \<le> k" for d
    using that powi2_integer [of "k - d"] power_int_add [of "2 :: rat" "k - d" d] by simp
  have y: "0 < y" using assms by linarith
  have "2 powi k \<le> rnd_pos y"
    using rnd_pos_ge [of "2 ^ nat (k - last_bit y)" y] flog2_bounds(1) [OF y]
      split [of "last_bit y"] k by (simp add: k_def)
  moreover have "x \<le> 2 powi k"
    using flog2_bounds(2) [OF assms(1)] powi2_mono [of "flog2 x + 1" k] kx by linarith
  then have "rnd_pos x \<le> 2 powi k"
    using rnd_pos_le [of x "2 ^ nat (k - last_bit x)"] split [of "last_bit x"] k lt by simp
  ultimately show ?thesis by linarith
qed

lemma rnd_pos_nonneg: "0 < x \<Longrightarrow> 0 \<le> rnd_pos x"
  using rnd_pos_ge [of 0 x] by simp

lemma rnd_0 [simp]: "rnd 0 = 0"
  by (simp add: rnd_def)

lemma rnd_nonneg: "0 \<le> x \<Longrightarrow> 0 \<le> rnd x"
  by (auto simp: rnd_def rnd_pos_nonneg)

lemma rnd_minus: "rnd (- x) = - rnd x"
  by (auto simp: rnd_def)

lemma rnd_mono:
  assumes "x \<le> y" shows "rnd x \<le> rnd y"
proof -
  consider "0 < x" | "y < 0" | "x \<le> 0" "0 \<le> y" by linarith
  then show ?thesis
  proof cases
    case 1
    with assms show ?thesis by (simp add: rnd_def rnd_pos_mono)
  next
    case 2
    with assms rnd_pos_mono [of "- y" "- x"] show ?thesis by (simp add: rnd_def)
  next
    case 3
    then have "0 \<le> rnd (- x)" "0 \<le> rnd y" by (simp_all add: rnd_nonneg)
    then show ?thesis by (simp add: rnd_minus)
  qed
qed

text \<open>Evaluation at a known binary exponent, and exactness on the integers below \<open>2 ^ 53\<close>.\<close>

lemma rnd_at:
  assumes "2 powi e \<le> x" "x < 2 powi (e + 1)" "- 1022 \<le> e"
  shows "rnd x = of_int (round_half_even (x / 2 powi (e - 52))) * 2 powi (e - 52)"
proof -
  have x: "0 < x" using assms(1) powi2_pos [of e] by linarith
  have "flog2 x = e" using assms x by (intro flog2_unique) auto
  with assms(3) x show ?thesis by (simp add: rnd_def rnd_pos_def last_bit_def)
qed

lemma round_half_even_near:
  assumes "\<bar>x - of_int n\<bar> < 1 / 2" shows "round_half_even x = n"
proof (cases "of_int n \<le> x")
  case True
  with assms have "\<lfloor>x\<rfloor> = n" by (intro floor_unique) auto
  with assms True show ?thesis by (simp add: round_half_even_def)
next
  case False
  with assms have f: "\<lfloor>x\<rfloor> = n - 1" by (intro floor_unique) auto
  with assms False have "1 / 2 < x - of_int (n - 1)" by simp
  with f show ?thesis by (simp add: round_half_even_def)
qed

lemma rnd_eval:
  assumes "2 powi e \<le> x" "x < 2 powi (e + 1)" "- 1022 \<le> e"
    and "e - 52 = - int k" "\<bar>x * 2 ^ k - of_int n\<bar> < 1 / 2"
  shows "rnd x = of_int n / 2 ^ k"
proof -
  have "x / 2 powi (e - 52) = x * 2 ^ k" "2 powi (e - 52) = (1 :: rat) / 2 ^ k"
    unfolding assms(4) by (simp_all add: power_int_minus_divide)
  with rnd_at [OF assms(1-3)] round_half_even_near [OF assms(5)] show ?thesis by simp
qed

lemma rnd_int_pos:
  assumes "0 < n" "n \<le> 2 ^ 53" shows "rnd (of_int n) = of_int n"
proof -
  let ?x = "of_int n :: rat"
  have x: "0 < ?x" using assms by simp
  have "?x < 2 powi 54"
  proof -
    have "?x \<le> of_int (2 ^ 53)" using assms(2) by (subst of_int_le_iff)
    then show ?thesis by simp
  qed
  moreover have "2 powi flog2 ?x \<le> ?x" using flog2_bounds(1) [OF x] .
  ultimately have f: "flog2 ?x < 54" using powi2_less [of "flog2 ?x" 54] by linarith
  have "1 \<le> ?x" using assms(1) by simp
  then have f0: "0 \<le> flog2 ?x" using flog2_mono [of 1 ?x] flog2_unique [of 1 0] by simp
  show ?thesis
  proof (cases "last_bit ?x \<le> 0")
    case True
    have "?x / 2 powi last_bit ?x = of_int (n * 2 ^ nat (- last_bit ?x))"
      using True by (simp add: power_int_def field_simps)
    then have "round_half_even (?x / 2 powi last_bit ?x) = n * 2 ^ nat (- last_bit ?x)"
      by (metis round_half_even_int)
    with True x show ?thesis by (simp add: rnd_def rnd_pos_def power_int_def field_simps)
  next
    case False
    with f f0 have "flog2 ?x = 53" by (simp add: last_bit_def)
    then have "2 powi 53 \<le> ?x" using flog2_bounds(1) [OF x] by simp
    then have "of_int (2 ^ 53) \<le> ?x" by simp
    then have "2 ^ 53 \<le> n" by (simp only: of_int_le_iff)
    with assms(2) have n: "n = 2 ^ 53" by simp
    have "rnd (2 powi 53) = of_int (round_half_even (2 powi 53 / 2 powi (53 - 52))) * 2 powi (53 - 52)"
      by (rule rnd_at) (simp_all add: power_int_increasing)
    also have "2 powi 53 / 2 powi (53 - 52) = (of_int (2 ^ 52) :: rat)" by simp
    finally show ?thesis unfolding n by (simp only: round_half_even_int) simp
  qed
qed

lemma rnd_int: "\<bar>n\<bar> \<le> 2 ^ 53 \<Longrightarrow> rnd (of_int n) = of_int n"
  using rnd_int_pos [of n] rnd_int_pos [of "- n"] rnd_minus [of "of_int n"]
  by (cases n "0 :: int" rule: linorder_cases) auto

section \<open>The type and its operations\<close>

datatype f64 = NInf | Fin rat | PInf | NaN

definition f_mk :: "rat \<Rightarrow> f64" where
  "f_mk x = (let r = rnd x in if 2 powi 1024 \<le> r then PInf
                              else if r \<le> - (2 powi 1024) then NInf else Fin r)"

definition f_max_val :: f64 where
  "f_max_val = Fin ((2 - 2 powi (- 52)) * 2 powi 1023)"

definition f_min_val :: f64 where
  "f_min_val = Fin (- ((2 - 2 powi (- 52)) * 2 powi 1023))"

fun f_neg :: "f64 \<Rightarrow> f64" where
  "f_neg (Fin a) = Fin (- a)"
| "f_neg PInf = NInf"
| "f_neg NInf = PInf"
| "f_neg NaN = NaN"

fun f_add :: "f64 \<Rightarrow> f64 \<Rightarrow> f64" where
  "f_add NaN _ = NaN"
| "f_add _ NaN = NaN"
| "f_add (Fin a) (Fin b) = f_mk (a + b)"
| "f_add PInf NInf = NaN"
| "f_add NInf PInf = NaN"
| "f_add PInf _ = PInf"
| "f_add _ PInf = PInf"
| "f_add NInf _ = NInf"
| "f_add _ NInf = NInf"

definition f_sub :: "f64 \<Rightarrow> f64 \<Rightarrow> f64" where
  "f_sub a b = f_add a (f_neg b)"

definition f_inf_of :: "rat \<Rightarrow> f64" where
  "f_inf_of s = (if s = 0 then NaN else if 0 < s then PInf else NInf)"

fun f_sign :: "f64 \<Rightarrow> rat" where
  "f_sign (Fin a) = (if a = 0 then 0 else if 0 < a then 1 else - 1)"
| "f_sign PInf = 1"
| "f_sign NInf = - 1"
| "f_sign NaN = 0"

fun f_mul :: "f64 \<Rightarrow> f64 \<Rightarrow> f64" where
  "f_mul (Fin a) (Fin b) = f_mk (a * b)"
| "f_mul a b = (if a = NaN \<or> b = NaN then NaN else f_inf_of (f_sign a * f_sign b))"

text \<open>Division; a zero divisor counts as positive zero.\<close>

fun f_div :: "f64 \<Rightarrow> f64 \<Rightarrow> f64" where
  "f_div (Fin a) (Fin b) = (if b = 0 then f_inf_of (f_sign (Fin a)) else f_mk (a / b))"
| "f_div (Fin a) b = (if b = NaN then NaN else Fin 0)"
| "f_div a (Fin b) = (if a = NaN then NaN else f_inf_of (f_sign a * (if b < 0 then - 1 else 1)))"
| "f_div a b = NaN"

definition f_of_int :: "int \<Rightarrow> f64" where
  "f_of_int n = f_mk (of_int n)"

definition f_of_nat :: "nat \<Rightarrow> f64" where
  "f_of_nat n = f_of_int (int n)"

fun f_is_finite :: "f64 \<Rightarrow> bool" where
  "f_is_finite (Fin a) = True"
| "f_is_finite _ = False"

text \<open>
  A total order with \<open>NaN\<close> on top, for the library's sorting functions; the comparisons of
  the code are \<open>f_lt\<close> and \<open>f_partial_cmp\<close>, which \<open>NaN\<close> makes fail.
\<close>

fun f_rank :: "f64 \<Rightarrow> int \<times> rat" where
  "f_rank NInf = (0, 0)"
| "f_rank (Fin a) = (1, a)"
| "f_rank PInf = (2, 0)"
| "f_rank NaN = (3, 0)"

instantiation f64 :: linorder
begin

definition less_eq_f64 :: "f64 \<Rightarrow> f64 \<Rightarrow> bool" where
  "less_eq_f64 a b \<longleftrightarrow> fst (f_rank a) < fst (f_rank b)
     \<or> (fst (f_rank a) = fst (f_rank b) \<and> snd (f_rank a) \<le> snd (f_rank b))"

definition less_f64 :: "f64 \<Rightarrow> f64 \<Rightarrow> bool" where
  "less_f64 a b \<longleftrightarrow> a \<le> b \<and> \<not> b \<le> (a :: f64)"

instance
proof
  fix a b c :: f64
  show "a < b \<longleftrightarrow> a \<le> b \<and> \<not> b \<le> a" by (rule less_f64_def)
  show "a \<le> a" by (simp add: less_eq_f64_def)
  show "a \<le> b \<Longrightarrow> b \<le> c \<Longrightarrow> a \<le> c" by (auto simp: less_eq_f64_def)
  show "a \<le> b \<Longrightarrow> b \<le> a \<Longrightarrow> a = b" by (cases a; cases b) (auto simp: less_eq_f64_def)
  show "a \<le> b \<or> b \<le> a" by (auto simp: less_eq_f64_def)
qed

end

lemma f_le_simps [simp]:
  "Fin a \<le> Fin b \<longleftrightarrow> a \<le> b" "Fin a < Fin b \<longleftrightarrow> a < b"
  "NInf \<le> x" "x \<le> NaN" "Fin a \<le> PInf" "PInf \<le> PInf"
  "\<not> PInf \<le> Fin a" "\<not> Fin a \<le> NInf" "\<not> PInf \<le> NInf" "\<not> NaN \<le> Fin a" "\<not> NaN \<le> PInf"
  "\<not> NaN \<le> NInf"
  by (cases x; auto simp: less_eq_f64_def less_f64_def)+

definition f_lt :: "f64 \<Rightarrow> f64 \<Rightarrow> bool" where
  "f_lt a b \<longleftrightarrow> a \<noteq> NaN \<and> b \<noteq> NaN \<and> a < b"

text \<open>\<open>partial_cmp(..).unwrap_or(Equal)\<close>, as a sign.\<close>

definition f_cmp :: "f64 \<Rightarrow> f64 \<Rightarrow> int" where
  "f_cmp a b = (if f_lt a b then - 1 else if f_lt b a then 1 else 0)"

text \<open>\<open>f64::max\<close> and \<open>f64::min\<close> ignore a \<open>NaN\<close>.\<close>

definition f_max :: "f64 \<Rightarrow> f64 \<Rightarrow> f64" where
  "f_max a b = (if a = NaN then b else if b = NaN then a else max a b)"

definition f_min :: "f64 \<Rightarrow> f64 \<Rightarrow> f64" where
  "f_min a b = (if a = NaN then b else if b = NaN then a else min a b)"

definition f_clamp :: "f64 \<Rightarrow> f64 \<Rightarrow> f64 \<Rightarrow> f64" where
  "f_clamp x lo hi = (if f_lt x lo then lo else if f_lt hi x then hi else x)"

section \<open>Monotonicity and ranges\<close>

lemma f_mk_not_NaN [simp]: "f_mk x \<noteq> NaN"
  by (simp add: f_mk_def Let_def)

lemma f_mk_mono:
  assumes "x \<le> y" shows "f_mk x \<le> f_mk y"
proof -
  have "rnd x \<le> rnd y" using assms by (rule rnd_mono)
  then show ?thesis by (auto simp: f_mk_def Let_def)
qed

lemma f_mk_range:
  assumes "rnd lo = lo" "rnd hi = hi" "lo \<le> x" "x \<le> hi" "- (2 powi 1024) < lo" "hi < 2 powi 1024"
  shows "\<exists>r. f_mk x = Fin r \<and> r = rnd x \<and> lo \<le> r \<and> r \<le> hi"
proof -
  have "lo \<le> rnd x" "rnd x \<le> hi" using rnd_mono [of lo x] rnd_mono [of x hi] assms by auto
  with assms show ?thesis by (auto simp: f_mk_def Let_def)
qed

lemma f_mk_int:
  assumes "\<bar>n\<bar> \<le> 2 ^ 53" shows "f_mk (of_int n) = Fin (of_int n)"
proof -
  have "\<bar>of_int n :: rat\<bar> \<le> of_int (2 ^ 53)"
    using assms by (metis of_int_abs of_int_le_iff)
  then have "\<bar>of_int n :: rat\<bar> \<le> 2 ^ 53" by simp
  moreover have "(2 :: rat) ^ 53 < 2 ^ 1024" by simp
  ultimately have "\<bar>of_int n :: rat\<bar> < 2 ^ 1024" by linarith
  then have "- (2 ^ 1024) < (of_int n :: rat)" "(of_int n :: rat) < 2 ^ 1024" by linarith+
  then show ?thesis using rnd_int [OF assms] by (simp add: f_mk_def Let_def)
qed

lemma f_mk_between:
  assumes "of_int lo \<le> x" "x \<le> of_int hi" "\<bar>lo\<bar> \<le> 2 ^ 53" "\<bar>hi\<bar> \<le> 2 ^ 53"
  shows "\<exists>r. f_mk x = Fin r \<and> of_int lo \<le> r \<and> r \<le> of_int hi"
proof -
  have "f_mk (of_int lo) \<le> f_mk x" "f_mk x \<le> f_mk (of_int hi)"
    using assms by (simp_all add: f_mk_mono)
  then have "Fin (of_int lo) \<le> f_mk x" "f_mk x \<le> Fin (of_int hi)"
    using assms(3,4) by (simp_all add: f_mk_int)
  then show ?thesis by (cases "f_mk x") auto
qed

lemma f_mk_0 [simp]: "f_mk 0 = Fin 0"
  using f_mk_int [of 0] by simp

lemma f_of_int_exact: "\<bar>n\<bar> \<le> 2 ^ 53 \<Longrightarrow> f_of_int n = Fin (of_int n)"
  by (simp add: f_of_int_def f_mk_int)

lemma f_of_nat_exact: "n \<le> 2 ^ 53 \<Longrightarrow> f_of_nat n = Fin (of_nat n)"
proof -
  assume "n \<le> 2 ^ 53"
  then have "int n \<le> int (2 ^ 53)" by (simp only: of_nat_le_iff)
  then have "\<bar>int n\<bar> \<le> 2 ^ 53" by simp
  then show ?thesis unfolding f_of_nat_def by (subst f_of_int_exact) auto
qed

lemma f_of_nat_mono: "m \<le> n \<Longrightarrow> f_of_nat m \<le> f_of_nat n"
  by (simp add: f_of_nat_def f_of_int_def f_mk_mono)

lemma f_of_nat_not_NaN [simp]: "f_of_nat n \<noteq> NaN"
  by (simp add: f_of_nat_def f_of_int_def)

lemma f_add_mono:
  assumes "Fin a \<le> Fin a'" "Fin b \<le> Fin b'"
  shows "f_add (Fin a) (Fin b) \<le> f_add (Fin a') (Fin b')"
  using assms by (simp add: f_mk_mono)

lemma f_lt_not_NaN: "a \<noteq> NaN \<Longrightarrow> b \<noteq> NaN \<Longrightarrow> f_lt a b \<longleftrightarrow> a < b"
  by (simp add: f_lt_def)

lemma f_max_val_not_NaN [simp]: "f_max_val \<noteq> NaN" "f_min_val \<noteq> NaN"
  by (simp_all add: f_max_val_def f_min_val_def)

lemma f_between: "Fin a \<le> x \<Longrightarrow> x \<le> Fin b \<Longrightarrow> \<exists>c. x = Fin c \<and> a \<le> c \<and> c \<le> b"
  by (cases x) auto

text \<open>Non-negative values, \<open>PInf\<close> included.\<close>

definition f_nonneg :: "f64 \<Rightarrow> bool" where
  "f_nonneg x \<longleftrightarrow> x \<noteq> NaN \<and> Fin 0 \<le> x"

lemma f_nonneg_Fin [simp]: "f_nonneg (Fin a) \<longleftrightarrow> 0 \<le> a"
  by (simp add: f_nonneg_def)

lemma f_nonneg_mk: "0 \<le> x \<Longrightarrow> f_nonneg (f_mk x)"
  using f_mk_mono [of 0 x] by (simp add: f_nonneg_def)

lemma f_nonneg_cases: "f_nonneg x \<Longrightarrow> x = PInf \<or> (\<exists>a. x = Fin a \<and> 0 \<le> a)"
  by (cases x) (auto simp: f_nonneg_def)

lemma f_nonneg_mul: "f_nonneg x \<Longrightarrow> 0 < b \<Longrightarrow> f_nonneg (f_mul x (Fin b))"
  by (auto dest!: f_nonneg_cases simp: f_nonneg_mk f_inf_of_def) (simp add: f_nonneg_def)

lemma f_nonneg_div: "f_nonneg x \<Longrightarrow> 0 < b \<Longrightarrow> f_nonneg (f_div x (Fin b))"
  by (auto dest!: f_nonneg_cases simp: f_nonneg_mk f_inf_of_def) (simp add: f_nonneg_def)

lemma f_nonneg_sub: "Fin b \<le> x \<Longrightarrow> x \<noteq> NaN \<Longrightarrow> f_nonneg (f_sub x (Fin b))"
  by (cases x) (auto simp: f_sub_def f_nonneg_mk, simp add: f_nonneg_def)

lemma f_add_ge: "f_nonneg x \<Longrightarrow> f_mk b \<le> f_add x (Fin b) \<and> f_add x (Fin b) \<noteq> NaN"
  by (auto dest!: f_nonneg_cases simp: f_mk_mono) (cases "f_mk b"; simp)

text \<open>A finite sum of a list.\<close>

definition f_sum :: "f64 list \<Rightarrow> f64" where
  "f_sum xs = foldl f_add (Fin 0) xs"

end
