(* ===== verification/RustStd.thy ===== *)
theory RustStd
  imports Prelude
begin

text \<open>
  The functions of the Rust standard library that the sources call on strings and byte
  slices, on \<open>string\<close> as the list of the UTF-8 bytes of a \<open>str\<close>: splitting, trimming, line
  iteration, UTF-8 validation, parsing of ports and IPv4 addresses, decimal formatting.
  The last section holds the facts about \<open>host:port\<close> keys that every table of proxies
  rests on.
\<close>

section \<open>Bytes and strings\<close>

definition bytes_of :: "string \<Rightarrow> u8 list" where
  "bytes_of s = map (\<lambda>c. of_nat (of_char c)) s"

definition str_of :: "u8 list \<Rightarrow> string" where
  "str_of bs = map (\<lambda>b. char_of (unat b)) bs"

lemma length_bytes_of [simp]: "length (bytes_of s) = length s"
  by (simp add: bytes_of_def)

lemma length_str_of [simp]: "length (str_of s) = length s"
  by (simp add: str_of_def)

lemma of_char_less_256: "(of_char c :: nat) < 256"
  using nat_of_char_less_256 by blast

lemma unat_of_char [simp]: "unat (of_nat (of_char c) :: u8) = of_char c"
  using of_char_less_256 [of c] by (simp add: unat_of_nat)

lemma str_of_bytes_of [simp]: "str_of (bytes_of s) = s"
  by (simp add: str_of_def bytes_of_def map_idI)

lemma bytes_of_str_of [simp]: "bytes_of (str_of bs) = bs"
proof -
  have "(of_nat (of_char (char_of (unat b) :: char)) :: u8) = b" for b :: u8
    by simp
  then show ?thesis by (simp add: str_of_def bytes_of_def map_idI)
qed

lemma bytes_of_append [simp]: "bytes_of (xs @ ys) = bytes_of xs @ bytes_of ys"
  by (simp add: bytes_of_def)

lemma str_of_append [simp]: "str_of (xs @ ys) = str_of xs @ str_of ys"
  by (simp add: str_of_def)

text \<open>Big-endian 16-bit values: \<open>u16::from_be_bytes\<close> and \<open>to_be_bytes\<close>.\<close>

definition be16 :: "u8 \<Rightarrow> u8 \<Rightarrow> nat" where
  "be16 hi lo = 256 * unat hi + unat lo"

definition to_be_bytes :: "u16 \<Rightarrow> u8 list" where
  "to_be_bytes p = [of_nat (unat p div 256), of_nat (unat p mod 256)]"

lemma be16_to_be_bytes:
  "to_be_bytes p = [hi, lo] \<Longrightarrow> be16 hi lo = unat p"
proof -
  assume "to_be_bytes p = [hi, lo]"
  moreover have "unat p div 256 < 256" by (simp add: less_mult_imp_div_less)
  ultimately show ?thesis by (auto simp: to_be_bytes_def be16_def unat_of_nat)
qed

lemma be16_less: "be16 hi lo < 65536"
  unfolding be16_def using unat_u8 [of hi] unat_u8 [of lo] by linarith

section \<open>UTF-8 validation: \<open>str::from_utf8\<close>\<close>

definition is_cont :: "u8 \<Rightarrow> bool" where
  "is_cont b \<longleftrightarrow> 128 \<le> unat b \<and> unat b < 192"

definition in_range :: "nat \<Rightarrow> nat \<Rightarrow> u8 \<Rightarrow> bool" where
  "in_range lo hi b \<longleftrightarrow> lo \<le> unat b \<and> unat b \<le> hi"

text \<open>The well-formed byte sequences of the Unicode standard (no surrogates, no overlong forms).\<close>

fun utf8_ok :: "u8 list \<Rightarrow> bool" where
  "utf8_ok [] = True"
| "utf8_ok (a # r) =
     (if unat a < 128 then utf8_ok r
      else if in_range 194 223 a then
        (case r of b # r1 \<Rightarrow> is_cont b \<and> utf8_ok r1 | [] \<Rightarrow> False)
      else if in_range 224 239 a then
        (case r of b # c # r2 \<Rightarrow>
            (if unat a = 224 then in_range 160 191 b
             else if unat a = 237 then in_range 128 159 b else is_cont b)
            \<and> is_cont c \<and> utf8_ok r2
         | _ \<Rightarrow> False)
      else if in_range 240 244 a then
        (case r of b # c # d # r3 \<Rightarrow>
            (if unat a = 240 then in_range 144 191 b
             else if unat a = 244 then in_range 128 143 b else is_cont b)
            \<and> is_cont c \<and> is_cont d \<and> utf8_ok r3
         | _ \<Rightarrow> False)
      else False)"

definition from_utf8 :: "u8 list \<Rightarrow> string option" where
  "from_utf8 bs = (if utf8_ok bs then Some (str_of bs) else None)"

lemma utf8_ok_ascii: "\<forall>b\<in>set bs. unat b < 128 \<Longrightarrow> utf8_ok bs"
  by (induction bs) auto

text \<open>
  \<open>String::from_utf8_lossy\<close>: a maximal ill-formed prefix of a character is replaced by one
  U+FFFD.  \<open>second_ok\<close> is the range of the second byte, which depends on the first.
\<close>

definition second_ok :: "u8 \<Rightarrow> u8 \<Rightarrow> bool" where
  "second_ok a b =
     (if unat a = 224 then in_range 160 191 b
      else if unat a = 237 then in_range 128 159 b
      else if unat a = 240 then in_range 144 191 b
      else if unat a = 244 then in_range 128 143 b
      else is_cont b)"

definition replacement :: "u8 list" where
  "replacement = [239, 191, 189]"

function utf8_lossy :: "u8 list \<Rightarrow> u8 list" where
  "utf8_lossy [] = []"
| "utf8_lossy (a # r) =
     (if unat a < 128 then a # utf8_lossy r
      else if in_range 194 223 a then
        (case r of
           b # r1 \<Rightarrow> if is_cont b then a # b # utf8_lossy r1 else replacement @ utf8_lossy r
         | [] \<Rightarrow> replacement)
      else if in_range 224 239 a then
        (case r of
           b # r1 \<Rightarrow>
             if second_ok a b then
               (case r1 of
                  c # r2 \<Rightarrow> if is_cont c then a # b # c # utf8_lossy r2 else replacement @ utf8_lossy r1
                | [] \<Rightarrow> replacement)
             else replacement @ utf8_lossy r
         | [] \<Rightarrow> replacement)
      else if in_range 240 244 a then
        (case r of
           b # r1 \<Rightarrow>
             if second_ok a b then
               (case r1 of
                  c # r2 \<Rightarrow>
                    if is_cont c then
                      (case r2 of
                         d # r3 \<Rightarrow> if is_cont d then a # b # c # d # utf8_lossy r3
                                   else replacement @ utf8_lossy r2
                       | [] \<Rightarrow> replacement)
                    else replacement @ utf8_lossy r1
                | [] \<Rightarrow> replacement)
             else replacement @ utf8_lossy r
         | [] \<Rightarrow> replacement)
      else replacement @ utf8_lossy r)"
  by pat_completeness auto
termination by (relation "measure length") auto

declare utf8_lossy.simps [simp del]

lemma utf8_lossy_ascii: "\<forall>b\<in>set bs. unat b < 128 \<Longrightarrow> utf8_lossy bs = bs"
  by (induction bs) (auto simp: utf8_lossy.simps)

section \<open>Splitting\<close>

fun split_char :: "char \<Rightarrow> string \<Rightarrow> string list" where
  "split_char c [] = [[]]"
| "split_char c (x # xs) =
     (if x = c then [] # split_char c xs
      else (case split_char c xs of [] \<Rightarrow> [[x]] | w # ws \<Rightarrow> (x # w) # ws))"

text \<open>\<open>splitn(2, c)\<close>: at the first separator only.\<close>

definition splitn2 :: "char \<Rightarrow> string \<Rightarrow> string list" where
  "splitn2 c s =
     (let pre = takeWhile (\<lambda>x. x \<noteq> c) s; post = dropWhile (\<lambda>x. x \<noteq> c) s
      in case post of [] \<Rightarrow> [pre] | _ # r \<Rightarrow> [pre, r])"

lemma split_char_nonempty [simp]: "split_char c s \<noteq> []"
  by (induction s) (auto split: list.splits)

lemma split_char_join: "foldr (\<lambda>w r. w @ c # r) (butlast (split_char c s)) (last (split_char c s)) = s"
proof (induction s)
  case (Cons x xs)
  then show ?case by (cases "split_char c xs") auto
qed simp

lemma split_char_no_sep: "c \<notin> set s \<Longrightarrow> split_char c s = [s]"
  by (induction s) auto

lemma split_char_append:
  "c \<notin> set s \<Longrightarrow> split_char c (s @ c # t) = s # split_char c t"
  by (induction s) auto

lemma hd_split_char: "hd (split_char c s) = takeWhile (\<lambda>x. x \<noteq> c) s"
  by (induction s) (auto split: list.splits)

lemma split_char_parts: "w \<in> set (split_char c s) \<Longrightarrow> c \<notin> set w"
  by (induction s arbitrary: w) (auto split: list.splits if_splits)

text \<open>
  \<open>str::lines\<close>: a line ends at \<open>\\n\<close> or \<open>\\r\\n\<close>; the last one may be unterminated and then
  keeps a trailing \<open>\\r\<close>.
\<close>

definition strip_cr :: "string \<Rightarrow> string" where
  "strip_cr s = (if s \<noteq> [] \<and> last s = CHR 13 then butlast s else s)"

fun lines_from :: "string \<Rightarrow> string \<Rightarrow> string list" where
  "lines_from acc [] = (if acc = [] then [] else [rev acc])"
| "lines_from acc (c # cs) =
     (if c = CHR 10 then strip_cr (rev acc) # lines_from [] cs else lines_from (c # acc) cs)"

definition rust_lines :: "string \<Rightarrow> string list" where
  "rust_lines s = lines_from [] s"

section \<open>White space\<close>

text \<open>
  The number of bytes of the white-space character (Unicode \<open>White_Space\<close>) that a string
  starts with, 0 if it starts with something else; and the same at the end, on the reversed
  bytes.
\<close>

fun ws_at :: "nat list \<Rightarrow> nat" where
  "ws_at [] = 0"
| "ws_at (a # r) =
     (if a = 32 \<or> (9 \<le> a \<and> a \<le> 13) then 1
      else if a = 194 then (case r of b # _ \<Rightarrow> if b = 133 \<or> b = 160 then 2 else 0 | [] \<Rightarrow> 0)
      else (case r of b # c # _ \<Rightarrow>
          if (a = 225 \<and> b = 154 \<and> c = 128)
           \<or> (a = 226 \<and> b = 128 \<and> ((128 \<le> c \<and> c \<le> 138) \<or> c = 168 \<or> c = 169 \<or> c = 175))
           \<or> (a = 226 \<and> b = 129 \<and> c = 159)
           \<or> (a = 227 \<and> b = 128 \<and> c = 128) then 3 else 0
        | _ \<Rightarrow> 0))"

fun ws_at_end :: "nat list \<Rightarrow> nat" where
  "ws_at_end [] = 0"
| "ws_at_end (a # r) =
     (if ws_at [a] = 1 then 1
      else (case r of [] \<Rightarrow> 0
        | b # r' \<Rightarrow> if ws_at [b, a] = 2 then 2
            else (case r' of [] \<Rightarrow> 0 | c # _ \<Rightarrow> if ws_at [c, b, a] = 3 then 3 else 0)))"

definition codes :: "string \<Rightarrow> nat list" where
  "codes s = map of_char s"

function trim_start :: "string \<Rightarrow> string" where
  "trim_start s =
     (let n = ws_at (codes s) in if s \<noteq> [] \<and> 0 < n then trim_start (drop n s) else s)"
  by pat_completeness auto
termination by (relation "measure length") auto

function trim_end_rev :: "string \<Rightarrow> string" where
  "trim_end_rev r =
     (let n = ws_at_end (codes r) in if r \<noteq> [] \<and> 0 < n then trim_end_rev (drop n r) else r)"
  by pat_completeness auto
termination by (relation "measure length") auto

declare trim_start.simps [simp del] trim_end_rev.simps [simp del]

definition rust_trim :: "string \<Rightarrow> string" where
  "rust_trim s = rev (trim_end_rev (rev (trim_start s)))"

function split_ws :: "string \<Rightarrow> string \<Rightarrow> string list" where
  "split_ws acc s =
     (case s of
        [] \<Rightarrow> (if acc = [] then [] else [rev acc])
      | c # cs \<Rightarrow>
          (let n = ws_at (codes s) in
           if 0 < n then (if acc = [] then split_ws [] (drop n s)
                          else rev acc # split_ws [] (drop n s))
           else split_ws (c # acc) cs))"
  by pat_completeness auto
termination by (relation "measure (\<lambda>(acc, s). length s)") auto

declare split_ws.simps [simp del]

definition split_whitespace :: "string \<Rightarrow> string list" where
  "split_whitespace s = split_ws [] s"

section \<open>Pieces of a string\<close>

text \<open>Lines, trimmed strings, words and parts of a string are contiguous pieces of it.\<close>

named_theorems pieces \<open>results that are contiguous pieces of the argument\<close>

lemma strip_cr_piece [pieces]: "sublist (strip_cr s) s"
  by (simp add: strip_cr_def)

lemma lines_from_piece: "l \<in> set (lines_from acc s) \<Longrightarrow> sublist l (rev acc @ s)"
proof (induction acc s rule: lines_from.induct)
  case (2 acc c cs)
  show ?case
  proof (cases "c = CHR 10")
    case True
    have "sublist (strip_cr (rev acc)) (rev acc @ c # cs)"
      by (rule sublist_order.order.trans [OF strip_cr_piece]) simp
    moreover have "sublist l (rev acc @ c # cs)" if "sublist l cs"
      using that by (rule sublist_order.order.trans) (simp add: sublist_Cons_right sublist_append)
    ultimately show ?thesis using 2 True by auto
  qed (use 2 in simp)
qed (auto split: if_splits)

lemma rust_lines_piece [pieces]: "l \<in> set (rust_lines s) \<Longrightarrow> sublist l s"
  using lines_from_piece [of l "[]" s] by (simp add: rust_lines_def)

lemma strip_cr_subset: "c \<in> set (strip_cr s) \<Longrightarrow> c \<in> set s"
  using sublist_order.order.trans strip_cr_piece set_mono_sublist by fastforce

lemma lines_from_no_nl: "l \<in> set (lines_from acc s) \<Longrightarrow> CHR 10 \<notin> set acc \<Longrightarrow> CHR 10 \<notin> set l"
  by (induction acc s rule: lines_from.induct) (auto dest: strip_cr_subset split: if_splits)

lemma rust_lines_no_nl: "l \<in> set (rust_lines s) \<Longrightarrow> CHR 10 \<notin> set l"
  using lines_from_no_nl [of l "[]" s] by (simp add: rust_lines_def)

lemma trim_start_piece: "sublist (trim_start s) s"
proof (induction s rule: trim_start.induct)
  case (1 s)
  show ?case
  proof (cases "s \<noteq> [] \<and> 0 < ws_at (codes s)")
    case True
    then have "trim_start s = trim_start (drop (ws_at (codes s)) s)"
      by (subst trim_start.simps) (simp add: Let_def)
    moreover have "sublist (trim_start (drop (ws_at (codes s)) s)) (drop (ws_at (codes s)) s)"
      using 1 True by blast
    ultimately show ?thesis using sublist_order.order.trans [OF _ sublist_drop] by metis
  qed (subst trim_start.simps, auto simp: Let_def)
qed

lemma trim_end_rev_piece: "sublist (trim_end_rev s) s"
proof (induction s rule: trim_end_rev.induct)
  case (1 s)
  show ?case
  proof (cases "s \<noteq> [] \<and> 0 < ws_at_end (codes s)")
    case True
    then have "trim_end_rev s = trim_end_rev (drop (ws_at_end (codes s)) s)"
      by (subst trim_end_rev.simps) (simp add: Let_def)
    moreover have "sublist (trim_end_rev (drop (ws_at_end (codes s)) s)) (drop (ws_at_end (codes s)) s)"
      using 1 True by blast
    ultimately show ?thesis using sublist_order.order.trans [OF _ sublist_drop] by metis
  qed (subst trim_end_rev.simps, auto simp: Let_def)
qed

lemma rust_trim_piece [pieces]: "sublist (rust_trim s) s"
proof -
  have "sublist (rust_trim s) (trim_start s)"
    unfolding rust_trim_def sublist_rev_left by (rule trim_end_rev_piece)
  then show ?thesis using trim_start_piece by (rule sublist_order.order.trans)
qed

lemma split_ws_piece: "w \<in> set (split_ws acc s) \<Longrightarrow> sublist w (rev acc @ s)"
proof (induction acc s rule: split_ws.induct)
  case (1 acc s)
  show ?case
  proof (cases s)
    case Nil
    then show ?thesis using 1(4) by (subst (asm) split_ws.simps) (auto split: if_splits)
  next
    case (Cons c cs)
    let ?n = "ws_at (codes s)"
    have later: "sublist w (rev acc @ s)" if "sublist w (drop ?n s)"
      using sublist_order.order.trans [OF that sublist_drop] sublist_order.order.trans [OF _ sublist_append_leftI]
      by blast
    show ?thesis
    proof (cases "0 < ?n")
      case True
      then have "w = rev acc \<or> w \<in> set (split_ws [] (drop ?n s))"
        using 1(4) Cons by (subst (asm) split_ws.simps) (auto simp: Let_def split: if_splits)
      then show ?thesis
      proof
        assume "w \<in> set (split_ws [] (drop ?n s))"
        then have "sublist w (drop ?n s)"
          using 1(1) [OF Cons refl] 1(2) [OF Cons refl] True Cons by (cases "acc = []") auto
        then show ?thesis by (rule later)
      qed simp
    next
      case False
      then have "w \<in> set (split_ws (c # acc) cs)"
        using 1(4) Cons by (subst (asm) split_ws.simps) (simp add: Let_def)
      then show ?thesis using 1(3) [OF Cons refl] False Cons by simp
    qed
  qed
qed

lemma split_whitespace_piece [pieces]: "w \<in> set (split_whitespace s) \<Longrightarrow> sublist w s"
  using split_ws_piece [of w "[]" s] by (simp add: split_whitespace_def)

lemma sublist_notin: "sublist a b \<Longrightarrow> c \<notin> set b \<Longrightarrow> c \<notin> set a"
  using set_mono_sublist by fast

section \<open>Numbers\<close>

definition is_digit :: "char \<Rightarrow> bool" where
  "is_digit c \<longleftrightarrow> 48 \<le> (of_char c :: nat) \<and> (of_char c :: nat) \<le> 57"

definition digit_val :: "char \<Rightarrow> nat" where
  "digit_val c = of_char c - 48"

definition digits_val :: "string \<Rightarrow> nat" where
  "digits_val ds = foldl (\<lambda>a d. 10 * a + digit_val d) 0 ds"

text \<open>\<open>u16::from_str\<close>: an optional plus sign, then decimal digits, at most 65535.\<close>

definition parse_u16 :: "string \<Rightarrow> u16 option" where
  "parse_u16 s =
     (let ds = (case s of c # r \<Rightarrow> if c = CHR ''+'' then r else s | [] \<Rightarrow> s)
      in if ds = [] \<or> \<not> list_all is_digit ds then None
         else if digits_val ds < 65536 then Some (of_nat (digits_val ds)) else None)"

definition digit_char :: "nat \<Rightarrow> char" where
  "digit_char n = char_of (48 + n)"

fun show_nat :: "nat \<Rightarrow> string" where
  "show_nat n = (if n < 10 then [digit_char n] else show_nat (n div 10) @ [digit_char (n mod 10)])"

declare show_nat.simps [simp del]

lemma digit_chars:
  "digit_char 0 = CHR ''0''" "digit_char (Suc 0) = CHR ''1''" "digit_char 1 = CHR ''1''"
  "digit_char 2 = CHR ''2''" "digit_char 3 = CHR ''3''" "digit_char 4 = CHR ''4''"
  "digit_char 5 = CHR ''5''" "digit_char 6 = CHR ''6''" "digit_char 7 = CHR ''7''"
  "digit_char 8 = CHR ''8''" "digit_char 9 = CHR ''9''"
  by code_simp+

definition show_u16 :: "u16 \<Rightarrow> string" where
  "show_u16 p = show_nat (unat p)"

lemma of_char_digit_char: "n < 10 \<Longrightarrow> (of_char (digit_char n) :: nat) = 48 + n"
  by (simp add: digit_char_def)

lemma is_digit_digit_char: "n < 10 \<Longrightarrow> is_digit (digit_char n)"
  by (simp add: is_digit_def of_char_digit_char)

lemma digit_val_digit_char: "n < 10 \<Longrightarrow> digit_val (digit_char n) = n"
  by (simp add: digit_val_def of_char_digit_char)

lemma show_nat_nonempty [simp]: "show_nat n \<noteq> []"
  by (subst show_nat.simps) simp

lemma show_nat_digits: "c \<in> set (show_nat n) \<Longrightarrow> is_digit c"
proof (induction n rule: show_nat.induct)
  case (1 n)
  show ?case
  proof (cases "n < 10")
    case True
    with 1 show ?thesis by (simp add: show_nat.simps [of n] is_digit_digit_char)
  next
    case False
    with 1 show ?thesis by (auto simp: show_nat.simps [of n] is_digit_digit_char)
  qed
qed

lemma digits_val_show_nat: "digits_val (show_nat n) = n"
proof (induction n rule: show_nat.induct)
  case (1 n)
  show ?case
  proof (cases "n < 10")
    case True
    then show ?thesis by (simp add: show_nat.simps [of n] digits_val_def digit_val_digit_char)
  next
    case False
    with 1 show ?thesis
      by (simp add: show_nat.simps [of n] digits_val_def digit_val_digit_char)
  qed
qed

lemma show_nat_inj: "show_nat m = show_nat n \<Longrightarrow> m = n"
  by (metis digits_val_show_nat)

lemma digit_not_special:
  "is_digit c \<Longrightarrow> c \<noteq> CHR '':'' \<and> c \<noteq> CHR ''+'' \<and> c \<noteq> CHR ''.'' \<and> c \<noteq> CHR ''#''"
  by (auto simp: is_digit_def)

lemma parse_u16_show_u16: "parse_u16 (show_u16 p) = Some p"
proof -
  have "hd (show_nat (unat p)) \<in> set (show_nat (unat p))" by simp
  then have "hd (show_nat (unat p)) \<noteq> CHR ''+''"
    using show_nat_digits digit_not_special by blast
  moreover have "list_all is_digit (show_nat (unat p))"
    by (auto simp: list_all_iff intro: show_nat_digits)
  moreover have "unat p < 65536" by simp
  ultimately show ?thesis using digits_val_show_nat [of "unat p"]
    by (cases "show_nat (unat p)") (simp_all add: parse_u16_def show_u16_def)
qed

text \<open>\<open>Ipv4Addr::from_str\<close>: four octets, no leading zeros, at most 255 each.\<close>

definition octet_ok :: "string \<Rightarrow> bool" where
  "octet_ok s \<longleftrightarrow> 1 \<le> length s \<and> length s \<le> 3 \<and> list_all is_digit s
     \<and> (length s = 1 \<or> hd s \<noteq> CHR ''0'') \<and> digits_val s \<le> 255"

definition parse_ipv4 :: "string \<Rightarrow> nat list option" where
  "parse_ipv4 s =
     (let parts = split_char (CHR ''.'') s
      in if length parts = 4 \<and> list_all octet_ok parts then Some (map digits_val parts) else None)"

definition show_ipv4 :: "nat \<Rightarrow> nat \<Rightarrow> nat \<Rightarrow> nat \<Rightarrow> string" where
  "show_ipv4 a b c d = show_nat a @ ''.'' @ show_nat b @ ''.'' @ show_nat c @ ''.'' @ show_nat d"

section \<open>\<open>host:port\<close> keys\<close>

definition host_port :: "string \<Rightarrow> u16 \<Rightarrow> string" where
  "host_port h p = h @ '':'' @ show_u16 p"

lemma colon_not_in_show_u16: "CHR '':'' \<notin> set (show_u16 p)"
  using show_nat_digits digit_not_special by (auto simp: show_u16_def)

lemma append_last_sep_inj:
  assumes "xs @ c # ys = xs' @ c # ys'" "c \<notin> set ys" "c \<notin> set ys'"
  shows "xs = xs' \<and> ys = ys'"
  using assms
proof (induction xs arbitrary: xs')
  case Nil
  then show ?case by (cases xs') auto
next
  case (Cons x xs)
  then show ?case by (cases xs') auto
qed

lemma host_port_inj: "host_port h p = host_port h' p' \<longleftrightarrow> h = h' \<and> p = p'"
proof
  assume "host_port h p = host_port h' p'"
  then have "h = h' \<and> show_u16 p = show_u16 p'"
    using append_last_sep_inj [of h "CHR '':''" "show_u16 p" h' "show_u16 p'"]
      colon_not_in_show_u16 by (simp add: host_port_def)
  then show "h = h' \<and> p = p'"
    using parse_u16_show_u16 by (metis option.inject)
qed simp

end
