(* ===== verification/Proxy.thy ===== *)
theory Proxy
  imports F64 RustStd
begin

text \<open>
  \<open>src/pool/proxy.rs\<close>: one upstream proxy, its scoring and its circuit breaker.  The record
  has the fields of the struct in its order; \<open>Instant\<close>s and \<open>DateTime\<close>s are the readings of
  the clocks of Prelude.  Counters wrap at their width, as in the release profile.
  The lemmas show that the latency average stays in its range through every rounding,
  that scores are finite, how long each failure disables a proxy, and what survives a
  save and a load.
\<close>

section \<open>Data\<close>

datatype protocol = Http | Socks5 | Https

datatype proxy_status = Verified | PresumedAlive | Unchecked | Failed

record proxy =
  host :: string
  port :: u16
  protocol :: protocol
  latency_ewma :: f64
  success_count :: u64
  fail_count :: u64
  consecutive_fails :: u32
  last_check :: "int option"
  last_success :: "int option"
  last_fail :: "int option"
  country :: "string option"
  manual :: bool
  priority_boost :: f64
  tls_clean :: "bool option"
  uptime_max_secs :: u64
  status :: "proxy_status option"
  circuit_open_until :: "nat option"
  uptime_streak_start :: "nat option"

definition proxy_new :: "string \<Rightarrow> u16 \<Rightarrow> protocol \<Rightarrow> proxy" where
  "proxy_new h p proto =
     \<lparr>host = h, port = p, protocol = proto, latency_ewma = Fin 5000, success_count = 0,
      fail_count = 0, consecutive_fails = 0, last_check = None, last_success = None,
      last_fail = None, country = None, manual = False, priority_boost = Fin 0,
      tls_clean = None, uptime_max_secs = 0, status = Some Unchecked,
      circuit_open_until = None, uptime_streak_start = None\<rparr>"

definition proxy_key :: "proxy \<Rightarrow> string" where
  "proxy_key p = host_port (host p) (port p)"

definition proxy_addr :: "proxy \<Rightarrow> string" where
  "proxy_addr p = host_port (host p) (port p)"

section \<open>Success, failure, availability\<close>

definition latency_sample :: "f64 \<Rightarrow> f64" where
  "latency_sample l = (if f_is_finite l then f_clamp l (Fin 0) (Fin 60000) else Fin 5000)"

definition ewma :: "f64 \<Rightarrow> f64 \<Rightarrow> f64" where
  "ewma old l = f_add (f_mul old (f_mk (8 / 10))) (f_mul l (f_mk (2 / 10)))"

definition track_uptime :: "clock \<Rightarrow> proxy \<Rightarrow> proxy" where
  "track_uptime now p =
     (if 0 < consecutive_fails p \<or> uptime_streak_start p = None
      then p\<lparr>uptime_streak_start := Some (inst now)\<rparr>
      else (case uptime_streak_start p of
              Some start \<Rightarrow> p\<lparr>uptime_max_secs :=
                max (uptime_max_secs p) (of_nat (elapsed_secs now start))\<rparr>
            | None \<Rightarrow> p))"

definition record_success :: "f64 \<Rightarrow> clock \<Rightarrow> proxy \<Rightarrow> proxy" where
  "record_success latency_ms now p =
     (let p = p\<lparr>latency_ewma := ewma (latency_ewma p) (latency_sample latency_ms),
                success_count := success_count p + 1\<rparr>;
          p = track_uptime now p
      in p\<lparr>consecutive_fails := 0, last_success := Some (utc now), last_check := Some (utc now),
           status := Some Verified, circuit_open_until := None\<rparr>)"

text \<open>The escalation of the circuit breaker; \<open>None\<close> is the arm that returns early.\<close>

definition disable_secs :: "u32 \<Rightarrow> nat option" where
  "disable_secs n =
     (if unat n \<le> 4 then Some 0
      else if unat n \<le> 9 then Some 60
      else if unat n \<le> 19 then Some 300
      else if unat n \<le> 49 then Some 3600
      else None)"

definition record_fail :: "clock \<Rightarrow> proxy \<Rightarrow> proxy" where
  "record_fail now p =
     (let p = p\<lparr>fail_count := fail_count p + 1, consecutive_fails := consecutive_fails p + 1,
                last_fail := Some (utc now), last_check := Some (utc now),
                uptime_streak_start := None\<rparr>
      in case disable_secs (consecutive_fails p) of
           None \<Rightarrow> p\<lparr>status := Some Failed\<rparr>
         | Some d \<Rightarrow> if 0 < d
             then p\<lparr>circuit_open_until := Some (inst now + secs d), status := Some Failed\<rparr>
             else p)"

definition is_available :: "clock \<Rightarrow> proxy \<Rightarrow> bool" where
  "is_available now p =
     (case circuit_open_until p of Some until \<Rightarrow> until \<le> inst now | None \<Rightarrow> True)"

definition mark_presumed_alive :: "proxy \<Rightarrow> proxy" where
  "mark_presumed_alive p =
     p\<lparr>status := Some PresumedAlive, circuit_open_until := None, consecutive_fails := 0\<rparr>"

section \<open>Score\<close>

definition recency_bonus :: "clock \<Rightarrow> proxy \<Rightarrow> f64 \<Rightarrow> f64" where
  "recency_bonus now p s =
     (case last_success p of
        Some t \<Rightarrow>
          (if f_lt (f_of_int (max (num_seconds (utc now - t)) 0)) (Fin 300)
           then f_sub s (Fin 100) else s)
      | None \<Rightarrow> s)"

definition uptime_of :: "clock \<Rightarrow> proxy \<Rightarrow> f64" where
  "uptime_of now p =
     f_max (case uptime_streak_start p of
              Some start \<Rightarrow> f_of_nat (elapsed_secs now start) | None \<Rightarrow> Fin 0)
           (f_of_nat (unat (uptime_max_secs p)))"

definition stability_bonus :: "f64 \<Rightarrow> f64" where
  "stability_bonus up =
     f_min (f_add (f_mul (f_div (f_sub up (Fin 300)) (Fin 3300)) (Fin 450)) (Fin 50)) (Fin 500)"

definition score :: "clock \<Rightarrow> proxy \<Rightarrow> f64" where
  "score now p =
     (let s = latency_ewma p;
          s = f_add s (f_mul (f_of_nat (unat (consecutive_fails p))) (Fin 50));
          s = f_sub s (priority_boost p);
          s = recency_bonus now p s;
          up = uptime_of now p
      in if f_lt (Fin 300) up then f_sub s (stability_bonus up) else s)"

text \<open>
  What serde writes and reads back: the \<open>#[serde(skip)]\<close> fields come back as their default,
  \<open>None\<close>.  \<open>fp\<close> is what printing and parsing a JSON number makes of a double.
\<close>

definition reload :: "(f64 \<Rightarrow> f64) \<Rightarrow> proxy \<Rightarrow> proxy" where
  "reload fp p = p\<lparr>latency_ewma := fp (latency_ewma p), priority_boost := fp (priority_boost p),
                   status := None, circuit_open_until := None, uptime_streak_start := None\<rparr>"

section \<open>Frames\<close>

text \<open>No operation changes the identity of a proxy.\<close>

named_theorems proxy_frame \<open>fields an operation leaves alone\<close>

lemma track_uptime_frame [simp, proxy_frame]:
  "proxy_key (track_uptime now p) = proxy_key p" "country (track_uptime now p) = country p"
  "tls_clean (track_uptime now p) = tls_clean p"
  "latency_ewma (track_uptime now p) = latency_ewma p"
  "priority_boost (track_uptime now p) = priority_boost p"
  "protocol (track_uptime now p) = protocol p"
  "success_count (track_uptime now p) = success_count p"
  by (auto simp: track_uptime_def proxy_key_def split: option.split)

lemma record_success_frame [simp, proxy_frame]:
  "proxy_key (record_success l now p) = proxy_key p"
  "country (record_success l now p) = country p"
  "tls_clean (record_success l now p) = tls_clean p"
  "priority_boost (record_success l now p) = priority_boost p"
  "protocol (record_success l now p) = protocol p"
  by (auto simp: record_success_def track_uptime_def proxy_key_def Let_def split: option.split)

lemma record_fail_frame [simp, proxy_frame]:
  "proxy_key (record_fail now p) = proxy_key p" "country (record_fail now p) = country p"
  "tls_clean (record_fail now p) = tls_clean p" "latency_ewma (record_fail now p) = latency_ewma p"
  "priority_boost (record_fail now p) = priority_boost p"
  "protocol (record_fail now p) = protocol p"
  by (auto simp: record_fail_def proxy_key_def Let_def split: option.split)

lemma mark_presumed_alive_frame [simp, proxy_frame]:
  "proxy_key (mark_presumed_alive p) = proxy_key p"
  "country (mark_presumed_alive p) = country p"
  "tls_clean (mark_presumed_alive p) = tls_clean p"
  "latency_ewma (mark_presumed_alive p) = latency_ewma p"
  "priority_boost (mark_presumed_alive p) = priority_boost p"
  by (simp_all add: mark_presumed_alive_def proxy_key_def)

lemma proxy_key_new [simp]: "proxy_key (proxy_new h p proto) = host_port h p"
  by (simp add: proxy_key_def proxy_new_def)

lemma proxy_addr_key [simp]: "proxy_addr p = proxy_key p"
  by (simp add: proxy_addr_def proxy_key_def)

lemma proxy_key_country [simp]: "proxy_key (p\<lparr>country := c\<rparr>) = proxy_key p"
  by (simp add: proxy_key_def)

lemma proxy_key_tls [simp]: "proxy_key (p\<lparr>tls_clean := c\<rparr>) = proxy_key p"
  by (simp add: proxy_key_def)

lemma proxy_key_reload [simp]: "proxy_key (reload fp p) = proxy_key p"
  by (simp add: proxy_key_def reload_def)

lemma record_success_state [simp]:
  "status (record_success l now p) = Some Verified"
  "circuit_open_until (record_success l now p) = None"
  "consecutive_fails (record_success l now p) = 0"
  "last_check (record_success l now p) = Some (utc now)"
  "last_success (record_success l now p) = Some (utc now)"
  "success_count (record_success l now p) = success_count p + 1"
  by (simp_all add: record_success_def Let_def)

lemma is_available_success [simp]: "is_available t (record_success l now p)"
  by (simp add: is_available_def)

section \<open>The latency average\<close>

definition ewma_ok :: "proxy \<Rightarrow> bool" where
  "ewma_ok p \<longleftrightarrow> (\<exists>a. latency_ewma p = Fin a \<and> 0 \<le> a \<and> a \<le> 60000)"

lemma latency_sample_range: "\<exists>a. latency_sample l = Fin a \<and> 0 \<le> a \<and> a \<le> 60000"
  by (cases l) (auto simp: latency_sample_def f_clamp_def f_lt_def)

text \<open>The two weights of the average are the doubles nearest to 0.8 and 0.2.\<close>

lemma weight_08: "f_mk (8 / 10) = Fin (7205759403792794 / 2 ^ 53)"
proof -
  have "rnd (8 / 10) = of_int 7205759403792794 / 2 ^ 53"
    by (rule rnd_eval [where e = "- 1"]) simp_all
  then show ?thesis by (simp add: f_mk_def)
qed

lemma weight_02: "f_mk (2 / 10) = Fin (7205759403792794 / 2 ^ 55)"
proof -
  have "rnd (2 / 10) = of_int 7205759403792794 / 2 ^ 55"
    by (rule rnd_eval [where e = "- 3"]) (simp_all add: power_int_minus_divide)
  then show ?thesis by (simp add: f_mk_def)
qed

text \<open>At the upper end both products round to an integer, so the range is kept exactly.\<close>

lemma rnd_top_08: "rnd (60000 * (7205759403792794 / 2 ^ 53)) = 48000"
proof -
  have "rnd (60000 * (7205759403792794 / 2 ^ 53)) = of_int (48000 * 2 ^ 37) / 2 ^ 37"
    by (rule rnd_eval [where e = 15]) simp_all
  then show ?thesis by simp
qed

lemma rnd_top_02: "rnd (60000 * (7205759403792794 / 2 ^ 55)) = 12000"
proof -
  have "rnd (60000 * (7205759403792794 / 2 ^ 55)) = of_int (12000 * 2 ^ 39) / 2 ^ 39"
    by (rule rnd_eval [where e = 13]) simp_all
  then show ?thesis by simp
qed

lemma f_mk_within:
  assumes "0 \<le> x" "rnd x \<le> hi" "hi < 2 powi 1024"
  shows "f_mk x = Fin (rnd x)"
  using assms rnd_nonneg [of x] by (auto simp: f_mk_def Let_def)

lemma weighted_range:
  assumes "0 \<le> a" "a \<le> 60000" "0 \<le> w" "rnd (60000 * w) = hi" "hi \<le> 60000"
  shows "f_mul (Fin a) (Fin w) = Fin (rnd (a * w))" "0 \<le> rnd (a * w)" "rnd (a * w) \<le> hi"
proof -
  show up: "rnd (a * w) \<le> hi"
    using rnd_mono [of "a * w" "60000 * w"] assms by (simp add: mult_right_mono)
  show "0 \<le> rnd (a * w)" using assms by (simp add: rnd_nonneg)
  have "hi < 2 powi 1024" using assms(5) by simp
  with up assms show "f_mul (Fin a) (Fin w) = Fin (rnd (a * w))"
    by (simp add: f_mk_within)
qed

lemma ewma_range:
  assumes "0 \<le> a" "a \<le> 60000" "0 \<le> l" "l \<le> 60000"
  shows "\<exists>b. ewma (Fin a) (Fin l) = Fin b \<and> 0 \<le> b \<and> b \<le> 60000"
proof -
  let ?x = "rnd (a * (7205759403792794 / 2 ^ 53))" and ?y = "rnd (l * (7205759403792794 / 2 ^ 55))"
  have x: "f_mul (Fin a) (f_mk (8 / 10)) = Fin ?x" "0 \<le> ?x" "?x \<le> 48000"
    unfolding weight_08 using weighted_range [OF assms(1,2) _ rnd_top_08] by auto
  have y: "f_mul (Fin l) (f_mk (2 / 10)) = Fin ?y" "0 \<le> ?y" "?y \<le> 12000"
    unfolding weight_02 using weighted_range [OF assms(3,4) _ rnd_top_02] by auto
  have "rnd 60000 = (60000 :: rat)" using rnd_int [of 60000] by simp
  then have "\<exists>r. f_mk (?x + ?y) = Fin r \<and> r = rnd (?x + ?y) \<and> 0 \<le> r \<and> r \<le> 60000"
    using x y by (intro f_mk_range) auto
  then show ?thesis unfolding ewma_def x(1) y(1) by auto
qed

lemma ewma_ok_success: "ewma_ok p \<Longrightarrow> ewma_ok (record_success l now p)"
  using latency_sample_range [of l] ewma_range
  by (fastforce simp: ewma_ok_def record_success_def Let_def)

lemma ewma_ok_fail [simp]: "ewma_ok (record_fail now p) \<longleftrightarrow> ewma_ok p"
  by (simp add: ewma_ok_def)

lemma ewma_ok_mark [simp]: "ewma_ok (mark_presumed_alive p) \<longleftrightarrow> ewma_ok p"
  by (simp add: ewma_ok_def)

lemma ewma_ok_new [simp]: "ewma_ok (proxy_new h p proto)"
  by (simp add: ewma_ok_def proxy_new_def)

section \<open>The score is a finite number\<close>

lemma stability_bonus_range:
  assumes "f_lt (Fin 300) up" shows "\<exists>b. stability_bonus up = Fin b \<and> 50 \<le> b \<and> b \<le> 500"
proof -
  from assms have up: "Fin 300 \<le> up" "up \<noteq> NaN" by (auto simp: f_lt_def)
  define y where "y = f_mul (f_div (f_sub up (Fin 300)) (Fin 3300)) (Fin 450)"
  have "f_nonneg y"
    unfolding y_def using up by (intro f_nonneg_mul f_nonneg_div f_nonneg_sub) auto
  from f_add_ge [OF this, of 50] have ge: "Fin 50 \<le> f_add y (Fin 50)" "f_add y (Fin 50) \<noteq> NaN"
    using f_mk_int [of 50] by auto
  then have "stability_bonus up = min (f_add y (Fin 50)) (Fin 500)"
    by (simp add: stability_bonus_def f_min_def y_def)
  moreover have "Fin 50 \<le> min (f_add y (Fin 50)) (Fin 500)" using ge by simp
  moreover have "min (f_add y (Fin 50)) (Fin 500) \<le> Fin 500" by simp
  ultimately show ?thesis by (metis f_between)
qed

definition score_ok :: "proxy \<Rightarrow> bool" where
  "score_ok p \<longleftrightarrow> ewma_ok p \<and> (\<exists>b. priority_boost p = Fin b \<and> \<bar>b\<bar> \<le> 1000000000)"

lemma score_ok_success: "score_ok p \<Longrightarrow> score_ok (record_success l now p)"
  by (simp add: score_ok_def ewma_ok_success)

lemma score_ok_frame [simp]:
  "score_ok (record_fail now p) \<longleftrightarrow> score_ok p"
  "score_ok (mark_presumed_alive p) \<longleftrightarrow> score_ok p"
  "score_ok (proxy_new h prt proto)"
  by (simp_all add: score_ok_def) (simp add: proxy_new_def)

text \<open>One subtraction moves a value by at most the subtracted amount, integer ends included.\<close>

lemma f_sub_between:
  assumes "of_int lo \<le> a" "a \<le> of_int hi" "of_int lo' \<le> b" "b \<le> of_int hi'"
    "\<bar>lo - hi'\<bar> \<le> 2 ^ 53" "\<bar>hi - lo'\<bar> \<le> 2 ^ 53"
  shows "\<exists>r. f_sub (Fin a) (Fin b) = Fin r \<and> of_int (lo - hi') \<le> r \<and> r \<le> of_int (hi - lo')"
proof -
  have "of_int (lo - hi') \<le> a + - b" "a + - b \<le> of_int (hi - lo')" using assms(1-4) by simp_all
  from f_mk_between [OF this assms(5,6)] show ?thesis by (simp add: f_sub_def)
qed

lemma recency_bonus_between:
  assumes "of_int lo \<le> a" "a \<le> of_int hi" "\<bar>lo - 100\<bar> \<le> 2 ^ 53" "\<bar>hi\<bar> \<le> 2 ^ 53 - 100"
  shows "\<exists>r. recency_bonus now p (Fin a) = Fin r \<and> of_int (lo - 100) \<le> r \<and> r \<le> of_int hi"
proof -
  have "\<bar>hi - 100\<bar> \<le> 2 ^ 53" using assms(4) by (simp add: abs_le_iff)
  with f_sub_between [of lo a hi 100 100 100] assms
  obtain r where "f_sub (Fin a) (Fin 100) = Fin r" "of_int (lo - 100) \<le> r" "r \<le> of_int (hi - 100)"
    by auto
  then show ?thesis
    using assms by (auto simp: recency_bonus_def split: option.split)
qed

lemma fails_penalty:
  "f_mul (f_of_nat (unat (n :: u32))) (Fin 50) = Fin (50 * of_nat (unat n))"
proof -
  have b: "unat n < 4294967296" by simp
  then have "unat n \<le> 2 ^ 53" by (simp del: unat_u32)
  then have "f_of_nat (unat n) = Fin (of_nat (unat n))" by (rule f_of_nat_exact)
  moreover have "\<bar>50 * int (unat n)\<bar> \<le> 2 ^ 53"
  proof -
    have "int (unat n) < 4294967296" using b by linarith
    then show ?thesis by simp
  qed
  then have "f_mk (of_int (50 * int (unat n))) = Fin (of_int (50 * int (unat n)))" by (rule f_mk_int)
  ultimately show ?thesis by (simp add: mult.commute)
qed

lemma score_range:
  assumes "score_ok p"
  shows "\<exists>r. score now p = Fin r \<and> - 1000000600 \<le> r \<and> r \<le> 215748424800"
proof -
  from assms obtain a b where a: "latency_ewma p = Fin a" "0 \<le> a" "a \<le> 60000"
    and b: "priority_boost p = Fin b" "- 1000000000 \<le> b" "b \<le> 1000000000"
    by (auto simp: score_ok_def ewma_ok_def abs_le_iff)
  define n where "n = unat (consecutive_fails p)"
  have "n < 4294967296" by (simp add: n_def)
  then have n: "of_nat n < (4294967296 :: rat)"
    using of_nat_less_iff [of n 4294967296, where ?'a = rat] by simp
  have fp: "f_mul (f_of_nat n) (Fin 50) = Fin (50 * of_nat n)"
    unfolding n_def by (rule fails_penalty)
  have "of_int 0 \<le> a + 50 * of_nat n" "a + 50 * of_nat n \<le> of_int 214748424800"
    using a n by simp_all
  from f_mk_between [OF this] a(1) fp obtain s1 where
    s1: "f_add (latency_ewma p) (f_mul (f_of_nat n) (Fin 50)) = Fin s1" "0 \<le> s1" "s1 \<le> 214748424800"
    by auto
  from f_sub_between [of 0 s1 214748424800 "- 1000000000" b 1000000000] s1 b obtain s2 where
    s2: "f_sub (Fin s1) (priority_boost p) = Fin s2" "- 1000000000 \<le> s2" "s2 \<le> 215748424800"
    by auto
  from recency_bonus_between [of "- 1000000000" s2 215748424800 now p] s2 obtain s3 where
    s3: "recency_bonus now p (Fin s2) = Fin s3" "- 1000000100 \<le> s3" "s3 \<le> 215748424800"
    by auto
  show ?thesis
  proof (cases "f_lt (Fin 300) (uptime_of now p)")
    case True
    from stability_bonus_range [OF True] obtain t where
      t: "stability_bonus (uptime_of now p) = Fin t" "50 \<le> t" "t \<le> 500" by auto
    from f_sub_between [of "- 1000000100" s3 215748424800 50 t 500] s3 t
    obtain s4 where "f_sub (Fin s3) (Fin t) = Fin s4" "- 1000000600 \<le> s4" "s4 \<le> 215748424750"
      by auto
    with True t s1 s2 s3 show ?thesis by (auto simp: score_def Let_def n_def)
  next
    case False
    with s1 s2 s3 show ?thesis by (auto simp: score_def Let_def n_def)
  qed
qed

lemma score_not_NaN: "score_ok p \<Longrightarrow> score now p \<noteq> NaN"
  using score_range [of p now] by auto

section \<open>The circuit breaker\<close>

text \<open>What a failure does, by the number of consecutive failures it makes.\<close>

lemma unat_add1_u32: "unat n + 1 < 2 ^ 32 \<Longrightarrow> unat (n + 1 :: u32) = unat n + 1"
  by (simp add: unat_word_ariths)

lemma record_fail_small:
  assumes "unat (consecutive_fails p) < 4"
  shows "circuit_open_until (record_fail now p) = circuit_open_until p"
    "status (record_fail now p) = status p"
  using assms unat_add1_u32 [of "consecutive_fails p"]
  by (simp_all add: record_fail_def disable_secs_def Let_def)

lemma record_fail_opens:
  assumes "disable_secs (consecutive_fails p + 1) = Some d" "0 < d"
  shows "circuit_open_until (record_fail now p) = Some (inst now + secs d)"
    "status (record_fail now p) = Some Failed"
  using assms by (simp_all add: record_fail_def Let_def)

lemma record_fail_exhausted:
  assumes "disable_secs (consecutive_fails p + 1) = None"
  shows "circuit_open_until (record_fail now p) = circuit_open_until p"
    "status (record_fail now p) = Some Failed"
  using assms by (simp_all add: record_fail_def Let_def)

lemma consecutive_fails_record_fail [simp]:
  "consecutive_fails (record_fail now p) = consecutive_fails p + 1"
  by (simp add: record_fail_def Let_def split: option.split)

lemma uptime_max_record_fail [simp]: "uptime_max_secs (record_fail now p) = uptime_max_secs p"
  by (simp add: record_fail_def Let_def split: option.split)

lemma success_count_record_fail [simp]: "success_count (record_fail now p) = success_count p"
  by (simp add: record_fail_def Let_def split: option.split)

lemma last_check_record_fail [simp]: "last_check (record_fail now p) = Some (utc now)"
  by (simp add: record_fail_def Let_def split: option.split)

text \<open>A run of failures observed at the given clock readings.\<close>

definition fail_run :: "clock list \<Rightarrow> proxy \<Rightarrow> proxy" where
  "fail_run ts p = fold record_fail ts p"

lemma fail_run_snoc: "fail_run (ts @ [t]) p = record_fail t (fail_run ts p)"
  by (simp add: fail_run_def)

lemma unat_fails_run:
  "unat (consecutive_fails p) + length ts < 2 ^ 32 \<Longrightarrow>
   unat (consecutive_fails (fail_run ts p)) = unat (consecutive_fails p) + length ts"
proof (induction ts rule: rev_induct)
  case Nil
  then show ?case by (simp add: fail_run_def)
next
  case (snoc t ts)
  then show ?case by (simp add: fail_run_snoc unat_add1_u32)
qed

text \<open>Below the fifth failure the circuit stays as it was.\<close>

lemma fail_run_closed:
  assumes "consecutive_fails p = 0" "length ts \<le> 4"
  shows "circuit_open_until (fail_run ts p) = circuit_open_until p"
  using assms(2)
proof (induction ts rule: rev_induct)
  case Nil
  then show ?case by (simp add: fail_run_def)
next
  case (snoc t ts)
  have "unat (consecutive_fails (fail_run ts p)) < 4"
    using unat_fails_run [of p ts] assms(1) snoc.prems by simp
  then show ?case using snoc by (simp add: fail_run_snoc record_fail_small)
qed

definition ladder :: "nat \<Rightarrow> nat" where
  "ladder n = (if n \<le> 9 then 60 else if n \<le> 19 then 300 else 3600)"

lemma fail_run_open:
  assumes "consecutive_fails p = 0" "5 \<le> length ts" "length ts \<le> 49"
  shows "circuit_open_until (fail_run ts p) = Some (inst (last ts) + secs (ladder (length ts)))"
proof -
  from assms(2) obtain us t where ts: "ts = us @ [t]" by (cases ts rule: rev_cases) auto
  have "unat (consecutive_fails (fail_run us p)) = length us"
    using unat_fails_run [of p us] assms ts by simp
  then have "unat (consecutive_fails (fail_run us p) + 1) = length ts"
    using unat_add1_u32 [of "consecutive_fails (fail_run us p)"] assms ts by simp
  then have "disable_secs (consecutive_fails (fail_run us p) + 1) = Some (ladder (length ts))"
    using assms by (simp add: disable_secs_def ladder_def)
  then show ?thesis
    using record_fail_opens(1) [of "fail_run us p" _ t] ts by (simp add: fail_run_snoc ladder_def)
qed

lemma fail_run_beyond:
  assumes "consecutive_fails p = 0" "49 \<le> length ts" "length ts < 2 ^ 32"
  shows "circuit_open_until (fail_run ts p) = Some (inst (ts ! 48) + secs 3600)"
  using assms(2,3)
proof (induction ts rule: rev_induct)
  case Nil
  then show ?case by simp
next
  case (snoc t us)
  show ?case
  proof (cases "length us = 48")
    case True
    then show ?thesis using fail_run_open [of p "us @ [t]"] assms(1)
      by (simp add: ladder_def nth_append)
  next
    case False
    with snoc.prems have len: "49 \<le> length us" "length us + 1 < 2 ^ 32" by simp_all
    have "unat (consecutive_fails (fail_run us p)) = length us"
      using unat_fails_run [of p us] assms(1) len by simp
    then have "unat (consecutive_fails (fail_run us p) + 1) = length us + 1"
      using unat_add1_u32 [of "consecutive_fails (fail_run us p)"] len by simp
    then have "disable_secs (consecutive_fails (fail_run us p) + 1) = None"
      using len by (simp add: disable_secs_def)
    then show ?thesis using snoc.IH len
      by (simp add: fail_run_snoc record_fail_exhausted nth_append)
  qed
qed

section \<open>Histories\<close>

text \<open>One observation of a proxy: a success with its latency, or a failure.\<close>

definition observe :: "f64 option \<times> clock \<Rightarrow> proxy \<Rightarrow> proxy" where
  "observe ob p = (case ob of (Some l, now) \<Rightarrow> record_success l now p
                            | (None, now) \<Rightarrow> record_fail now p)"

interpretation obs: keeps score_ok observe
  by unfold_locales (auto simp: observe_def score_ok_success split: prod.split option.split)

section \<open>Properties\<close>

text \<open>
  Whatever latencies are reported (negative, huge, infinite or NaN) and however
  successes and failures interleave, every score of the proxy is a finite number in a fixed
  range: the comparisons of the selection loops never meet a NaN.
\<close>

theorem history_score_finite:
  assumes "score_ok p"
  shows "\<exists>r. score now (fold observe obs p) = Fin r \<and> - 1000000600 \<le> r \<and> r \<le> 215748424800"
  using score_range [OF obs.keeps_fold [OF assms]] .

theorem history_score_finite_witness:
  "\<exists>r. score \<lparr>inst = 9, utc = 9\<rparr>
         (fold observe [(Some NaN, \<lparr>inst = 1, utc = 1\<rparr>), (None, \<lparr>inst = 2, utc = 2\<rparr>)]
           (proxy_new ''1.2.3.4'' 8080 Http)) = Fin r
       \<and> - 1000000600 \<le> r \<and> r \<le> 215748424800"
  by (rule history_score_finite) simp

text \<open>
  The latency average stays in the interval from 0 to 60000 milliseconds through every
  reported latency, in double-precision arithmetic with its rounding.
\<close>

theorem ewma_stays_in_range:
  assumes "latency_ewma p = Fin a" "0 \<le> a" "a \<le> 60000"
  shows "\<exists>b. latency_ewma (record_success l now p) = Fin b \<and> 0 \<le> b \<and> b \<le> 60000"
proof -
  have "ewma_ok (record_success l now p)"
    using assms by (intro ewma_ok_success) (auto simp: ewma_ok_def)
  then show ?thesis by (simp add: ewma_ok_def)
qed

theorem ewma_stays_in_range_witness:
  "\<exists>b. latency_ewma (record_success PInf \<lparr>inst = 1, utc = 1\<rparr> (proxy_new ''1.2.3.4'' 8080 Http))
         = Fin b \<and> 0 \<le> b \<and> b \<le> 60000"
  by (rule ewma_stays_in_range [where a = 5000]) (simp_all add: proxy_new_def)

text \<open>
  C31: the backoff ladder.  After n consecutive failures with n at most 49, a proxy whose
  circuit was closed is available again exactly from 60, 300 or 3600 seconds after the
  last failure (n from 5, 10, 20), and it is never disabled below five failures.
\<close>

theorem backoff_ladder:
  assumes "consecutive_fails p = 0" "circuit_open_until p = None" "length ts \<le> 49"
  shows "is_available t (fail_run ts p) \<longleftrightarrow>
           length ts \<le> 4 \<or>
           inst (last ts) + secs (if length ts \<le> 9 then 60 else if length ts \<le> 19 then 300 else 3600)
             \<le> inst t"
proof (cases "length ts \<le> 4")
  case True
  then show ?thesis using fail_run_closed [OF assms(1)] assms(2) by (simp add: is_available_def)
next
  case False
  then have "circuit_open_until (fail_run ts p) = Some (inst (last ts) + secs (ladder (length ts)))"
    using assms by (intro fail_run_open) auto
  with False show ?thesis by (simp add: is_available_def ladder_def)
qed

theorem backoff_ladder_witness:
  "is_available \<lparr>inst = 60000000005, utc = 0\<rparr>
     (fail_run [\<lparr>inst = 1, utc = 0\<rparr>, \<lparr>inst = 2, utc = 0\<rparr>, \<lparr>inst = 3, utc = 0\<rparr>, \<lparr>inst = 4, utc = 0\<rparr>,
                \<lparr>inst = 5, utc = 0\<rparr>] (proxy_new ''1.2.3.4'' 8080 Http))"
  by (subst backoff_ladder) (simp_all add: proxy_new_def secs_def)

text \<open>
  The fiftieth and later failures do not extend the disabled period.  From 49 failures
  on, the proxy becomes available one hour after its 49th failure, however many more
  failures follow; the comment calls this state permanently failed.
\<close>

theorem failures_beyond_49_do_not_extend:
  assumes "consecutive_fails p = 0" "49 \<le> length ts" "length ts < 2 ^ 32"
  shows "is_available t (fail_run ts p) \<longleftrightarrow> inst (ts ! 48) + secs 3600 \<le> inst t"
  using fail_run_beyond [OF assms] by (simp add: is_available_def)

theorem failures_beyond_49_do_not_extend_witness:
  "is_available \<lparr>inst = 3600000000007, utc = 0\<rparr>
     (fail_run (replicate 60 \<lparr>inst = 7, utc = 0\<rparr>) (proxy_new ''1.2.3.4'' 8080 Http))"
  by (subst failures_beyond_49_do_not_extend) (simp_all add: proxy_new_def secs_def)

text \<open>
  The key of the pool tables identifies a proxy: two proxies have the same key only when
  both host and port agree, whatever characters the hosts hold.
\<close>

theorem proxy_key_identifies:
  "proxy_key p = proxy_key q \<longleftrightarrow> host p = host q \<and> port p = port q"
  by (simp add: proxy_key_def host_port_inj)

end
