(* ===== verification/Sticky.thy ===== *)
theory Sticky
  imports RustStd
begin

text \<open>
  \<open>src/pool/sticky_sessions.rs\<close>: which proxy a client was last served by.  The session table
  is keyed by the client's socket address; the lifetime of a session grows with its
  successes.  The arithmetic of the lifetime is 64-bit two's complement, as in the code,
  and the calls into chrono that panic out of their range are panics of the model; the two
  limits of chrono are a parameter.
\<close>

section \<open>Data\<close>

datatype ipaddr = V4 u32 | V6 "128 word"

type_synonym sockaddr = "ipaddr \<times> u16"

record sticky_session =
  ss_client_ip :: sockaddr
  ss_proxy_key :: string
  ss_backup_proxy_key :: "string option"
  ss_created_at :: int
  ss_last_access :: int
  ss_success_count :: u32

record sticky_manager =
  sessions :: "(sockaddr, sticky_session) table"
  ttl_secs :: u64

definition sticky_with_ttl :: "u64 \<Rightarrow> sticky_manager" where
  "sticky_with_ttl ttl = \<lparr>sessions = [], ttl_secs = ttl\<rparr>"

definition sticky_new :: sticky_manager where
  "sticky_new = sticky_with_ttl 300"

definition set_ttl :: "u64 \<Rightarrow> sticky_manager \<Rightarrow> sticky_manager" where
  "set_ttl ttl m = m\<lparr>ttl_secs := ttl\<rparr>"

section \<open>Session lifetime\<close>

text \<open>
  \<open>delta_max\<close> is the largest number of seconds of a \<open>TimeDelta\<close>, \<open>utc_min\<close> the first
  representable \<open>DateTime\<close> (nanoseconds).
\<close>

record chrono_limits =
  delta_max :: int
  utc_min :: int

definition chrono_seconds :: "chrono_limits \<Rightarrow> int \<Rightarrow> int comp" where
  "chrono_seconds cl s = (if \<bar>s\<bar> \<le> delta_max cl then Ret (s * 1000000000) else Panic)"

definition utc_sub :: "chrono_limits \<Rightarrow> int \<Rightarrow> int \<Rightarrow> int comp" where
  "utc_sub cl t d = (if utc_min cl \<le> t - d then Ret (t - d) else Panic)"

text \<open>
  \<open>base_ttl + bonus_secs.min(base_ttl * 2)\<close> on \<open>i64\<close>: the cast reinterprets the bits, sums and
  products wrap, the minimum is signed.
\<close>

definition effective_secs :: "u64 \<Rightarrow> u32 \<Rightarrow> u64" where
  "effective_secs ttl n =
     (let base = ttl;
          bonus = word_of_nat (unat n div 10) * 60;
          cap = base * 2
      in base + (if sint bonus \<le> sint cap then bonus else cap))"

definition effective_ttl :: "chrono_limits \<Rightarrow> u64 \<Rightarrow> sticky_session \<Rightarrow> int comp" where
  "effective_ttl cl ttl s = chrono_seconds cl (sint (effective_secs ttl (ss_success_count s)))"

section \<open>Operations\<close>

definition sticky_get ::
  "chrono_limits \<Rightarrow> clock \<Rightarrow> sockaddr \<Rightarrow> sticky_manager \<Rightarrow> (string option \<times> sticky_manager) comp"
where
  "sticky_get cl now client m =
     (case tbl_get (sessions m) client of
        None \<Rightarrow> Ret (None, m)
      | Some s \<Rightarrow>
          comp_bind (effective_ttl cl (ttl_secs m) s) (\<lambda>ttl.
          comp_bind (utc_sub cl (utc now) ttl) (\<lambda>limit.
            if ss_last_access s < limit
            then Ret (None, m\<lparr>sessions := tbl_del client (sessions m)\<rparr>)
            else Ret (Some (ss_proxy_key s), m))))"

definition sticky_set :: "clock \<Rightarrow> sockaddr \<Rightarrow> string \<Rightarrow> sticky_manager \<Rightarrow> sticky_manager" where
  "sticky_set now client key m =
     m\<lparr>sessions := tbl_put client
        \<lparr>ss_client_ip = client, ss_proxy_key = key, ss_backup_proxy_key = None,
         ss_created_at = utc now, ss_last_access = utc now, ss_success_count = 1\<rparr> (sessions m)\<rparr>"

definition set_or_touch :: "clock \<Rightarrow> sockaddr \<Rightarrow> string \<Rightarrow> sticky_manager \<Rightarrow> sticky_manager" where
  "set_or_touch now client key m =
     (case tbl_get (sessions m) client of
        Some s \<Rightarrow>
          (if ss_proxy_key s = key
           then m\<lparr>sessions := tbl_put client
                  (s\<lparr>ss_last_access := utc now, ss_success_count := ss_success_count s + 1\<rparr>)
                  (sessions m)\<rparr>
           else m\<lparr>sessions := tbl_put client
                  (s\<lparr>ss_proxy_key := key, ss_backup_proxy_key := Some (ss_proxy_key s),
                     ss_last_access := utc now, ss_success_count := 1\<rparr>) (sessions m)\<rparr>)
      | None \<Rightarrow>
          m\<lparr>sessions := tbl_put client
             \<lparr>ss_client_ip = client, ss_proxy_key = key, ss_backup_proxy_key = None,
              ss_created_at = utc now, ss_last_access = utc now, ss_success_count = 1\<rparr>
             (sessions m)\<rparr>)"

definition get_backup :: "sockaddr \<Rightarrow> sticky_manager \<Rightarrow> string option" where
  "get_backup client m = Option.bind (tbl_get (sessions m) client) ss_backup_proxy_key"

definition sticky_touch :: "clock \<Rightarrow> sockaddr \<Rightarrow> sticky_manager \<Rightarrow> sticky_manager" where
  "sticky_touch now client m =
     m\<lparr>sessions := tbl_modify client (\<lambda>s. s\<lparr>ss_last_access := utc now\<rparr>) (sessions m)\<rparr>"

definition sticky_remove :: "sockaddr \<Rightarrow> sticky_manager \<Rightarrow> sticky_manager" where
  "sticky_remove client m = m\<lparr>sessions := tbl_del client (sessions m)\<rparr>"

text \<open>\<open>retain\<close> with a predicate that may panic.\<close>

fun retain_live ::
  "chrono_limits \<Rightarrow> clock \<Rightarrow> u64 \<Rightarrow> (sockaddr, sticky_session) table \<Rightarrow>
   (sockaddr, sticky_session) table comp" where
  "retain_live cl now ttl [] = Ret []"
| "retain_live cl now ttl ((k, s) # es) =
     comp_bind (effective_ttl cl ttl s) (\<lambda>d.
     comp_bind (retain_live cl now ttl es) (\<lambda>r.
       Ret (if utc now - ss_last_access s < d then (k, s) # r else r)))"

definition sticky_cleanup :: "chrono_limits \<Rightarrow> clock \<Rightarrow> sticky_manager \<Rightarrow> sticky_manager comp" where
  "sticky_cleanup cl now m =
     comp_bind (retain_live cl now (ttl_secs m) (sessions m)) (\<lambda>t. Ret (m\<lparr>sessions := t\<rparr>))"

definition sticky_count :: "sticky_manager \<Rightarrow> nat" where
  "sticky_count m = tbl_len (sessions m)"

definition sticky_clear :: "sticky_manager \<Rightarrow> sticky_manager" where
  "sticky_clear m = m\<lparr>sessions := []\<rparr>"

section \<open>The lifetime in integers\<close>

lemma sint_small:
  assumes "0 \<le> i" "i < 2 ^ 63" shows "sint (word_of_int i :: u64) = i"
  using assms by (simp add: signed_of_int signed_take_bit_int_eq_self)

lemma effective_secs_small:
  assumes "unat ttl < 2 ^ 61"
  shows "sint (effective_secs ttl n) =
           int (unat ttl) + min (60 * int (unat n div 10)) (2 * int (unat ttl))"
proof -
  define T B where "T = int (unat ttl)" and "B = 60 * int (unat n div 10)"
  have n: "unat n < 4294967296" by simp
  then have "unat n div 10 < 4294967296" by (rule le_less_trans [OF div_le_dividend])
  then have B: "0 \<le> B" "B < 2 ^ 62" by (simp_all add: B_def)
  have "int (unat ttl) < int (2 ^ 61)" using assms by (simp only: of_nat_less_iff)
  then have T: "0 \<le> T" "T < 2 ^ 61" by (simp_all add: T_def)
  have base: "ttl = word_of_int T" by (simp add: T_def)
  have cap: "ttl * 2 = word_of_int (T * 2)" unfolding base by simp
  have bonus: "(word_of_nat (unat n div 10) * 60 :: u64) = word_of_int B"
    by (simp add: B_def mult.commute)
  have "sint (word_of_int B :: u64) = B" by (rule sint_small) (use B in auto)
  moreover have "sint (word_of_int (T * 2) :: u64) = T * 2" by (rule sint_small) (use T in auto)
  ultimately have "effective_secs ttl n = word_of_int (T + min B (T * 2))"
    unfolding effective_secs_def Let_def bonus cap by (simp add: base min_def)
  moreover have "sint (word_of_int (T + min B (T * 2)) :: u64) = T + min B (T * 2)"
    using B T by (intro sint_small) (auto simp: min_def)
  ultimately show ?thesis by (simp add: T_def B_def mult.commute)
qed

lemma effective_secs_bounds:
  assumes "unat ttl < 2 ^ 61"
  shows "int (unat ttl) \<le> sint (effective_secs ttl n)"
    "sint (effective_secs ttl n) \<le> 3 * int (unat ttl)"
  unfolding effective_secs_small [OF assms] by auto

text \<open>The range in which no library call panics: about 88000 years of lifetime.\<close>

definition ttl_fits :: "chrono_limits \<Rightarrow> clock \<Rightarrow> u64 \<Rightarrow> bool" where
  "ttl_fits cl now ttl \<longleftrightarrow> unat ttl < 2 ^ 61 \<and> 3 * int (unat ttl) \<le> delta_max cl
     \<and> utc_min cl \<le> utc now - 3 * int (unat ttl) * 1000000000"

definition lifetime :: "u64 \<Rightarrow> sticky_session \<Rightarrow> int" where
  "lifetime ttl s = sint (effective_secs ttl (ss_success_count s)) * 1000000000"

lemma lifetime_bounds:
  assumes "unat ttl < 2 ^ 61"
  shows "int (unat ttl) * 1000000000 \<le> lifetime ttl s" "0 \<le> lifetime ttl s"
    "lifetime ttl s \<le> 3 * int (unat ttl) * 1000000000"
  using effective_secs_bounds [OF assms, of "ss_success_count s"] by (auto simp: lifetime_def)

lemma effective_ttl_fits:
  assumes "ttl_fits cl now ttl"
  shows "effective_ttl cl ttl s = Ret (lifetime ttl s)"
    "utc_sub cl (utc now) (lifetime ttl s) = Ret (utc now - lifetime ttl s)"
proof -
  have t: "unat ttl < 2 ^ 61" using assms by (simp add: ttl_fits_def)
  note b = effective_secs_bounds [OF t, of "ss_success_count s"]
  show "effective_ttl cl ttl s = Ret (lifetime ttl s)"
    using b assms by (simp add: effective_ttl_def chrono_seconds_def ttl_fits_def lifetime_def)
  show "utc_sub cl (utc now) (lifetime ttl s) = Ret (utc now - lifetime ttl s)"
    using lifetime_bounds(3) [OF t, of s] assms by (simp add: utc_sub_def ttl_fits_def)
qed

lemma sticky_get_fits:
  assumes "ttl_fits cl now (ttl_secs m)"
  shows "sticky_get cl now client m =
     Ret (case tbl_get (sessions m) client of
            None \<Rightarrow> (None, m)
          | Some s \<Rightarrow> if lifetime (ttl_secs m) s < utc now - ss_last_access s
              then (None, m\<lparr>sessions := tbl_del client (sessions m)\<rparr>)
              else (Some (ss_proxy_key s), m))"
  using effective_ttl_fits [OF assms]
  by (auto simp: sticky_get_def split: option.split)

section \<open>Tables of sessions\<close>

definition sticky_inv :: "sticky_manager \<Rightarrow> bool" where
  "sticky_inv m \<longleftrightarrow> keys_ok (sessions m) \<and> (\<forall>(k, s) \<in> set (sessions m). ss_client_ip s = k)"

lemma sticky_inv_put:
  assumes "sticky_inv m" "ss_client_ip s = k"
  shows "sticky_inv (m\<lparr>sessions := tbl_put k s (sessions m)\<rparr>)"
  using assms set_tbl_put_subset [of k s "sessions m"] by (auto simp: sticky_inv_def)

lemma sticky_inv_del: "sticky_inv m \<Longrightarrow> sticky_inv (m\<lparr>sessions := tbl_del k (sessions m)\<rparr>)"
  by (auto simp: sticky_inv_def tbl_del_def keys_ok_del [unfolded tbl_del_def])

lemma sticky_inv_client: "sticky_inv m \<Longrightarrow> tbl_get (sessions m) k = Some s \<Longrightarrow> ss_client_ip s = k"
  by (auto simp: sticky_inv_def dest!: tbl_get_in_set)

lemma sticky_inv_set_or_touch: "sticky_inv m \<Longrightarrow> sticky_inv (set_or_touch now client key m)"
  by (auto simp: set_or_touch_def sticky_inv_client intro!: sticky_inv_put split: option.split)

lemma sticky_inv_get: "sticky_inv m \<Longrightarrow> sticky_get cl now client m = Ret (r, m') \<Longrightarrow> sticky_inv m'"
  by (auto simp: sticky_get_def sticky_inv_del split: option.splits if_splits)

interpretation sticky_put: keeps sticky_inv "\<lambda>(now, client, key). set_or_touch now client key"
  by unfold_locales (auto simp: sticky_inv_set_or_touch)

lemma ttl_set_or_touch [simp]: "ttl_secs (set_or_touch now client key m) = ttl_secs m"
  by (simp add: set_or_touch_def split: option.split)

lemma get_set_or_touch_other [simp]:
  "client' \<noteq> client \<Longrightarrow>
   tbl_get (sessions (set_or_touch now client key m)) client' = tbl_get (sessions m) client'"
  by (simp add: set_or_touch_def split: option.split)

lemma get_set_or_touch_same:
  "\<exists>s. tbl_get (sessions (set_or_touch now client key m)) client = Some s
     \<and> ss_proxy_key s = key \<and> ss_last_access s = utc now"
  by (auto simp: set_or_touch_def split: option.split)

lemma retain_live_fits:
  assumes "ttl_fits cl now ttl"
  shows "retain_live cl now ttl es =
           Ret (tbl_retain (\<lambda>_ s. utc now - ss_last_access s < lifetime ttl s) es)"
  using effective_ttl_fits(1) [OF assms]
  by (induction es rule: retain_live.induct) (auto simp: tbl_retain_def)

lemma sticky_cleanup_fits:
  assumes "ttl_fits cl now (ttl_secs m)"
  shows "sticky_cleanup cl now m = Ret (m\<lparr>sessions :=
           tbl_retain (\<lambda>_ s. utc now - ss_last_access s < lifetime (ttl_secs m) s) (sessions m)\<rparr>)"
  using retain_live_fits [OF assms] by (simp add: sticky_cleanup_def)

section \<open>Properties\<close>

text \<open>
  The lifetime of a session is the configured one plus one minute for every ten
  successes, at most three times the configured one, whenever three times the configured
  one is representable.
\<close>

theorem session_lifetime:
  assumes "unat ttl < 2 ^ 61"
  shows "sint (effective_secs ttl n) =
           int (unat ttl) + min (60 * int (unat n div 10)) (2 * int (unat ttl))"
  by (rule effective_secs_small [OF assms])

theorem session_lifetime_witness: "sint (effective_secs 300 100) = 300 + min 600 600"
  by (subst session_lifetime) simp_all

text \<open>
  What other tasks do to the table after a client was served: look-ups and successes of handlers,
  and ticks of the clean-up.
\<close>

datatype session_event =
  LookUp sockaddr clock
| Served sockaddr string clock
| CleanUp clock

fun session_step :: "chrono_limits \<Rightarrow> session_event \<Rightarrow> sticky_manager \<Rightarrow> sticky_manager comp" where
  "session_step cl (LookUp client now) m = comp_bind (sticky_get cl now client m) (\<lambda>r. Ret (snd r))"
| "session_step cl (Served client key now) m = Ret (set_or_touch now client key m)"
| "session_step cl (CleanUp now) m = sticky_cleanup cl now m"

fun session_run :: "chrono_limits \<Rightarrow> session_event list \<Rightarrow> sticky_manager \<Rightarrow> sticky_manager comp" where
  "session_run cl [] m = Ret m"
| "session_run cl (e # es) m = comp_bind (session_step cl e m) (session_run cl es)"

text \<open>
  The successes in a row of the client with the proxy, counting the one booked now, and the
  nanoseconds that a session with that many successes lives.
\<close>

definition successes :: "sockaddr \<Rightarrow> string \<Rightarrow> sticky_manager \<Rightarrow> u32" where
  "successes client key m =
     (case tbl_get (sessions m) client of
        Some s \<Rightarrow> if ss_proxy_key s = key then ss_success_count s + 1 else 1
      | None \<Rightarrow> 1)"

definition alive_for :: "u64 \<Rightarrow> u32 \<Rightarrow> int" where
  "alive_for ttl n = (int (unat ttl) + min (60 * int (unat n div 10)) (2 * int (unat ttl))) * 1000000000"

text \<open>
  An event that comes before a session of age \<open>now - t0\<close> has lived its time, and is not a success
  of the same client: that would renew the session or switch its proxy.
\<close>

fun spares :: "chrono_limits \<Rightarrow> u64 \<Rightarrow> sockaddr \<Rightarrow> int \<Rightarrow> int \<Rightarrow> session_event \<Rightarrow> bool" where
  "spares cl ttl client t0 d (LookUp c now) \<longleftrightarrow> ttl_fits cl now ttl \<and> (c = client \<longrightarrow> utc now - t0 \<le> d)"
| "spares cl ttl client t0 d (Served c key now) \<longleftrightarrow> c \<noteq> client"
| "spares cl ttl client t0 d (CleanUp now) \<longleftrightarrow> ttl_fits cl now ttl \<and> utc now - t0 < d"

lemma session_step_spares:
  assumes "sticky_inv m" "tbl_get (sessions m) client = Some s"
    and "spares cl (ttl_secs m) client (ss_last_access s) (lifetime (ttl_secs m) s) e"
  shows "\<exists>m'. session_step cl e m = Ret m' \<and> sticky_inv m' \<and> ttl_secs m' = ttl_secs m
    \<and> tbl_get (sessions m') client = Some s"
proof (cases e)
  case (LookUp c now)
  then have f: "ttl_fits cl now (ttl_secs m)" using assms(3) by simp
  obtain r m' where r: "sticky_get cl now c m = Ret (r, m')" unfolding sticky_get_fits [OF f] by fastforce
  moreover from r assms(2,3) LookUp have "tbl_get (sessions m') client = Some s \<and> ttl_secs m' = ttl_secs m"
    unfolding sticky_get_fits [OF f] by (cases "c = client") (auto split: option.splits if_splits)
  ultimately show ?thesis using LookUp sticky_inv_get [OF assms(1) r] by simp
next
  case (Served c key now)
  then show ?thesis using assms by (simp add: sticky_inv_set_or_touch)
next
  case (CleanUp now)
  then have "ttl_fits cl now (ttl_secs m)" using assms(3) by simp
  then show ?thesis using CleanUp assms
    by (auto simp: sticky_cleanup_fits sticky_inv_def tbl_get_retain) (auto simp: tbl_retain_def)
qed

lemma session_run_spares:
  assumes "sticky_inv m" "tbl_get (sessions m) client = Some s"
    and "list_all (spares cl (ttl_secs m) client (ss_last_access s) (lifetime (ttl_secs m) s)) es"
  shows "\<exists>m'. session_run cl es m = Ret m' \<and> ttl_secs m' = ttl_secs m \<and> tbl_get (sessions m') client = Some s"
  using assms
proof (induction es arbitrary: m)
  case (Cons e es)
  from session_step_spares [OF Cons.prems(1,2)] Cons.prems(3) obtain m' where
    "session_step cl e m = Ret m'" "sticky_inv m'" "ttl_secs m' = ttl_secs m"
    "tbl_get (sessions m') client = Some s" by auto
  with Cons.IH [of m'] Cons.prems(3) show ?case by simp
qed simp

lemma served_session:
  "\<exists>s. tbl_get (sessions (set_or_touch now client key m)) client = Some s \<and> ss_proxy_key s = key
     \<and> ss_last_access s = utc now \<and> ss_success_count s = successes client key m"
  by (auto simp: set_or_touch_def successes_def split: option.split)

text \<open>
  C36: affinity.  After a success of a client (a socket address) through a proxy, its look-ups return
  that proxy exactly as long as the session lives: the configured time, longer by a minute for
  every ten successes in a row, at most three times the configured one.  Until then nothing
  that other clients do, no look-up of its own and no clean-up changes that.
\<close>

theorem sticky_affinity:
  assumes "sticky_inv m" "n = successes client key m"
    and "list_all (spares cl (ttl_secs m) client (utc now) (alive_for (ttl_secs m) n)) es"
    and "ttl_fits cl later (ttl_secs m)"
  shows "\<exists>m1 m2. session_run cl es (set_or_touch now client key m) = Ret m1
    \<and> sticky_get cl later client m1 =
        Ret (if utc later - utc now \<le> alive_for (ttl_secs m) n then Some key else None, m2)"
proof -
  let ?m = "set_or_touch now client key m"
  obtain s where s: "tbl_get (sessions ?m) client = Some s" "ss_proxy_key s = key"
    "ss_last_access s = utc now" "ss_success_count s = n" using served_session assms(2) by blast
  have "unat (ttl_secs m) < 2 ^ 61" using assms(4) by (simp add: ttl_fits_def)
  then have l: "lifetime (ttl_secs m) s = alive_for (ttl_secs m) n"
    by (simp add: lifetime_def alive_for_def effective_secs_small s(4))
  from session_run_spares [OF sticky_inv_set_or_touch [OF assms(1)] s(1)] assms(3) obtain m1 where
    m1: "session_run cl es ?m = Ret m1" "ttl_secs m1 = ttl_secs m" "tbl_get (sessions m1) client = Some s"
    by (auto simp: l s(3))
  then have "\<exists>m2. sticky_get cl later client m1 =
      Ret (if utc later - utc now \<le> alive_for (ttl_secs m) n then Some key else None, m2)"
    using sticky_get_fits [of cl later m1 client] assms(4) s(2,3) l by auto
  with m1(1) show ?thesis by blast
qed

text \<open>Twice the same proxy, a look-up and a clean-up in between; a second later it is over.\<close>

theorem sticky_affinity_witness:
  "let cl = \<lparr>delta_max = 9223372036854775, utc_min = - 8334601228800000000000\<rparr>;
       es = [LookUp (V4 5, 40000) \<lparr>inst = 0, utc = 300000000000\<rparr>, Served (V4 6, 1) ''b'' \<lparr>inst = 0, utc = 7\<rparr>,
             CleanUp \<lparr>inst = 0, utc = 299000000000\<rparr>];
       m = set_or_touch \<lparr>inst = 0, utc = 0\<rparr> (V4 5, 40000) ''1.2.3.4:80'' sticky_new
   in (\<exists>m1 m2. session_run cl es m = Ret m1 \<and>
         sticky_get cl \<lparr>inst = 0, utc = 300000000000\<rparr> (V4 5, 40000) m1 = Ret (Some ''1.2.3.4:80'', m2)) \<and>
      (\<exists>m1 m2. session_run cl es m = Ret m1 \<and>
         sticky_get cl \<lparr>inst = 0, utc = 301000000000\<rparr> (V4 5, 40000) m1 = Ret (None, m2))"
proof -
  let ?cl = "\<lparr>delta_max = 9223372036854775, utc_min = - 8334601228800000000000\<rparr>"
  let ?es = "[LookUp (V4 5, 40000) \<lparr>inst = 0, utc = 300000000000\<rparr>, Served (V4 6, 1) ''b'' \<lparr>inst = 0, utc = 7\<rparr>,
    CleanUp \<lparr>inst = 0, utc = 299000000000\<rparr>]"
  have 1: "sticky_inv sticky_new" by (simp add: sticky_inv_def sticky_new_def sticky_with_ttl_def)
  have n: "successes (V4 5, 40000) ''1.2.3.4:80'' sticky_new = 1"
    by (simp add: successes_def sticky_new_def sticky_with_ttl_def)
  have t: "ttl_secs sticky_new = 300" by (simp add: sticky_new_def sticky_with_ttl_def)
  have a: "alive_for 300 1 = 300000000000" by (simp add: alive_for_def)
  have 2: "list_all (spares ?cl (ttl_secs sticky_new) (V4 5, 40000) (utc \<lparr>inst = 0, utc = 0\<rparr>)
      (alive_for (ttl_secs sticky_new) 1)) ?es" by (simp add: t a ttl_fits_def)
  show ?thesis
    using sticky_affinity [OF 1 n [symmetric] 2, of "\<lparr>inst = 0, utc = 300000000000\<rparr>"]
      sticky_affinity [OF 1 n [symmetric] 2, of "\<lparr>inst = 0, utc = 301000000000\<rparr>"]
    by (simp add: Let_def t a ttl_fits_def)
qed

text \<open>
  Affinity is per socket address, not per client address.  A session recorded for one
  source port is never found, nor offered as a backup, for another source port of the same
  client: a new TCP connection of a client, which has a new source port, starts without a
  session.
\<close>

theorem sticky_not_shared_between_ports:
  assumes "port' \<noteq> port" "tbl_get (sessions m) (ip, port') = None"
  shows "sticky_get cl later (ip, port') (set_or_touch now (ip, port) key m) =
           Ret (None, set_or_touch now (ip, port) key m)"
    and "get_backup (ip, port') (set_or_touch now (ip, port) key m) = None"
  using assms by (simp_all add: sticky_get_def get_backup_def)

theorem sticky_not_shared_between_ports_witness:
  "sticky_get \<lparr>delta_max = 9, utc_min = 0\<rparr> \<lparr>inst = 0, utc = 0\<rparr> (V4 5, 40001)
     (set_or_touch \<lparr>inst = 0, utc = 0\<rparr> (V4 5, 40000) ''a'' sticky_new) =
   Ret (None, set_or_touch \<lparr>inst = 0, utc = 0\<rparr> (V4 5, 40000) ''a'' sticky_new)"
  by (rule sticky_not_shared_between_ports) (simp_all add: sticky_new_def sticky_with_ttl_def)

text \<open>
  A switch of proxy keeps the previous one as the backup and restarts the success
  count, a repeated success keeps the backup; no other client is touched.
\<close>

theorem switch_keeps_backup:
  assumes "tbl_get (sessions m) client = Some s"
  shows "get_backup client (set_or_touch now client key m) =
           (if ss_proxy_key s = key then ss_backup_proxy_key s else Some (ss_proxy_key s))"
    and "map_option ss_success_count (tbl_get (sessions (set_or_touch now client key m)) client) =
           Some (if ss_proxy_key s = key then ss_success_count s + 1 else 1)"
  using assms by (simp_all add: set_or_touch_def get_backup_def)

theorem switch_keeps_backup_witness:
  "get_backup (V4 5, 1) (set_or_touch \<lparr>inst = 0, utc = 7\<rparr> (V4 5, 1) ''b''
     (set_or_touch \<lparr>inst = 0, utc = 0\<rparr> (V4 5, 1) ''a'' sticky_new)) = Some ''a''"
proof -
  let ?m = "set_or_touch \<lparr>inst = 0, utc = 0\<rparr> (V4 5, 1) ''a'' sticky_new"
  have h: "tbl_get (sessions ?m) (V4 5, 1) = Some \<lparr>ss_client_ip = (V4 5, 1), ss_proxy_key = ''a'',
      ss_backup_proxy_key = None, ss_created_at = 0, ss_last_access = 0, ss_success_count = 1\<rparr>"
    by (simp add: set_or_touch_def sticky_new_def sticky_with_ttl_def)
  show ?thesis using switch_keeps_backup(1) [OF h, of "\<lparr>inst = 0, utc = 7\<rparr>" "''b''"] by simp
qed

text \<open>
  Cleanup and lookup agree.  Every session that survives a cleanup is still returned
  by a lookup at the same moment, and every session a lookup would reject is removed by the
  cleanup.
\<close>

theorem cleanup_agrees_with_get:
  assumes "sticky_inv m" "ttl_fits cl now (ttl_secs m)" "sticky_cleanup cl now m = Ret m'"
  shows "tbl_get (sessions m') client = Some s \<Longrightarrow>
           sticky_get cl now client m' = Ret (Some (ss_proxy_key s), m')"
    and "sticky_get cl now client m = Ret (None, m'') \<Longrightarrow> tbl_get (sessions m') client = None"
proof -
  let ?P = "\<lambda>_ s. utc now - ss_last_access s < lifetime (ttl_secs m) s"
  from assms have m': "m' = m\<lparr>sessions := tbl_retain ?P (sessions m)\<rparr>"
    by (simp add: sticky_cleanup_fits)
  have get: "tbl_get (sessions m') client =
      (case tbl_get (sessions m) client of None \<Rightarrow> None | Some v \<Rightarrow> if ?P client v then Some v else None)"
    using assms(1) by (simp add: m' tbl_get_retain sticky_inv_def)
  have "ttl_fits cl now (ttl_secs m')" using assms(2) by (simp add: m')
  then show "tbl_get (sessions m') client = Some s \<Longrightarrow>
      sticky_get cl now client m' = Ret (Some (ss_proxy_key s), m')"
    using get by (auto simp: sticky_get_fits m' split: option.splits if_splits)
  show "sticky_get cl now client m = Ret (None, m'') \<Longrightarrow> tbl_get (sessions m') client = None"
    using get assms(2) by (auto simp: sticky_get_fits split: option.splits if_splits)
qed

theorem cleanup_agrees_with_get_witness:
  "sticky_get \<lparr>delta_max = 9223372036854775, utc_min = - 8334601228800000000000\<rparr>
     \<lparr>inst = 0, utc = 0\<rparr> (V4 5, 1) (sticky_set \<lparr>inst = 0, utc = 0\<rparr> (V4 5, 1) ''a'' sticky_new) =
   Ret (Some ''a'', sticky_set \<lparr>inst = 0, utc = 0\<rparr> (V4 5, 1) ''a'' sticky_new)"
proof -
  let ?m = "sticky_set \<lparr>inst = 0, utc = 0\<rparr> (V4 5, 1) ''a'' sticky_new"
  let ?cl = "\<lparr>delta_max = 9223372036854775, utc_min = - 8334601228800000000000\<rparr>"
  have fits: "ttl_fits ?cl \<lparr>inst = 0, utc = 0\<rparr> (ttl_secs ?m)"
    by (simp add: ttl_fits_def sticky_set_def sticky_new_def sticky_with_ttl_def)
  have ss: "sessions ?m = [((V4 5, 1), \<lparr>ss_client_ip = (V4 5, 1), ss_proxy_key = ''a'',
      ss_backup_proxy_key = None, ss_created_at = 0, ss_last_access = 0, ss_success_count = 1\<rparr>)]"
    by (simp add: sticky_set_def sticky_new_def sticky_with_ttl_def tbl_put_def)
  have clean: "sticky_cleanup ?cl \<lparr>inst = 0, utc = 0\<rparr> ?m = Ret ?m"
    unfolding sticky_cleanup_fits [OF fits]
    by (simp add: ss tbl_retain_def lifetime_def effective_secs_small)
       (simp add: sticky_set_def sticky_new_def sticky_with_ttl_def tbl_put_def effective_secs_small)
  have inv: "sticky_inv ?m" by (simp add: sticky_inv_def ss keys_ok_def)
  have "sticky_get ?cl \<lparr>inst = 0, utc = 0\<rparr> (V4 5, 1) ?m = Ret (Some (ss_proxy_key (snd (hd (sessions ?m)))), ?m)"
    by (rule cleanup_agrees_with_get(1) [OF inv fits clean]) (simp add: ss tbl_get_def)
  then show ?thesis by (simp add: ss)
qed

text \<open>
  An over-large configured time to live makes a lookup of an existing session panic
  instead of returning.
\<close>

theorem huge_ttl_panics:
  assumes "tbl_get (sessions m) client = Some s" "unat (ttl_secs m) < 2 ^ 61"
    and "delta_max cl < int (unat (ttl_secs m))"
  shows "sticky_get cl now client m = Panic"
proof -
  have "delta_max cl < sint (effective_secs (ttl_secs m) (ss_success_count s))"
    using effective_secs_bounds(1) [OF assms(2)] assms(3) by (rule less_le_trans [rotated])
  then have "effective_ttl cl (ttl_secs m) s = Panic"
    by (simp add: effective_ttl_def chrono_seconds_def)
  then show ?thesis using assms(1) by (simp add: sticky_get_def)
qed

theorem huge_ttl_panics_witness:
  "sticky_get \<lparr>delta_max = 9223372036854775, utc_min = 0\<rparr> \<lparr>inst = 0, utc = 0\<rparr> (V4 5, 1)
     (sticky_set \<lparr>inst = 0, utc = 0\<rparr> (V4 5, 1) ''a'' (sticky_with_ttl 10000000000000000)) = Panic"
  by (rule huge_ttl_panics) (simp_all add: sticky_set_def sticky_with_ttl_def)

end
