(* ===== verification/IdleStore.thy ===== *)
theory IdleStore
  imports Prelude "HOL-Library.Multiset"
begin

text \<open>
  The contract that the two stores of idle TCP connections share: taking a connection for a
  key returns one that was stored under that key and is fit for use, takes it out, adds
  nothing and leaves the other keys alone.  From it follows, once for both, that no
  connection is ever handed out twice.
\<close>

locale checkout =
  fixes take_conn :: "'k \<Rightarrow> 'm \<Rightarrow> 's option \<times> 'm"
    and contents :: "'m \<Rightarrow> 'k \<Rightarrow> 'c list"
    and stream_of :: "'c \<Rightarrow> 's"
    and fit :: "'m \<Rightarrow> 'c \<Rightarrow> bool"
  assumes take_some: "take_conn k m = (Some s, m') \<Longrightarrow>
      \<exists>c \<in> set (contents m k). fit m c \<and> stream_of c = s
         \<and> add_mset c (mset (contents m' k)) \<subseteq># mset (contents m k)"
    and take_none: "take_conn k m = (None, m') \<Longrightarrow> mset (contents m' k) \<subseteq># mset (contents m k)"
    and take_other: "take_conn k m = (r, m') \<Longrightarrow> k' \<noteq> k \<Longrightarrow> contents m' k' = contents m k'"
begin

definition streams :: "'m \<Rightarrow> 'k \<Rightarrow> 's list" where
  "streams m k = map stream_of (contents m k)"

text \<open>Draw a number of times for one key, collecting what is handed out.\<close>

fun draw :: "nat \<Rightarrow> 'k \<Rightarrow> 'm \<Rightarrow> 's list \<times> 'm" where
  "draw 0 k m = ([], m)"
| "draw (Suc n) k m =
     (case take_conn k m of (r, m1) \<Rightarrow>
        (case draw n k m1 of (ss, m2) \<Rightarrow> (case r of Some s \<Rightarrow> s # ss | None \<Rightarrow> ss, m2)))"

lemma take_streams:
  "take_conn k m = (r, m') \<Longrightarrow>
   mset (streams m' k) + (case r of Some s \<Rightarrow> {#s#} | None \<Rightarrow> {#}) \<subseteq># mset (streams m k)"
proof (cases r)
  case None
  moreover assume "take_conn k m = (r, m')"
  ultimately show ?thesis
    using take_none [of k m m'] image_mset_subseteq_mono
    by (fastforce simp: streams_def)
next
  case (Some s)
  moreover assume "take_conn k m = (r, m')"
  ultimately obtain c where "stream_of c = s"
    "add_mset c (mset (contents m' k)) \<subseteq># mset (contents m k)"
    using take_some [of k m s m'] by auto
  with image_mset_subseteq_mono [of "add_mset c (mset (contents m' k))" "mset (contents m k)" stream_of]
  show ?thesis using Some by (simp add: streams_def)
qed

lemma draw_streams:
  "draw n k m = (ss, m') \<Longrightarrow> mset ss + mset (streams m' k) \<subseteq># mset (streams m k)"
proof (induction n arbitrary: m ss)
  case 0
  then show ?case by simp
next
  case (Suc n)
  obtain r m1 where r: "take_conn k m = (r, m1)" by fastforce
  obtain ss1 m2 where d: "draw n k m1 = (ss1, m2)" by fastforce
  from Suc.prems r d have ss: "ss = (case r of Some s \<Rightarrow> s # ss1 | None \<Rightarrow> ss1)" "m' = m2"
    by auto
  from Suc.IH [of m1 ss1] d ss have "mset ss1 + mset (streams m' k) \<subseteq># mset (streams m1 k)"
    by simp
  from subset_mset.add_right_mono [OF this, of "case r of Some s \<Rightarrow> {#s#} | None \<Rightarrow> {#}"]
    take_streams [OF r]
  have "mset ss1 + mset (streams m' k) + (case r of Some s \<Rightarrow> {#s#} | None \<Rightarrow> {#})
      \<subseteq># mset (streams m k)"
    by (rule subset_mset.order_trans)
  then show ?case using ss by (cases r) (simp_all add: ac_simps)
qed

lemma draw_distinct:
  assumes "distinct (streams m k)" "draw n k m = (ss, m')"
  shows "distinct ss" "set ss \<subseteq> set (streams m k)" "set ss \<inter> set (streams m' k) = {}"
proof -
  from draw_streams [OF assms(2)] have sub: "mset (ss @ streams m' k) \<subseteq># mset (streams m k)"
    by simp
  have "distinct (ss @ streams m' k)"
  proof -
    have "count (mset (ss @ streams m' k)) x \<le> 1" for x
    proof -
      have "count (mset (ss @ streams m' k)) x \<le> count (mset (streams m k)) x"
        using sub by (rule mset_subset_eq_count)
      also have "\<dots> \<le> 1" using assms(1) by (simp add: distinct_count_atmost_1)
      finally show ?thesis .
    qed
    then show ?thesis by (metis count_greater_eq_one_iff distinct_count_atmost_1 le_antisym
          count_inI leI less_one set_mset_mset)
  qed
  then show "distinct ss" "set ss \<inter> set (streams m' k) = {}" by auto
  show "set ss \<subseteq> set (streams m k)"
    using set_mset_mono [OF sub] by auto
qed

lemma draw_fit: "take_conn k m = (Some s, m') \<Longrightarrow> \<exists>c \<in> set (contents m k). fit m c \<and> stream_of c = s"
  using take_some by blast

end

end
