(* ===== verification/ConnPool.thy ===== *)
theory ConnPool
  imports IdleStore
begin

text \<open>
  \<open>src/pool/connection_pool.rs\<close>: idle TCP connections kept per proxy for reuse.  A stream is
  a value of an arbitrary type; what \<open>peek\<close> under the 100 ms timeout reports about it is a
  parameter.  A vector of connections has its newest element at the end.
\<close>

section \<open>Data\<close>

record 's pooled_connection =
  pc_stream :: 's
  pc_created_at :: nat
  pc_last_used :: nat

record 's connection_pool =
  pools :: "(string, 's pooled_connection list) table"
  max_idle :: nat
  max_per_proxy :: nat

definition conn_pool_with_config :: "nat \<Rightarrow> nat \<Rightarrow> 's connection_pool" where
  "conn_pool_with_config idle_secs per_proxy =
     \<lparr>pools = [], max_idle = secs idle_secs, max_per_proxy = per_proxy\<rparr>"

definition conn_pool_new :: "'s connection_pool" where
  "conn_pool_new = conn_pool_with_config 30 5"

text \<open>The outcome of \<open>timeout(100 ms, stream.peek(&mut [0; 1]))\<close>.\<close>

datatype peek_outcome = PeekOk nat | PeekErr | PeekTimeout

definition peek_alive :: "peek_outcome \<Rightarrow> bool" where
  "peek_alive r = (case r of PeekOk n \<Rightarrow> True | PeekErr \<Rightarrow> False | PeekTimeout \<Rightarrow> False)"

section \<open>Operations\<close>

text \<open>The pop loop on the reversed vector: stop at the first connection that is young enough.\<close>

fun pop_young ::
  "clock \<Rightarrow> nat \<Rightarrow> 's pooled_connection list \<Rightarrow> 's pooled_connection option \<times> 's pooled_connection list"
where
  "pop_young now idle [] = (None, [])"
| "pop_young now idle (c # cs) =
     (if inst now - pc_created_at c \<le> idle then (Some c, cs) else pop_young now idle cs)"

definition conn_get ::
  "('s \<Rightarrow> peek_outcome) \<Rightarrow> clock \<Rightarrow> string \<Rightarrow> 's connection_pool \<Rightarrow> 's option \<times> 's connection_pool"
where
  "conn_get peek now key cp =
     (case tbl_get (pools cp) key of
        None \<Rightarrow> (None, cp)
      | Some v \<Rightarrow>
          (case pop_young now (max_idle cp) (rev v) of (cand, rest) \<Rightarrow>
             (let cp' = cp\<lparr>pools := tbl_put key (rev rest) (pools cp)\<rparr>
              in case cand of
                   None \<Rightarrow> (None, cp')
                 | Some c \<Rightarrow> (if peek_alive (peek (pc_stream c)) then Some (pc_stream c) else None, cp'))))"

definition conn_put :: "clock \<Rightarrow> string \<Rightarrow> 's \<Rightarrow> 's connection_pool \<Rightarrow> 's connection_pool" where
  "conn_put now key s cp =
     (let v = (case tbl_get (pools cp) key of Some v \<Rightarrow> v | None \<Rightarrow> []);
          v' = (if max_per_proxy cp \<le> length v then v
                else v @ [\<lparr>pc_stream = s, pc_created_at = inst now, pc_last_used = inst now\<rparr>])
      in cp\<lparr>pools := tbl_put key v' (pools cp)\<rparr>)"

definition conn_cleanup :: "clock \<Rightarrow> 's connection_pool \<Rightarrow> 's connection_pool" where
  "conn_cleanup now cp =
     cp\<lparr>pools := map (\<lambda>(k, v). (k, filter (\<lambda>c. inst now - pc_created_at c < max_idle cp) v)) (pools cp)\<rparr>"

text \<open>\<open>try_lock\<close> skips the pools that are locked at the moment.\<close>

definition conn_stats :: "(string \<Rightarrow> bool) \<Rightarrow> 's connection_pool \<Rightarrow> nat \<times> nat" where
  "conn_stats locked cp =
     (sum_list (map (\<lambda>(k, v). if locked k then 0 else length v) (pools cp)), length (pools cp))"

definition conn_clear :: "'s connection_pool \<Rightarrow> 's connection_pool" where
  "conn_clear cp = cp\<lparr>pools := []\<rparr>"

section \<open>Lookups\<close>

definition conns :: "'s connection_pool \<Rightarrow> string \<Rightarrow> 's pooled_connection list" where
  "conns cp key = (case tbl_get (pools cp) key of Some v \<Rightarrow> v | None \<Rightarrow> [])"

lemma pop_young_spec:
  "pop_young now idle cs = (cand, rest) \<Longrightarrow>
   (case cand of
      None \<Rightarrow> rest = [] \<and> (\<forall>c \<in> set cs. idle < inst now - pc_created_at c)
    | Some c \<Rightarrow> \<exists>old. cs = old @ c # rest \<and> inst now - pc_created_at c \<le> idle
        \<and> (\<forall>d \<in> set old. idle < inst now - pc_created_at d))"
proof (induction cs)
  case Nil
  then show ?case by auto
next
  case (Cons d cs)
  show ?case
  proof (cases "inst now - pc_created_at d \<le> idle")
    case True
    with Cons.prems show ?thesis by auto
  next
    case False
    show ?thesis
    proof (cases cand)
      case None
      with False Cons show ?thesis by simp
    next
      case (Some c)
      with False Cons obtain old where "cs = old @ c # rest" "inst now - pc_created_at c \<le> idle"
        "\<forall>d \<in> set old. idle < inst now - pc_created_at d" by auto
      with False Some show ?thesis by (auto intro!: exI [of _ "d # old"])
    qed
  qed
qed

lemma conns_get_other:
  "conn_get peek now key cp = (r, cp') \<Longrightarrow> key' \<noteq> key \<Longrightarrow> conns cp' key' = conns cp key'"
  by (auto simp: conn_get_def conns_def Let_def split: option.splits prod.splits)

lemma conn_get_Some:
  assumes "conn_get peek now key cp = (Some s, cp')"
  shows "\<exists>c. pc_stream c = s \<and> inst now - pc_created_at c \<le> max_idle cp \<and> peek_alive (peek s)
           \<and> (\<exists>young. conns cp key = conns cp' key @ c # young)"
proof -
  from assms obtain v c rest where v: "tbl_get (pools cp) key = Some v"
    and pop: "pop_young now (max_idle cp) (rev v) = (Some c, rest)"
    and s: "s = pc_stream c" "peek_alive (peek s)"
    and cp': "cp' = cp\<lparr>pools := tbl_put key (rev rest) (pools cp)\<rparr>"
    by (auto simp: conn_get_def Let_def split: option.splits prod.splits if_splits)
  from pop_young_spec [OF pop] obtain old where old: "rev v = old @ c # rest"
    "inst now - pc_created_at c \<le> max_idle cp" by auto
  then have "v = rev rest @ c # rev old" by (simp add: rev_swap)
  with v cp' have "conns cp key = conns cp' key @ c # rev old" by (simp add: conns_def)
  with s old show ?thesis by blast
qed

lemma conn_get_None:
  assumes "conn_get peek now key cp = (None, cp')"
  shows "\<exists>young. conns cp key = conns cp' key @ young"
proof (cases "tbl_get (pools cp) key")
  case None
  with assms show ?thesis by (simp add: conn_get_def conns_def)
next
  case (Some v)
  obtain cand rest where pop: "pop_young now (max_idle cp) (rev v) = (cand, rest)" by fastforce
  with assms Some have cp': "cp' = cp\<lparr>pools := tbl_put key (rev rest) (pools cp)\<rparr>"
    by (auto simp: conn_get_def Let_def split: option.splits if_splits)
  have "\<exists>young. v = rev rest @ young"
  proof (cases cand)
    case None
    with pop_young_spec [OF pop] show ?thesis by simp
  next
    case (Some c)
    with pop_young_spec [OF pop] obtain old where "rev v = old @ c # rest" by auto
    then have "v = rev rest @ [c] @ rev old" by (simp add: rev_swap)
    then show ?thesis by blast
  qed
  then obtain young where young: "v = rev rest @ young" ..
  have "conns cp' key = rev rest" using cp' by (simp add: conns_def)
  moreover have "conns cp key = v" using Some by (simp add: conns_def)
  ultimately show ?thesis using young by simp
qed

interpretation conn: checkout
  "conn_get peek now" conns pc_stream
  "\<lambda>cp c. inst now - pc_created_at c \<le> max_idle cp \<and> peek_alive (peek (pc_stream c))"
  for peek :: "'s \<Rightarrow> peek_outcome" and now :: clock
proof unfold_locales
  fix k and m m' :: "'s connection_pool" and s
  assume "conn_get peek now k m = (Some s, m')"
  from conn_get_Some [OF this] obtain c young where c: "pc_stream c = s" "inst now - pc_created_at c \<le> max_idle m"
    "peek_alive (peek s)" and split: "conns m k = conns m' k @ c # young"
    by blast
  have "add_mset c (mset (conns m' k)) \<subseteq># mset (conns m k)" "c \<in> set (conns m k)"
    unfolding split by simp_all
  with c show "\<exists>c \<in> set (conns m k).
      (inst now - pc_created_at c \<le> max_idle m \<and> peek_alive (peek (pc_stream c)))
      \<and> pc_stream c = s \<and> add_mset c (mset (conns m' k)) \<subseteq># mset (conns m k)"
    by blast
next
  fix k and m m' :: "'s connection_pool"
  assume "conn_get peek now k m = (None, m')"
  from conn_get_None [OF this] obtain young where split: "conns m k = conns m' k @ young" ..
  show "mset (conns m' k) \<subseteq># mset (conns m k)" unfolding split by simp
next
  fix k k' r and m m' :: "'s connection_pool"
  assume "conn_get peek now k m = (r, m')" "k' \<noteq> k"
  then show "conns m' k' = conns m k'" by (rule conns_get_other)
qed

section \<open>Bounds\<close>

definition conn_bounded :: "nat \<Rightarrow> 's connection_pool \<Rightarrow> bool" where
  "conn_bounded n cp \<longleftrightarrow> max_per_proxy cp = n \<and> (\<forall>(k, v) \<in> set (pools cp). length v \<le> n)"

lemma conn_bounded_put:
  assumes "conn_bounded n cp" "length v \<le> n"
  shows "conn_bounded n (cp\<lparr>pools := tbl_put k v (pools cp)\<rparr>)"
  using assms set_tbl_put_subset [of k v "pools cp"] by (auto simp: conn_bounded_def)

lemma conn_bounded_conns: "conn_bounded n cp \<Longrightarrow> length (conns cp k) \<le> n"
  by (auto simp: conn_bounded_def conns_def split: option.split dest!: tbl_get_in_set)

datatype 's conn_op = CPut clock string 's | CGet clock string | CCleanup clock | CClear

fun conn_apply :: "('s \<Rightarrow> peek_outcome) \<Rightarrow> 's conn_op \<Rightarrow> 's connection_pool \<Rightarrow> 's connection_pool" where
  "conn_apply peek (CPut now k s) cp = conn_put now k s cp"
| "conn_apply peek (CGet now k) cp = snd (conn_get peek now k cp)"
| "conn_apply peek (CCleanup now) cp = conn_cleanup now cp"
| "conn_apply peek CClear cp = conn_clear cp"

lemma conn_put_bounded:
  assumes "conn_bounded n cp" shows "conn_bounded n (conn_put now k s cp)"
proof -
  have n: "max_per_proxy cp = n" using assms by (simp add: conn_bounded_def)
  with assms conn_bounded_conns [OF assms, of k] show ?thesis
    by (auto simp: conn_put_def conns_def Let_def intro!: conn_bounded_put split: option.splits)
qed

lemma conn_clear_bounded: "conn_bounded n cp \<Longrightarrow> conn_bounded n (conn_clear cp)"
  by (simp add: conn_bounded_def conn_clear_def)

lemma conn_get_bounded: "conn_bounded n cp \<Longrightarrow> conn_bounded n (snd (conn_get peek now k cp))"
proof (cases "tbl_get (pools cp) k")
  case None
  moreover assume "conn_bounded n cp"
  ultimately show ?thesis by (simp add: conn_get_def)
next
  case (Some v)
  assume b: "conn_bounded n cp"
  obtain cand rest where pop: "pop_young now (max_idle cp) (rev v) = (cand, rest)" by fastforce
  have "length rest \<le> length v"
  proof (cases cand)
    case None
    with pop_young_spec [OF pop] show ?thesis by simp
  next
    case (Some c)
    with pop_young_spec [OF pop] obtain old where "rev v = old @ c # rest" by auto
    then have "length (rev v) = length (old @ c # rest)" by (rule arg_cong)
    then show ?thesis by simp
  qed
  also have "\<dots> \<le> n" using conn_bounded_conns [OF b, of k] Some by (simp add: conns_def)
  finally show ?thesis
    using b Some pop by (simp add: conn_get_def Let_def conn_bounded_put split: option.split)
qed

lemma conn_cleanup_bounded: "conn_bounded n cp \<Longrightarrow> conn_bounded n (conn_cleanup now cp)"
  by (fastforce simp: conn_bounded_def conn_cleanup_def intro: order_trans [OF length_filter_le])

interpretation conn_ops: keeps "conn_bounded n" "conn_apply peek" for n and peek :: "'s \<Rightarrow> peek_outcome"
proof unfold_locales
  fix s :: "'s connection_pool" and x :: "'s conn_op"
  assume "conn_bounded n s"
  then show "conn_bounded n (conn_apply peek x s)"
    by (cases x) (simp_all add: conn_put_bounded conn_get_bounded conn_cleanup_bounded
        conn_clear_bounded)
qed

section \<open>Properties\<close>

text \<open>
  No proxy ever has more pooled connections than the configured limit, whatever
  sequence of puts, gets, cleanups and clears is run and whatever the sockets report.
\<close>

theorem conn_pool_capped:
  "length (conns (fold (conn_apply peek) ops (conn_pool_with_config idle n)) key) \<le> n"
proof -
  have "conn_bounded n (conn_pool_with_config idle n)"
    by (simp add: conn_bounded_def conn_pool_with_config_def)
  from conn_ops.keeps_fold [OF this] show ?thesis by (rule conn_bounded_conns)
qed

text \<open>
  No pooled connection is handed out twice: when the streams stored for a proxy are
  distinct, any number of gets hands out distinct streams, none of which is still stored.
\<close>

theorem conn_get_never_twice:
  assumes "distinct (map pc_stream (conns cp key))"
    and "checkout.draw (conn_get peek now) n key cp = (ss, cp')"
  shows "distinct ss \<and> set ss \<inter> set (map pc_stream (conns cp' key)) = {}"
  using conn.draw_distinct [of cp key peek now n ss cp'] assms
  by (simp_all add: conn.streams_def)

theorem conn_get_never_twice_witness:
  "distinct (fst (checkout.draw (conn_get (\<lambda>_. PeekOk 1) \<lparr>inst = 0, utc = 0\<rparr>) 3 ''k''
     (conn_put \<lparr>inst = 0, utc = 0\<rparr> ''k'' (7 :: nat) (conn_put \<lparr>inst = 0, utc = 0\<rparr> ''k'' 8 conn_pool_new))))"
proof -
  let ?cp = "conn_put \<lparr>inst = 0, utc = 0\<rparr> ''k'' (7 :: nat) (conn_put \<lparr>inst = 0, utc = 0\<rparr> ''k'' 8 conn_pool_new)"
  have "distinct (map pc_stream (conns ?cp ''k''))"
    by (simp add: conns_def conn_put_def conn_pool_new_def conn_pool_with_config_def Let_def)
  from conn_get_never_twice [OF this, of "\<lambda>_. PeekOk 1" "\<lparr>inst = 0, utc = 0\<rparr>" 3
      "fst (checkout.draw (conn_get (\<lambda>_. PeekOk 1) \<lparr>inst = 0, utc = 0\<rparr>) 3 ''k'' ?cp)"
      "snd (checkout.draw (conn_get (\<lambda>_. PeekOk 1) \<lparr>inst = 0, utc = 0\<rparr>) 3 ''k'' ?cp)"]
  show ?thesis by simp
qed

text \<open>
  The liveness test of this pool selects the wrong connections.  A connection on which
  nothing is pending, so that the peek runs into its timeout, is discarded; one whose peer
  has closed, for which peek reports 0 bytes, is handed out.
\<close>

theorem conn_get_prefers_closed:
  assumes "conns cp key = old @ [c]" "inst now - pc_created_at c \<le> max_idle cp"
  shows "peek (pc_stream c) = PeekTimeout \<Longrightarrow> fst (conn_get peek now key cp) = None"
    and "peek (pc_stream c) = PeekOk 0 \<Longrightarrow> fst (conn_get peek now key cp) = Some (pc_stream c)"
proof -
  from assms(1) have "tbl_get (pools cp) key = Some (old @ [c])"
    by (simp add: conns_def split: option.splits)
  with assms(2) show "peek (pc_stream c) = PeekTimeout \<Longrightarrow> fst (conn_get peek now key cp) = None"
    and "peek (pc_stream c) = PeekOk 0 \<Longrightarrow> fst (conn_get peek now key cp) = Some (pc_stream c)"
    by (simp_all add: conn_get_def Let_def peek_alive_def)
qed

theorem conn_get_prefers_closed_witness:
  "fst (conn_get (\<lambda>_. PeekOk 0) \<lparr>inst = 1, utc = 0\<rparr> ''k''
     (conn_put \<lparr>inst = 0, utc = 0\<rparr> ''k'' (7 :: nat) conn_pool_new)) = Some 7"
proof -
  let ?cp = "conn_put \<lparr>inst = 0, utc = 0\<rparr> ''k'' (7 :: nat) conn_pool_new"
  let ?c = "\<lparr>pc_stream = 7 :: nat, pc_created_at = 0, pc_last_used = 0\<rparr>"
  have "conns ?cp ''k'' = [] @ [?c]"
    by (simp add: conns_def conn_put_def conn_pool_new_def conn_pool_with_config_def Let_def)
  moreover have "inst \<lparr>inst = 1, utc = 0\<rparr> - pc_created_at ?c \<le> max_idle ?cp"
    by (simp add: conn_put_def conn_pool_new_def conn_pool_with_config_def Let_def secs_def)
  ultimately have "fst (conn_get (\<lambda>_. PeekOk 0) \<lparr>inst = 1, utc = 0\<rparr> ''k'' ?cp) = Some (pc_stream ?c)"
    by (rule conn_get_prefers_closed(2)) simp
  then show ?thesis by simp
qed

text \<open>
  A get examines one young connection only.  When the newest one is not alive the get
  returns nothing, although older connections, all of them kept, may be alive.
\<close>

theorem conn_get_gives_up_after_newest:
  assumes "conns cp key = old @ [c]" "inst now - pc_created_at c \<le> max_idle cp"
    and "\<not> peek_alive (peek (pc_stream c))"
  shows "conn_get peek now key cp = (None, cp\<lparr>pools := tbl_put key old (pools cp)\<rparr>)"
proof -
  from assms(1) have "tbl_get (pools cp) key = Some (old @ [c])"
    by (simp add: conns_def split: option.splits)
  with assms(2,3) show ?thesis by (simp add: conn_get_def Let_def)
qed

theorem conn_get_gives_up_after_newest_witness:
  "fst (conn_get (\<lambda>s. if s = 8 then PeekOk 1 else PeekErr) \<lparr>inst = 1, utc = 0\<rparr> ''k''
     \<lparr>pools = [(''k'', [\<lparr>pc_stream = 8, pc_created_at = 0, pc_last_used = 0\<rparr>,
                      \<lparr>pc_stream = 7 :: nat, pc_created_at = 0, pc_last_used = 0\<rparr>])],
      max_idle = 5, max_per_proxy = 5\<rparr>) = None"
  by (subst conn_get_gives_up_after_newest
        [where old = "[\<lparr>pc_stream = 8, pc_created_at = 0, pc_last_used = 0\<rparr>]"
          and c = "\<lparr>pc_stream = 7, pc_created_at = 0, pc_last_used = 0\<rparr>"])
    (simp_all add: conns_def tbl_get_def peek_alive_def)

end
