(* ===== verification/WarmPool.thy ===== *)
theory WarmPool
  imports IdleStore
begin

text \<open>
  \<open>src/pool/warm_pool.rs\<close>: TCP connections established ahead of use to the best proxies.
  A queue has its oldest connection at the front.  What the kernel answers to a
  non-blocking one-byte peek and whether a connect succeeds are parameters.
\<close>

section \<open>Data\<close>

record 's warm_connection =
  wc_stream :: 's
  wc_proxy_key :: string
  wc_established_at :: nat

record 's warm_pool =
  connections :: "(string, 's warm_connection list) table"
  wp_max_per_proxy :: nat
  wp_max_proxies :: nat
  wp_max_age :: nat
  wp_hits :: u64
  wp_misses :: u64

record warm_pool_stats =
  total_connections :: nat
  proxies_tracked :: nat
  st_hits :: u64
  st_misses :: u64

definition warm_pool_new :: "nat \<Rightarrow> nat \<Rightarrow> nat \<Rightarrow> 's warm_pool" where
  "warm_pool_new per_proxy proxies age_secs =
     \<lparr>connections = [], wp_max_per_proxy = per_proxy, wp_max_proxies = proxies,
      wp_max_age = secs age_secs, wp_hits = 0, wp_misses = 0\<rparr>"

text \<open>The result of \<open>recv(fd, buf, 1, MSG_PEEK | MSG_DONTWAIT)\<close>: -1 with the error, or a length.\<close>

datatype recv_outcome = RecvFailed bool | RecvLen nat

fun recv_alive :: "recv_outcome \<Rightarrow> bool" where
  "recv_alive (RecvFailed would_block) = would_block"
| "recv_alive (RecvLen n) = (n \<noteq> 0)"

section \<open>Operations\<close>

fun take_loop ::
  "('s \<Rightarrow> recv_outcome) \<Rightarrow> clock \<Rightarrow> nat \<Rightarrow> 's warm_connection list
   \<Rightarrow> 's option \<times> 's warm_connection list" where
  "take_loop peek now age [] = (None, [])"
| "take_loop peek now age (c # q) =
     (if inst now - wc_established_at c < age \<and> recv_alive (peek (wc_stream c))
      then (Some (wc_stream c), q)
      else take_loop peek now age q)"

definition warm_take ::
  "('s \<Rightarrow> recv_outcome) \<Rightarrow> clock \<Rightarrow> string \<Rightarrow> 's warm_pool \<Rightarrow> 's option \<times> 's warm_pool" where
  "warm_take peek now key wp =
     (case tbl_get (connections wp) key of
        None \<Rightarrow> (None, wp\<lparr>wp_misses := wp_misses wp + 1\<rparr>)
      | Some q \<Rightarrow>
          (case take_loop peek now (wp_max_age wp) q of (r, q') \<Rightarrow>
             (let wp' = wp\<lparr>connections := tbl_put key q' (connections wp)\<rparr>
              in case r of
                   Some s \<Rightarrow> (Some s, wp'\<lparr>wp_hits := wp_hits wp + 1\<rparr>)
                 | None \<Rightarrow> (None, wp'\<lparr>wp_misses := wp_misses wp + 1\<rparr>))))"

text \<open>
  One connect per missing connection, the first failure ends the loop.  \<open>dial i\<close> is the
  outcome of the i-th connect: the stream and the time it was established.
\<close>

function fill :: "(nat \<Rightarrow> ('s \<times> nat) option) \<Rightarrow> string \<Rightarrow> nat \<Rightarrow> nat \<Rightarrow> 's warm_connection list
   \<Rightarrow> 's warm_connection list" where
  "fill dial key n i q =
     (if length q < n
      then (case dial i of
              Some (s, t) \<Rightarrow> fill dial key n (Suc i)
                (q @ [\<lparr>wc_stream = s, wc_proxy_key = key, wc_established_at = t\<rparr>])
            | None \<Rightarrow> q)
      else q)"
  by pat_completeness auto
termination by (relation "measure (\<lambda>(dial, key, n, i, q). n - length q)") auto

declare fill.simps [simp del]

definition refresh_one ::
  "(nat \<Rightarrow> ('s \<times> nat) option) \<Rightarrow> clock \<Rightarrow> string \<Rightarrow> 's warm_pool \<Rightarrow> 's warm_pool" where
  "refresh_one dial now key wp =
     (let q = (case tbl_get (connections wp) key of Some q \<Rightarrow> q | None \<Rightarrow> []);
          q = filter (\<lambda>c. inst now - wc_established_at c < wp_max_age wp) q;
          q = fill dial key (wp_max_per_proxy wp) 0 q
      in wp\<lparr>connections := tbl_put key q (connections wp)\<rparr>)"

text \<open>
  \<open>dial addr i\<close> and \<open>at key\<close>: the outcome of the i-th connect to an address, and the clock
  when the queue of a proxy is visited.
\<close>

definition warm_refresh ::
  "(string \<Rightarrow> nat \<Rightarrow> ('s \<times> nat) option) \<Rightarrow> (string \<Rightarrow> clock) \<Rightarrow> (string \<times> string) list
   \<Rightarrow> 's warm_pool \<Rightarrow> 's warm_pool" where
  "warm_refresh dial at tops wp =
     (let active = fst ` set tops;
          wp = wp\<lparr>connections := tbl_retain (\<lambda>k _. k \<in> active) (connections wp)\<rparr>
      in fold (\<lambda>(key, addr). refresh_one (dial addr) (at key) key) (take (wp_max_proxies wp) tops) wp)"

definition warm_stats :: "'s warm_pool \<Rightarrow> warm_pool_stats" where
  "warm_stats wp = \<lparr>total_connections = tbl_len (connections wp) * wp_max_per_proxy wp,
     proxies_tracked = tbl_len (connections wp), st_hits = wp_hits wp, st_misses = wp_misses wp\<rparr>"

definition connection_count :: "'s warm_pool \<Rightarrow> nat" where
  "connection_count wp = sum_list (map (\<lambda>(k, q). length q) (connections wp))"

section \<open>Taking\<close>

definition queue :: "'s warm_pool \<Rightarrow> string \<Rightarrow> 's warm_connection list" where
  "queue wp key = (case tbl_get (connections wp) key of Some q \<Rightarrow> q | None \<Rightarrow> [])"

definition usable :: "('s \<Rightarrow> recv_outcome) \<Rightarrow> clock \<Rightarrow> nat \<Rightarrow> 's warm_connection \<Rightarrow> bool" where
  "usable peek now age c \<longleftrightarrow> inst now - wc_established_at c < age \<and> recv_alive (peek (wc_stream c))"

text \<open>The loop finds the first usable connection and drops everything before it.\<close>

lemma take_loop_eq:
  "take_loop peek now age q =
     (case dropWhile (\<lambda>c. \<not> usable peek now age c) q of
        [] \<Rightarrow> (None, []) | c # r \<Rightarrow> (Some (wc_stream c), r))"
  by (induction q) (auto simp: usable_def)

lemma warm_take_eq:
  "fst (warm_take peek now key wp) =
     map_option wc_stream (find (usable peek now (wp_max_age wp)) (queue wp key))"
  by (auto simp: warm_take_def queue_def take_loop_eq find_dropWhile comp_def Let_def
      simp del: dropWhile_eq_Nil_conv split: option.split list.split)

lemma queue_warm_take:
  "queue (snd (warm_take peek now key wp)) key' =
     (if key' = key then drop 1 (dropWhile (\<lambda>c. \<not> usable peek now (wp_max_age wp) c) (queue wp key))
      else queue wp key')"
  by (auto simp: warm_take_def queue_def take_loop_eq Let_def
      simp del: dropWhile_eq_Nil_conv split: option.split list.split)

lemma warm_take_counts:
  "wp_hits (snd (warm_take peek now key wp)) + wp_misses (snd (warm_take peek now key wp)) =
     wp_hits wp + wp_misses wp + 1"
  by (auto simp: warm_take_def Let_def split: option.split prod.split)

interpretation warm: checkout
  "warm_take peek now" queue wc_stream "\<lambda>wp. usable peek now (wp_max_age wp)"
  for peek :: "'s \<Rightarrow> recv_outcome" and now :: clock
proof unfold_locales
  fix k s and m m' :: "'s warm_pool"
  assume t: "warm_take peek now k m = (Some s, m')"
  let ?u = "usable peek now (wp_max_age m)"
  have "map_option wc_stream (find ?u (queue m k)) = Some s" using warm_take_eq [of peek now k m] t by simp
  then obtain c where f: "find ?u (queue m k) = Some c" "wc_stream c = s" by auto
  then obtain r where d: "dropWhile (\<lambda>c. \<not> ?u c) (queue m k) = c # r"
    by (auto simp: find_dropWhile comp_def split: list.splits)
  have "queue m' k = r" using queue_warm_take [of peek now k m k] t d by simp
  moreover have "mset (c # r) \<subseteq># mset (queue m k)"
    by (metis d mset_append mset_subset_eq_add_right takeWhile_dropWhile_id)
  moreover have "?u c" "c \<in> set (queue m k)" using f(1) by (auto dest: filter_find)
  ultimately show "\<exists>c \<in> set (queue m k). ?u c \<and> wc_stream c = s
      \<and> add_mset c (mset (queue m' k)) \<subseteq># mset (queue m k)"
    using f(2) by auto
next
  fix k and m m' :: "'s warm_pool"
  assume t: "warm_take peek now k m = (None, m')"
  let ?d = "dropWhile (\<lambda>c. \<not> usable peek now (wp_max_age m) c) (queue m k)"
  have "mset (drop 1 xs) \<subseteq># mset xs" for xs :: "'s warm_connection list" by (cases xs) auto
  then have "mset (drop 1 ?d) \<subseteq># mset ?d" .
  also have "mset ?d \<subseteq># mset (queue m k)"
    by (metis mset_append mset_subset_eq_add_right takeWhile_dropWhile_id)
  finally show "mset (queue m' k) \<subseteq># mset (queue m k)"
    using queue_warm_take [of peek now k m k] t by simp
next
  fix k k' r and m m' :: "'s warm_pool"
  assume "warm_take peek now k m = (r, m')" "k' \<noteq> k"
  then show "queue m' k' = queue m k'" using queue_warm_take [of peek now k m k'] by simp
qed

section \<open>Refreshing\<close>

lemma fill_spec:
  "\<exists>new. fill dial key n i q = q @ new \<and> length (q @ new) \<le> max n (length q)
     \<and> (\<forall>c \<in> set new. wc_proxy_key c = key \<and> (\<exists>j. dial j = Some (wc_stream c, wc_established_at c)))
     \<and> (length (q @ new) < n \<longrightarrow> (\<exists>j. dial j = None))"
proof (induction dial key n i q rule: fill.induct)
  case (1 dial key n i q)
  show ?case
  proof (cases "length q < n")
    case False
    then show ?thesis by (subst fill.simps) auto
  next
    case True
    show ?thesis
    proof (cases "dial i")
      case None
      with True show ?thesis by (subst fill.simps) auto
    next
      case (Some st)
      obtain s t where st: "st = (s, t)" by fastforce
      let ?c = "\<lparr>wc_stream = s, wc_proxy_key = key, wc_established_at = t\<rparr>"
      from 1 [OF True Some st [symmetric]] obtain new where new:
        "fill dial key n (Suc i) (q @ [?c]) = (q @ [?c]) @ new"
        "length ((q @ [?c]) @ new) \<le> max n (length (q @ [?c]))"
        "\<forall>c \<in> set new. wc_proxy_key c = key \<and> (\<exists>j. dial j = Some (wc_stream c, wc_established_at c))"
        "length ((q @ [?c]) @ new) < n \<longrightarrow> (\<exists>j. dial j = None)" by blast
      have "fill dial key n i q = q @ (?c # new)"
        using True Some st new(1) by (subst fill.simps) simp
      moreover have "length (q @ (?c # new)) \<le> max n (length q)" using new(2) True by simp
      moreover have "\<forall>c \<in> set (?c # new). wc_proxy_key c = key
          \<and> (\<exists>j. dial j = Some (wc_stream c, wc_established_at c))" using new(3) Some st by auto
      moreover have "length (q @ (?c # new)) < n \<longrightarrow> (\<exists>j. dial j = None)" using new(4) by simp
      ultimately show ?thesis by blast
    qed
  qed
qed

lemma fill_length: "length q \<le> n \<Longrightarrow> length (fill dial key n i q) \<le> n"
  using fill_spec [of dial key n i q] by auto

definition warm_bounded :: "nat \<Rightarrow> 's warm_pool \<Rightarrow> bool" where
  "warm_bounded n wp \<longleftrightarrow> wp_max_per_proxy wp = n \<and> (\<forall>(k, q) \<in> set (connections wp). length q \<le> n)"

lemma warm_bounded_put:
  assumes "warm_bounded n wp" "length q \<le> n"
  shows "warm_bounded n (wp\<lparr>connections := tbl_put k q (connections wp)\<rparr>)"
  using assms set_tbl_put_subset [of k q "connections wp"] by (auto simp: warm_bounded_def)

lemma warm_bounded_queue: "warm_bounded n wp \<Longrightarrow> length (queue wp k) \<le> n"
  by (auto simp: warm_bounded_def queue_def split: option.split dest!: tbl_get_in_set)

lemma warm_bounded_counters [simp]:
  "warm_bounded n (wp\<lparr>wp_hits := h\<rparr>) \<longleftrightarrow> warm_bounded n wp"
  "warm_bounded n (wp\<lparr>wp_misses := h\<rparr>) \<longleftrightarrow> warm_bounded n wp"
  by (simp_all add: warm_bounded_def)

lemma warm_bounded_refresh_one:
  assumes "warm_bounded n wp" shows "warm_bounded n (refresh_one dial now key wp)"
proof -
  have n: "wp_max_per_proxy wp = n" using assms by (simp add: warm_bounded_def)
  have "length (filter (\<lambda>c. inst now - wc_established_at c < wp_max_age wp) (queue wp key)) \<le> n"
    by (rule order_trans [OF length_filter_le warm_bounded_queue [OF assms]])
  from warm_bounded_put [OF assms fill_length [OF this]] n show ?thesis
    by (simp add: refresh_one_def queue_def Let_def)
qed

lemma warm_bounded_take:
  assumes "warm_bounded n wp" shows "warm_bounded n (snd (warm_take peek now key wp))"
proof -
  have "length (snd (take_loop peek now (wp_max_age wp) q)) \<le> length q" for q
    by (induction q) auto
  then have "length (snd (take_loop peek now (wp_max_age wp) (queue wp key))) \<le> n"
    using warm_bounded_queue [OF assms, of key] le_trans by blast
  from warm_bounded_put [OF assms this, of key] assms show ?thesis
    by (auto simp: warm_take_def queue_def Let_def split: option.split prod.split)
qed

lemma warm_bounded_refresh:
  assumes "warm_bounded n wp" shows "warm_bounded n (warm_refresh dial at tops wp)"
proof -
  let ?wp = "wp\<lparr>connections := tbl_retain (\<lambda>k _. k \<in> fst ` set tops) (connections wp)\<rparr>"
  have start: "warm_bounded n ?wp" using assms by (auto simp: warm_bounded_def tbl_retain_def)
  have "warm_bounded n (fold (\<lambda>(key, addr). refresh_one (dial addr) (at key) key) xs w)"
    if "warm_bounded n w" for xs and w :: "'a warm_pool"
    using that by (induction xs arbitrary: w) (auto simp: warm_bounded_refresh_one)
  from this [OF start] show ?thesis by (simp add: warm_refresh_def Let_def)
qed

datatype 's warm_op =
  WTake clock string
| WRefresh "string \<Rightarrow> nat \<Rightarrow> ('s \<times> nat) option" "string \<Rightarrow> clock" "(string \<times> string) list"

fun warm_apply :: "('s \<Rightarrow> recv_outcome) \<Rightarrow> 's warm_op \<Rightarrow> 's warm_pool \<Rightarrow> 's warm_pool" where
  "warm_apply peek (WTake now key) wp = snd (warm_take peek now key wp)"
| "warm_apply peek (WRefresh dial at tops) wp = warm_refresh dial at tops wp"

interpretation warm_ops: keeps "warm_bounded n" "warm_apply peek" for n and peek :: "'s \<Rightarrow> recv_outcome"
proof unfold_locales
  fix s :: "'s warm_pool" and x :: "'s warm_op"
  assume "warm_bounded n s"
  then show "warm_bounded n (warm_apply peek x s)"
    by (cases x) (simp_all add: warm_bounded_take warm_bounded_refresh)
qed

lemma tracked_refresh_fold:
  "fst ` set (connections (fold (\<lambda>(key, addr). refresh_one (dial addr) (at key) key) xs wp)) =
     fst ` set (connections wp) \<union> fst ` set xs"
proof (induction xs arbitrary: wp)
  case Nil
  then show ?case by simp
next
  case (Cons x xs)
  have "fst ` set (connections (refresh_one d c k wp)) = insert k (fst ` set (connections wp))" for d c k
    by (simp add: refresh_one_def Let_def tbl_put_def AList.dom_update)
  with Cons show ?case by (auto split: prod.split)
qed

section \<open>Properties\<close>

text \<open>
  A take returns the oldest connection that is both younger than the age limit and
  alive, if there is one, and drops exactly the connections in front of it.
\<close>

theorem warm_take_first_usable:
  "fst (warm_take peek now key wp) =
     map_option wc_stream
       (find (\<lambda>c. inst now - wc_established_at c < wp_max_age wp \<and> recv_alive (peek (wc_stream c)))
          (queue wp key))"
  using warm_take_eq [of peek now key wp] by (simp add: usable_def [abs_def])

text \<open>
  No warm connection is handed out twice, and every take is counted exactly once as a
  hit or as a miss.
\<close>

theorem warm_take_never_twice:
  assumes "distinct (map wc_stream (queue wp key))"
    and "checkout.draw (warm_take peek now) n key wp = (ss, wp')"
  shows "distinct ss \<and> set ss \<inter> set (map wc_stream (queue wp' key)) = {}
    \<and> wp_hits (snd (warm_take peek now k wp)) + wp_misses (snd (warm_take peek now k wp))
        = wp_hits wp + wp_misses wp + 1"
  using warm.draw_distinct [of wp key peek now n ss wp'] assms
  by (simp_all add: warm.streams_def warm_take_counts)

theorem warm_take_never_twice_witness:
  "distinct (fst (checkout.draw (warm_take (\<lambda>_. RecvLen 1) \<lparr>inst = 0, utc = 0\<rparr>) 2 ''k''
     (warm_refresh (\<lambda>a i. Some (i, 0)) (\<lambda>_. \<lparr>inst = 0, utc = 0\<rparr>) [(''k'', ''k'')] (warm_pool_new 2 5 45))))"
proof -
  let ?wp = "warm_refresh (\<lambda>a i. Some (i, 0)) (\<lambda>_. \<lparr>inst = 0, utc = 0\<rparr>) [(''k'', ''k'')] (warm_pool_new 2 5 45)"
  have "distinct (map wc_stream (queue ?wp ''k''))"
    by (simp add: warm_refresh_def warm_pool_new_def refresh_one_def queue_def fill.simps Let_def
        tbl_retain_def)
  from warm_take_never_twice [OF this, of "\<lambda>_. RecvLen 1" "\<lparr>inst = 0, utc = 0\<rparr>" 2
      "fst (checkout.draw (warm_take (\<lambda>_. RecvLen 1) \<lparr>inst = 0, utc = 0\<rparr>) 2 ''k'' ?wp)"
      "snd (checkout.draw (warm_take (\<lambda>_. RecvLen 1) \<lparr>inst = 0, utc = 0\<rparr>) 2 ''k'' ?wp)"]
  show ?thesis by simp
qed

text \<open>
  No proxy ever has more warm connections than the limit, and after a refresh only
  proxies of the refreshed list are tracked, among them all of its first ones up to the
  limit on proxies.
\<close>

theorem warm_pool_capped:
  "length (queue (fold (warm_apply peek) ops (warm_pool_new n m age)) key) \<le> n"
    and "fst ` set (connections (warm_refresh dial at tops wp)) \<subseteq> fst ` set tops"
    and "fst ` set (take (wp_max_proxies wp) tops) \<subseteq> fst ` set (connections (warm_refresh dial at tops wp))"
proof -
  have "warm_bounded n (warm_pool_new n m age)" by (simp add: warm_bounded_def warm_pool_new_def)
  from warm_bounded_queue [OF warm_ops.keeps_fold [OF this]]
  show "length (queue (fold (warm_apply peek) ops (warm_pool_new n m age)) key) \<le> n" .
  let ?c = "tbl_retain (\<lambda>k _. k \<in> fst ` set tops) (connections wp)"
  have eq: "fst ` set (connections (warm_refresh dial at tops wp)) =
      fst ` set ?c \<union> fst ` set (take (wp_max_proxies wp) tops)"
    unfolding warm_refresh_def Let_def tracked_refresh_fold by simp
  have "fst ` set ?c \<subseteq> fst ` set tops" by (auto simp: tbl_retain_def intro: rev_image_eqI)
  then show "fst ` set (connections (warm_refresh dial at tops wp)) \<subseteq> fst ` set tops"
    unfolding eq using set_take_subset [of "wp_max_proxies wp" tops] by blast
  show "fst ` set (take (wp_max_proxies wp) tops) \<subseteq> fst ` set (connections (warm_refresh dial at tops wp))"
    unfolding eq by simp
qed

end
