(* ===== verification/GeoIp.thy ===== *)
theory GeoIp
  imports Sticky
begin

text \<open>
  \<open>src/pool/geo_ip.rs\<close>: the country of an address, from a web service through a cache.
  The service is a parameter (what the request for an address answers, if it answers with
  a JSON object), and so is the presence of files.
\<close>

section \<open>Data\<close>

record geo_info =
  country_code :: "string option"
  country_name :: "string option"
  city :: "string option"

record api_response =
  ar_country :: "string option"
  ar_country_code :: "string option"
  ar_city :: "string option"

record geo_ip =
  db_path :: "string option"
  loaded :: bool
  cache :: "(ipaddr, geo_info) table"

definition show_geo_info :: "geo_info \<Rightarrow> string" where
  "show_geo_info i = (case country_code i of Some c \<Rightarrow> c | None \<Rightarrow> ''??'')"

definition geo_new :: geo_ip where
  "geo_new = \<lparr>db_path = None, loaded = False, cache = []\<rparr>"

definition with_db_path :: "string \<Rightarrow> geo_ip" where
  "with_db_path path = \<lparr>db_path = Some path, loaded = False, cache = []\<rparr>"

definition auto_detect_paths :: "string list" where
  "auto_detect_paths =
     [''data/GeoLite2-City.mmdb'', ''data/GeoLite2-Country.mmdb'',
      ''/app/data/GeoLite2-City.mmdb'', ''/app/data/GeoLite2-Country.mmdb'']"

definition with_auto_detect :: "(string \<Rightarrow> bool) \<Rightarrow> geo_ip" where
  "with_auto_detect exists_file =
     (case find exists_file auto_detect_paths of Some p \<Rightarrow> with_db_path p | None \<Rightarrow> geo_new)"

section \<open>Operations\<close>

definition geo_load :: "(string \<Rightarrow> bool) \<Rightarrow> geo_ip \<Rightarrow> geo_ip" where
  "geo_load exists_file g =
     (case db_path g of None \<Rightarrow> g
      | Some path \<Rightarrow> if exists_file path then g\<lparr>loaded := True\<rparr> else g)"

definition geo_lookup ::
  "(ipaddr \<Rightarrow> api_response option) \<Rightarrow> ipaddr \<Rightarrow> geo_ip \<Rightarrow> geo_info option \<times> geo_ip" where
  "geo_lookup fetch ip g =
     (case tbl_get (cache g) ip of
        Some info \<Rightarrow> (Some info, g)
      | None \<Rightarrow>
          (case fetch ip of
             Some data \<Rightarrow>
               (let info = \<lparr>country_code = ar_country_code data, country_name = ar_country data,
                            city = ar_city data\<rparr>
                in (Some info, g\<lparr>cache := tbl_put ip info (cache g)\<rparr>))
           | None \<Rightarrow> (None, g)))"

definition cache_size :: "geo_ip \<Rightarrow> nat" where
  "cache_size g = tbl_len (cache g)"

definition lookup_country ::
  "(ipaddr \<Rightarrow> api_response option) \<Rightarrow> ipaddr \<Rightarrow> geo_ip \<Rightarrow> string option \<times> geo_ip" where
  "lookup_country fetch ip g =
     (case geo_lookup fetch ip g of
        (Some info, g') \<Rightarrow> (country_code info, g') | (None, g') \<Rightarrow> (None, g'))"

text \<open>
  \<open>IpAddr::from_str\<close>: the parser of the standard library.  Numbers are read greedily; a
  group has at most four hexadecimal digits; an IPv4 address may stand for the last two
  groups; \<open>::\<close> stands for at least one group of zeros.
\<close>

definition hex_val :: "char \<Rightarrow> nat option" where
  "hex_val c =
     (let n = (of_char c :: nat) in
      if 48 \<le> n \<and> n \<le> 57 then Some (n - 48)
      else if 97 \<le> n \<and> n \<le> 102 then Some (n - 87)
      else if 65 \<le> n \<and> n \<le> 70 then Some (n - 55) else None)"

definition is_hex :: "char \<Rightarrow> bool" where
  "is_hex c \<longleftrightarrow> hex_val c \<noteq> None"

definition read_group :: "string \<Rightarrow> (nat \<times> string) option" where
  "read_group s =
     (let ds = takeWhile is_hex s in
      if ds = [] \<or> 4 < length ds then None
      else Some (foldl (\<lambda>a d. 16 * a + the (hex_val d)) 0 ds, dropWhile is_hex s))"

definition read_octet :: "string \<Rightarrow> (nat \<times> string) option" where
  "read_octet s =
     (let ds = takeWhile is_digit s in
      if octet_ok ds then Some (digits_val ds, dropWhile is_digit s) else None)"

definition read_char :: "char \<Rightarrow> string \<Rightarrow> string option" where
  "read_char c s = (case s of x # r \<Rightarrow> if x = c then Some r else None | [] \<Rightarrow> None)"

definition dot_octet :: "string \<Rightarrow> (nat \<times> string) option" where
  "dot_octet s = Option.bind (read_char (CHR ''.'') s) read_octet"

definition read_v4 :: "string \<Rightarrow> ((nat \<times> nat \<times> nat \<times> nat) \<times> string) option" where
  "read_v4 s =
     Option.bind (read_octet s) (\<lambda>(a, s).
     Option.bind (dot_octet s) (\<lambda>(b, s).
     Option.bind (dot_octet s) (\<lambda>(c, s).
     Option.bind (dot_octet s) (\<lambda>(d, s). Some ((a, b, c, d), s)))))"

text \<open>\<open>read_separator\<close>: a colon before every group but the first.\<close>

definition after_sep :: "nat \<Rightarrow> string \<Rightarrow> string option" where
  "after_sep i s = (if i = 0 then Some s else read_char (CHR '':'') s)"

function read_groups :: "nat \<Rightarrow> nat \<Rightarrow> nat list \<Rightarrow> string \<Rightarrow> nat list \<times> bool \<times> string" where
  "read_groups limit i acc s =
     (if i < limit then
        (case (if i < limit - 1 then Option.bind (after_sep i s) read_v4 else None) of
           Some ((a, b, c, d), s') \<Rightarrow> (acc @ [256 * a + b, 256 * c + d], True, s')
         | None \<Rightarrow>
             (case Option.bind (after_sep i s) read_group of
                Some (g, s') \<Rightarrow> read_groups limit (i + 1) (acc @ [g]) s'
              | None \<Rightarrow> (acc, False, s)))
      else (acc, False, s))"
  by pat_completeness auto
termination by (relation "measure (\<lambda>(limit, i, acc, s). limit - i)") auto

declare read_groups.simps [simp del]

definition groups_val :: "nat list \<Rightarrow> 128 word" where
  "groups_val gs = of_nat (foldl (\<lambda>a g. 65536 * a + g) 0 gs)"

definition read_v6 :: "string \<Rightarrow> (128 word \<times> string) option" where
  "read_v6 s =
     (case read_groups 8 0 [] s of
        (head, v4, r) \<Rightarrow>
          (if length head = 8 then Some (groups_val head, r)
           else if v4 then None
           else (case Option.bind (read_char (CHR '':'') r) (read_char (CHR '':'')) of
                   None \<Rightarrow> None
                 | Some r' \<Rightarrow>
                     (case read_groups (8 - (length head + 1)) 0 [] r' of
                        (back, _, r'') \<Rightarrow>
                          Some (groups_val (head @ replicate (8 - length head - length back) 0 @ back), r'')))))"

definition parse_ip :: "string \<Rightarrow> ipaddr option" where
  "parse_ip s =
     (case (case read_v4 s of
              Some ((a, b, c, d), r) \<Rightarrow> Some (V4 (of_nat (((a * 256 + b) * 256 + c) * 256 + d)), r)
            | None \<Rightarrow> map_option (\<lambda>(w, r). (V6 w, r)) (read_v6 s)) of
        Some (ip, []) \<Rightarrow> Some ip | _ \<Rightarrow> None)"

definition lookup_str ::
  "(ipaddr \<Rightarrow> api_response option) \<Rightarrow> string \<Rightarrow> geo_ip \<Rightarrow> geo_info option \<times> geo_ip" where
  "lookup_str fetch s g =
     (case parse_ip s of Some ip \<Rightarrow> geo_lookup fetch ip g | None \<Rightarrow> (None, g))"

definition is_loaded :: "geo_ip \<Rightarrow> bool" where
  "is_loaded g = True"

definition geo_reload :: "(string \<Rightarrow> bool) \<Rightarrow> geo_ip \<Rightarrow> geo_ip" where
  "geo_reload = geo_load"

section \<open>The cache\<close>

text \<open>A cached answer is final: no later answer of the service is looked at.\<close>

lemma geo_lookup_cached:
  "tbl_get (cache g) ip = Some info \<Longrightarrow> geo_lookup fetch ip g = (Some info, g)"
  by (simp add: geo_lookup_def)

lemma geo_lookup_fills:
  "geo_lookup fetch ip g = (Some info, g') \<Longrightarrow> tbl_get (cache g') ip = Some info"
  by (auto simp: geo_lookup_def Let_def split: option.splits)

lemma geo_lookup_grows:
  "geo_lookup fetch ip g = (r, g') \<Longrightarrow> tbl_get (cache g) ip' = Some info
     \<Longrightarrow> tbl_get (cache g') ip' = Some info"
  by (auto simp: geo_lookup_def Let_def split: option.splits)

text \<open>Looking up a batch of addresses, each with what the service answers at that moment.\<close>

fun lookup_all ::
  "((ipaddr \<Rightarrow> api_response option) \<times> ipaddr) list \<Rightarrow> geo_ip \<Rightarrow> geo_ip" where
  "lookup_all [] g = g"
| "lookup_all ((fetch, ip) # qs) g = lookup_all qs (snd (geo_lookup fetch ip g))"

lemma lookup_all_grows:
  "tbl_get (cache g) ip = Some info \<Longrightarrow> tbl_get (cache (lookup_all qs g)) ip = Some info"
  by (induction qs g rule: lookup_all.induct) (auto intro: geo_lookup_grows surjective_pairing)

lemma geo_answers_agree:
  assumes "geo_lookup fetch ip g = (Some info, g')"
  shows "fst (geo_lookup fetch' ip (lookup_all qs g')) = Some info"
  using geo_lookup_cached [OF lookup_all_grows [OF geo_lookup_fills [OF assms]]] by simp

end
