(* ===== verification/TopN.thy ===== *)
theory TopN
  imports F64 "HOL-Library.Multiset"
begin

text \<open>
  The single-pass selection of the N entries with the lowest score, the loop that
  \<open>collect_top_n\<close> and \<open>collect_top_n_sized\<close> of \<open>src/pool/state.rs\<close> share, and its
  refinement of the specification "sort, then take N".  Entries are pairs of a score and a
  payload; scores are doubles, compared as the code compares them.
\<close>

section \<open>The loop\<close>

text \<open>\<open>iter().map(|(s, _)| *s).fold(f64::MIN, f64::max)\<close>\<close>

definition worst_of :: "(f64 \<times> 'a) list \<Rightarrow> f64" where
  "worst_of kept = foldl f_max f_min_val (map fst kept)"

text \<open>
  \<open>Iterator::max_by\<close> keeps the later of two elements unless the earlier is greater:
  \<open>m\<close> is the greatest so far, \<open>i\<close> its index, \<open>j\<close> the index of the next element.
\<close>

fun last_max :: "f64 \<Rightarrow> nat \<Rightarrow> nat \<Rightarrow> f64 list \<Rightarrow> nat" where
  "last_max m i j [] = i"
| "last_max m i j (x # xs) =
     (if f_cmp m x = 1 then last_max m i (Suc j) xs else last_max x j (Suc j) xs)"

fun max_index :: "f64 list \<Rightarrow> nat option" where
  "max_index [] = None"
| "max_index (x # xs) = Some (last_max x 0 1 xs)"

text \<open>One iteration on an entry that passed the filter.\<close>

definition top_step ::
  "nat \<Rightarrow> f64 \<times> 'a \<Rightarrow> (f64 \<times> 'a) list \<times> f64 \<Rightarrow> (f64 \<times> 'a) list \<times> f64" where
  "top_step n e acc =
     (case acc of (kept, worst) \<Rightarrow>
       if length kept < n then
         (let kept = kept @ [e] in (kept, if length kept = n then worst_of kept else worst))
       else if f_lt (fst e) worst then
         (case max_index (map fst kept) of
            Some i \<Rightarrow> (let kept = kept[i := e] in (kept, worst_of kept))
          | None \<Rightarrow> (kept, worst))
       else (kept, worst))"

definition top_n :: "nat \<Rightarrow> (f64 \<times> 'a) list \<Rightarrow> (f64 \<times> 'a) list" where
  "top_n n es = fst (fold (top_step n) es ([], f_max_val))"

section \<open>Maxima\<close>

text \<open>The scores of the program are numbers in the range of a double.\<close>

definition numbers :: "(f64 \<times> 'a) list \<Rightarrow> bool" where
  "numbers es \<longleftrightarrow> (\<forall>e \<in> set es. fst e \<noteq> NaN \<and> f_min_val \<le> fst e)"

lemma numbers_simps [simp]:
  "numbers []" "numbers (e # es) \<longleftrightarrow> fst e \<noteq> NaN \<and> f_min_val \<le> fst e \<and> numbers es"
  "numbers (es @ es') \<longleftrightarrow> numbers es \<and> numbers es'"
  by (auto simp: numbers_def)

lemma numbers_no_NaN: "numbers es \<Longrightarrow> NaN \<notin> set (map fst es)"
  by (auto simp: numbers_def)

lemma foldl_f_max:
  assumes "a \<noteq> NaN" "NaN \<notin> set xs"
  shows "foldl f_max a xs = Max (set (a # xs))"
  using assms
proof (induction xs arbitrary: a)
  case Nil
  then show ?case by simp
next
  case (Cons x xs)
  have x: "x \<noteq> NaN" using Cons.prems(2) by force
  with Cons.prems have "max a x \<noteq> NaN" by (simp add: max_def)
  with Cons have "foldl f_max (max a x) xs = Max (set (max a x # xs))" by simp
  moreover have "f_max a x = max a x" using Cons.prems x by (simp add: f_max_def)
  moreover have "Max (set (max a x # xs)) = Max (set (a # x # xs))"
    by (cases "xs = []") (simp_all add: ac_simps)
  ultimately show ?case by (simp del: list.set)
qed

lemma worst_of_Max: "numbers es \<Longrightarrow> worst_of es = Max (insert f_min_val (fst ` set es))"
  unfolding worst_of_def using foldl_f_max [of f_min_val, OF _ numbers_no_NaN] by simp

lemma worst_of_ge: "numbers es \<Longrightarrow> e \<in> set es \<Longrightarrow> fst e \<le> worst_of es"
  by (simp add: worst_of_Max)

lemma worst_of_not_NaN: "numbers es \<Longrightarrow> worst_of es \<noteq> NaN"
proof -
  assume n: "numbers es"
  have "Max (insert f_min_val (fst ` set es)) \<in> insert f_min_val (fst ` set es)"
    by (rule Max_in) auto
  with n show ?thesis by (auto simp: worst_of_Max numbers_def)
qed

lemma worst_of_le:
  assumes "numbers es" "es \<noteq> []" "\<forall>e \<in> set es. fst e \<le> a" shows "worst_of es \<le> a"
proof -
  from assms(2) obtain e where "e \<in> set es" by (cases es) auto
  with assms have "f_min_val \<le> a" by (auto simp: numbers_def intro: order_trans)
  with assms show ?thesis by (simp add: worst_of_Max)
qed

lemma last_max_spec:
  assumes "NaN \<notin> set ys" "i < length ys" "j = length ys" "\<forall>y \<in> set ys. y \<le> ys ! i" "NaN \<notin> set xs"
  shows "last_max (ys ! i) i j xs < length (ys @ xs)
    \<and> (\<forall>y \<in> set (ys @ xs). y \<le> (ys @ xs) ! last_max (ys ! i) i j xs)"
  using assms
proof (induction xs arbitrary: ys i j)
  case Nil
  then show ?case by simp
next
  case (Cons x xs)
  have n: "x \<noteq> NaN" using Cons.prems(5) by force
  have n': "ys ! i \<noteq> NaN" using Cons.prems(1,2) nth_mem by metis
  note n = n n'
  show ?case
  proof (cases "x < ys ! i")
    case True
    with n have "f_cmp (ys ! i) x = 1" by (auto simp: f_cmp_def f_lt_def)
    moreover have "(ys @ [x]) ! i = ys ! i" using Cons.prems by (simp add: nth_append)
    ultimately show ?thesis
      using Cons.IH [of "ys @ [x]" i "Suc j"] Cons.prems True n by auto
  next
    case False
    with n have "f_cmp (ys ! i) x \<noteq> 1" by (auto simp: f_cmp_def f_lt_def)
    moreover have "\<forall>y \<in> set (ys @ [x]). y \<le> x"
      using False Cons.prems(4) by (auto simp: not_less intro: order_trans)
    moreover have "(ys @ [x]) ! j = x" using Cons.prems by simp
    ultimately show ?thesis
      using Cons.IH [of "ys @ [x]" j "Suc j"] Cons.prems n by auto
  qed
qed

lemma max_index_spec:
  assumes "NaN \<notin> set xs" "max_index xs = Some i"
  shows "i < length xs \<and> (\<forall>x \<in> set xs. x \<le> xs ! i)"
proof (cases xs)
  case (Cons x ys)
  with assms last_max_spec [of "[x]" 0 1 ys] show ?thesis by simp
qed (use assms in simp)

lemma max_index_None [simp]: "max_index xs = None \<longleftrightarrow> xs = []"
  by (cases xs) auto

section \<open>The loop keeps the lowest scores\<close>

definition separated :: "(f64 \<times> 'a) list \<Rightarrow> (f64 \<times> 'a) list \<Rightarrow> bool" where
  "separated kept rest \<longleftrightarrow> (\<forall>t \<in> set kept. \<forall>r \<in> set rest. fst t \<le> fst r)"

definition top_inv :: "nat \<Rightarrow> (f64 \<times> 'a) list \<Rightarrow> (f64 \<times> 'a) list \<times> f64 \<Rightarrow> bool" where
  "top_inv n seen acc \<longleftrightarrow>
     (\<exists>rest. mset (fst acc) + mset rest = mset seen \<and> length (fst acc) \<le> n
        \<and> (length (fst acc) < n \<longrightarrow> rest = [])
        \<and> (length (fst acc) = n \<and> 0 < n \<longrightarrow> snd acc = worst_of (fst acc))
        \<and> separated (fst acc) rest)"

lemma numbers_parts:
  assumes "mset kept + mset rest = mset seen" "numbers seen"
  shows "numbers kept" "numbers rest"
proof -
  have "set kept \<union> set rest = set seen" using assms(1) by (metis set_mset_mset set_mset_union)
  with assms(2) show "numbers kept" "numbers rest" by (auto simp: numbers_def)
qed

text \<open>Replacing a greatest entry of \<open>kept\<close> by a smaller one moves it to the rest.\<close>

lemma top_replace:
  assumes num: "numbers kept" and i: "max_index (map fst kept) = Some i"
    and lt: "fst e < worst_of kept" and sep: "separated kept rest"
  shows "separated (kept[i := e]) (kept ! i # rest)"
    and "mset (kept[i := e]) + mset (kept ! i # rest) = add_mset e (mset kept + mset rest)"
proof -
  have il: "i < length kept" and im: "\<forall>t \<in> set kept. fst t \<le> fst (kept ! i)"
    using max_index_spec [OF numbers_no_NaN [OF num] i] by auto
  from il show "mset (kept[i := e]) + mset (kept ! i # rest) = add_mset e (mset kept + mset rest)"
    by (simp add: mset_update insert_DiffM)
  have "worst_of kept \<le> fst (kept ! i)" using worst_of_le [OF num _ im] il by (cases kept) auto
  with lt have "fst e \<le> fst (kept ! i)" by simp
  moreover have "fst (kept ! i) \<le> fst r" if "r \<in> set rest" for r
    using that sep il by (auto simp: separated_def)
  ultimately have low: "fst e \<le> fst r" if "r \<in> set (kept ! i # rest)" for r
    using that order_trans by (metis set_ConsD)
  show "separated (kept[i := e]) (kept ! i # rest)"
    unfolding separated_def
  proof (intro ballI)
    fix t r assume t: "t \<in> set (kept[i := e])" and r: "r \<in> set (kept ! i # rest)"
    from t have "t = e \<or> t \<in> set kept" using set_update_subset_insert [of kept i e] by auto
    then show "fst t \<le> fst r" using low [OF r] r sep im by (auto simp: separated_def)
  qed
qed

lemma top_inv_step:
  assumes inv: "top_inv n seen acc" and num: "numbers (seen @ [e])"
  shows "top_inv n (seen @ [e]) (top_step n e acc)"
proof -
  obtain kept worst where acc: "acc = (kept, worst)" by fastforce
  from inv obtain rest where r: "mset kept + mset rest = mset seen" "length kept \<le> n"
    "length kept < n \<longrightarrow> rest = []" "length kept = n \<and> 0 < n \<longrightarrow> worst = worst_of kept"
    "separated kept rest" by (auto simp: top_inv_def acc)
  from num have n: "numbers kept" using numbers_parts(1) [OF r(1)] by simp
  consider "length kept < n" | "length kept = n" "kept \<noteq> []" "f_lt (fst e) worst"
    | "length kept = n" "\<not> (kept \<noteq> [] \<and> f_lt (fst e) worst)" using r(2) by fastforce
  then show ?thesis
  proof cases
    case 1
    with r have "rest = []" by simp
    with 1 r(1) show ?thesis by (auto simp: top_inv_def top_step_def acc Let_def separated_def)
  next
    case 2
    then obtain i where i: "max_index (map fst kept) = Some i" by (cases "max_index (map fst kept)") auto
    from 2 r(4) have lt: "fst e < worst_of kept" by (auto simp: f_lt_def)
    have "top_step n e acc = (kept[i := e], worst_of (kept[i := e]))"
      using 2 i by (simp add: top_step_def acc Let_def)
    with top_replace [OF n i lt r(5)] 2 r(1) show ?thesis
      by (auto simp: top_inv_def intro!: exI [of _ "kept ! i # rest"])
  next
    case 3
    then have same: "top_step n e acc = (kept, worst)" by (auto simp: top_step_def acc)
    have "fst t \<le> fst e" if t: "t \<in> set kept" for t
    proof -
      from t 3 r(4) have w: "worst = worst_of kept" by (cases n) auto
      with 3 t num worst_of_not_NaN [OF n] have "worst_of kept \<le> fst e"
        by (auto simp: f_lt_def not_less)
      with worst_of_ge [OF n t] show ?thesis by simp
    qed
    with r 3 show ?thesis unfolding same top_inv_def
      by (intro exI [of _ "e # rest"]) (auto simp: separated_def)
  qed
qed

lemma top_inv_fold:
  "numbers (seen @ es) \<Longrightarrow> top_inv n seen acc \<Longrightarrow> top_inv n (seen @ es) (fold (top_step n) es acc)"
proof (induction es arbitrary: seen acc)
  case Nil
  then show ?case by simp
next
  case (Cons e es)
  then have "top_inv n (seen @ [e]) (top_step n e acc)" by (intro top_inv_step) auto
  with Cons.IH [of "seen @ [e]"] Cons.prems show ?case by simp
qed

text \<open>The selection drops only entries with a score at least that of every kept one.\<close>

lemma top_n_optimal:
  assumes "numbers es"
  obtains rest where "mset (top_n n es) + mset rest = mset es" "separated (top_n n es) rest"
    "length (top_n n es) = min n (length es)"
proof -
  have "top_inv n [] ([] :: (f64 \<times> 'a) list, f_max_val)"
    by (auto simp: top_inv_def separated_def)
  from top_inv_fold [OF _ this, of es] assms obtain rest where
    r: "mset (top_n n es) + mset rest = mset es" "length (top_n n es) \<le> n"
    "length (top_n n es) < n \<longrightarrow> rest = []" "separated (top_n n es) rest"
    by (auto simp: top_inv_def top_n_def)
  have "length (top_n n es) + length rest = length es" using r(1) by (metis size_mset size_union)
  with r that show thesis by (cases "length (top_n n es) < n") auto
qed

text \<open>Refinement: the scores kept are the first N of the sorted scores.\<close>

lemma top_n_refines_sort:
  assumes "numbers es"
  shows "sort (map fst (top_n n es)) = take n (sort (map fst es))"
proof -
  from top_n_optimal [OF assms, of n] obtain rest where r: "mset (top_n n es) + mset rest = mset es"
    "separated (top_n n es) rest" "length (top_n n es) = min n (length es)" by blast
  let ?a = "sort (map fst (top_n n es))" and ?b = "sort (map fst rest)"
  have "mset (?a @ ?b) = image_mset fst (mset es)" unfolding r(1) [symmetric] by simp
  moreover have "sorted (?a @ ?b)" using r(2) by (auto simp: sorted_append separated_def)
  ultimately have s: "sort (map fst es) = ?a @ ?b" by (intro properties_for_sort) simp_all
  have "length ?a + length ?b = length es" using r(1) by (metis length_map length_sort size_mset size_union)
  then show ?thesis unfolding s using r(3) by (cases "n \<le> length es") auto
qed

text \<open>Fewer than N entries score below any entry that was kept.\<close>

lemma top_n_rank:
  assumes "numbers es" "e \<in> set (top_n n es)"
  shows "length (filter (\<lambda>x. fst x < fst e) es) < n"
proof -
  let ?Q = "\<lambda>x. fst x < fst e"
  from top_n_optimal [OF assms(1), of n] obtain rest where r: "mset (top_n n es) + mset rest = mset es"
    "separated (top_n n es) rest" "length (top_n n es) = min n (length es)" by blast
  have "filter ?Q rest = []"
    using r(2) assms(2) by (fastforce simp: separated_def filter_empty_conv not_less)
  then have "mset (filter ?Q es) = mset (filter ?Q (top_n n es))"
    by (simp only: mset_filter r(1) [symmetric] filter_union_mset) (simp flip: mset_filter)
  then have "length (filter ?Q es) = length (filter ?Q (top_n n es))" by (metis size_mset)
  also have "\<dots> < length (top_n n es)" using assms(2) by (intro length_filter_less) auto
  finally show ?thesis using r(3) by simp
qed

lemma set_top_n: "numbers es \<Longrightarrow> set (top_n n es) \<subseteq> set es"
proof -
  assume "numbers es"
  from top_n_optimal [OF this, of n] obtain rest where "mset (top_n n es) + mset rest = mset es" by blast
  then show ?thesis by (metis set_mset_mset set_mset_union sup_ge1)
qed

text \<open>Without any assumption on the scores, the loop returns entries it was given.\<close>

lemma top_step_sound:
  "set (fst (top_step n e acc)) \<subseteq> insert e (set (fst acc))"
  "fst acc \<noteq> [] \<Longrightarrow> fst (top_step n e acc) \<noteq> []"
  "0 < n \<Longrightarrow> fst (top_step n e acc) \<noteq> []"
  by (auto simp: top_step_def Let_def dest: set_update_subset_insert [THEN subsetD]
      split: prod.splits option.splits)

lemma top_n_sound: "set (top_n n es) \<subseteq> set es"
proof -
  have "set (fst (fold (top_step n) es acc)) \<subseteq> set es \<union> set (fst acc)" for acc
  proof (induction es arbitrary: acc)
    case (Cons e es)
    from Cons [of "top_step n e acc"] top_step_sound(1) [of n e acc] show ?case by auto
  qed simp
  from this [of "([], f_max_val)"] show ?thesis by (simp add: top_n_def)
qed

lemma top_n_empty: "0 < n \<Longrightarrow> top_n n es = [] \<longleftrightarrow> es = []"
proof -
  assume n: "0 < n"
  have keep: "fst acc \<noteq> [] \<Longrightarrow> fst (fold (top_step n) es acc) \<noteq> []" for acc and es :: "(f64 \<times> 'a) list"
    by (induction es arbitrary: acc) (auto simp: top_step_sound(2))
  show ?thesis
  proof (cases es)
    case (Cons e es')
    with keep [OF top_step_sound(3) [OF n]] show ?thesis by (simp add: top_n_def)
  qed (simp add: top_n_def)
qed

end
