(* ===== verification/State.thy ===== *)
theory State
  imports Proxy Sticky ConnPool WarmPool GeoIp TopN
begin

text \<open>
  \<open>src/pool/state.rs\<close>: the shared state of the gateway, the selection of an upstream proxy,
  the mutations of the pool and the choice of what to check next.  One operation reads its
  clock once.  The draw from \<open>rand\<close>'s \<open>WeightedIndex\<close> is a parameter.
\<close>

section \<open>The index by country\<close>

type_synonym geo_index = "(string, string list) table"

definition geo_insert :: "string \<Rightarrow> string \<Rightarrow> geo_index \<Rightarrow> geo_index" where
  "geo_insert c key ix =
     (let entry = (case tbl_get ix c of Some ks \<Rightarrow> ks | None \<Rightarrow> [])
      in tbl_put c (if key \<in> set entry then entry else entry @ [key]) ix)"

definition geo_remove :: "string \<Rightarrow> string \<Rightarrow> geo_index \<Rightarrow> geo_index" where
  "geo_remove c key ix = tbl_modify c (filter (\<lambda>k. k \<noteq> key)) ix"

definition get_keys :: "string \<Rightarrow> geo_index \<Rightarrow> string list" where
  "get_keys c ix = (case tbl_get ix c of Some ks \<Rightarrow> ks | None \<Rightarrow> [])"

definition geo_rebuild :: "(string, proxy) table \<Rightarrow> geo_index" where
  "geo_rebuild ps =
     fold (\<lambda>(k, p) ix. case country p of Some c \<Rightarrow> geo_insert c k ix | None \<Rightarrow> ix) ps []"

definition country_count :: "geo_index \<Rightarrow> nat" where
  "country_count ix = tbl_len ix"

section \<open>The state\<close>

text \<open>
  \<open>first_ready\<close> counts the calls of \<open>notify_waiters\<close>; \<open>exclude_countries\<close> is \<open>None\<close> when its
  lock is poisoned; \<open>'s\<close> is the type of TCP streams.
\<close>

record 's shared_state =
  proxies :: "(string, proxy) table"
  banned :: "(string, proxy) table"
  first_ready :: nat
  total_requests :: u64
  active_connections :: u64
  proxy_rotations :: u64
  connection_pool :: "'s connection_pool"
  sticky_sessions :: sticky_manager
  geoip :: geo_ip
  max_proxies :: nat
  geo_index :: geo_index
  exclude_countries :: "string list option"
  warm_pool :: "'s warm_pool"

definition state_new :: "'s shared_state" where
  "state_new =
     \<lparr>proxies = [], banned = [], first_ready = 0, total_requests = 0, active_connections = 0,
      proxy_rotations = 0, connection_pool = conn_pool_new, sticky_sessions = sticky_new,
      geoip = geo_new, max_proxies = 5000, geo_index = [], exclude_countries = Some [],
      warm_pool = warm_pool_new 2 5 45\<rparr>"

definition with_config ::
  "string option \<Rightarrow> u64 \<Rightarrow> nat \<Rightarrow> string list \<Rightarrow> nat \<Rightarrow> nat \<Rightarrow> nat \<Rightarrow> 's shared_state" where
  "with_config geoip_path ttl maxp excl wp_per wp_prox wp_age =
     \<lparr>proxies = [], banned = [], first_ready = 0, total_requests = 0, active_connections = 0,
      proxy_rotations = 0, connection_pool = conn_pool_new, sticky_sessions = sticky_with_ttl ttl,
      geoip = (case geoip_path of Some path \<Rightarrow> with_db_path path | None \<Rightarrow> geo_new),
      max_proxies = maxp, geo_index = [], exclude_countries = Some excl,
      warm_pool = warm_pool_new wp_per wp_prox wp_age\<rparr>"

section \<open>Selection\<close>

definition excluded :: "'s shared_state \<Rightarrow> string list" where
  "excluded st = (case exclude_countries st of Some cs \<Rightarrow> cs | None \<Rightarrow> [])"

definition country_excluded :: "string list \<Rightarrow> proxy \<Rightarrow> bool" where
  "country_excluded ex p = list_ex (\<lambda>c. case country p of Some pc \<Rightarrow> pc = c | None \<Rightarrow> False) ex"

definition scored :: "clock \<Rightarrow> (proxy \<Rightarrow> bool) \<Rightarrow> 's shared_state \<Rightarrow> (f64 \<times> proxy) list" where
  "scored now P st = map (\<lambda>p. (score now p, p)) (filter P (tbl_vals (proxies st)))"

definition collect_top_n :: "clock \<Rightarrow> (proxy \<Rightarrow> bool) \<Rightarrow> 's shared_state \<Rightarrow> proxy list" where
  "collect_top_n now P st = map snd (top_n 10 (scored now P st))"

text \<open>
  \<open>sort_by(partial_cmp)\<close> is a stable sort by the order of the numbers (no score is \<open>NaN\<close>).
\<close>

definition collect_top_n_sized ::
  "clock \<Rightarrow> nat \<Rightarrow> (proxy \<Rightarrow> bool) \<Rightarrow> 's shared_state \<Rightarrow> proxy list" where
  "collect_top_n_sized now n P st = map snd (sort_key fst (top_n n (scored now P st)))"

text \<open>
  The draw: what building a \<open>WeightedIndex\<close> from the weights and sampling it gives;
  \<open>None\<close> is the construction error.
\<close>

type_synonym sampler = "f64 list \<Rightarrow> nat option"

definition select_weights :: "clock \<Rightarrow> proxy list \<Rightarrow> f64 list" where
  "select_weights now cs =
     (let max_score = foldl f_max f_min_val (map (score now) cs)
      in map (\<lambda>p. f_add (f_sub max_score (score now p)) (Fin 1)) cs)"

definition index_proxy :: "proxy list \<Rightarrow> nat \<Rightarrow> proxy comp" where
  "index_proxy cs i = (if i < length cs then Ret (cs ! i) else Panic)"

definition weighted_random_select :: "sampler \<Rightarrow> clock \<Rightarrow> proxy list \<Rightarrow> proxy comp" where
  "weighted_random_select rng now cs =
     (if length cs = 1 then index_proxy cs 0
      else case rng (select_weights now cs) of
             Some idx \<Rightarrow> index_proxy cs idx
           | None \<Rightarrow> index_proxy cs 0)"

definition select_some :: "sampler \<Rightarrow> clock \<Rightarrow> proxy list \<Rightarrow> proxy option comp" where
  "select_some rng now cs = comp_bind (weighted_random_select rng now cs) (\<lambda>p. Ret (Some p))"

definition select_best :: "sampler \<Rightarrow> clock \<Rightarrow> 's shared_state \<Rightarrow> proxy option comp" where
  "select_best rng now st =
     (let ex = excluded st;
          verified = collect_top_n now
            (\<lambda>p. is_available now p \<and> status p = Some Verified \<and> \<not> country_excluded ex p) st;
          presumed = collect_top_n now
            (\<lambda>p. is_available now p \<and> status p = Some PresumedAlive \<and> \<not> country_excluded ex p) st
      in if verified \<noteq> [] then select_some rng now verified
         else if presumed \<noteq> [] then select_some rng now presumed
         else Ret (find (\<lambda>p. status p = Some Unchecked \<or> status p = None)
                    (filter (\<lambda>p. is_available now p \<and> \<not> country_excluded ex p)
                      (tbl_vals (proxies st)))))"

definition select_best_by_country ::
  "sampler \<Rightarrow> clock \<Rightarrow> string \<Rightarrow> 's shared_state \<Rightarrow> proxy option comp" where
  "select_best_by_country rng now c st =
     (let keys = get_keys c (geo_index st);
          candidates = filter (\<lambda>p. is_available now p \<and> status p = Some Verified)
                         (List.map_filter (tbl_get (proxies st)) keys)
      in if keys = [] then Ret None
         else if candidates = [] then Ret None
         else select_some rng now (take 10 (sort_key (score now) candidates)))"

definition select_best_for_tls :: "sampler \<Rightarrow> clock \<Rightarrow> 's shared_state \<Rightarrow> proxy option comp" where
  "select_best_for_tls rng now st =
     (let ex = excluded st;
          verified = collect_top_n now
            (\<lambda>p. is_available now p \<and> status p = Some Verified \<and> tls_clean p = Some True
                 \<and> \<not> country_excluded ex p) st;
          presumed = collect_top_n now
            (\<lambda>p. is_available now p \<and> status p = Some PresumedAlive \<and> tls_clean p = Some True
                 \<and> \<not> country_excluded ex p) st
      in if verified \<noteq> [] then select_some rng now verified
         else if presumed \<noteq> [] then select_some rng now presumed
         else select_best rng now st)"

definition top_stable_proxies :: "clock \<Rightarrow> nat \<Rightarrow> 's shared_state \<Rightarrow> (string \<times> string) list" where
  "top_stable_proxies now n st =
     (let ex = excluded st in
      map (\<lambda>p. (proxy_key p, proxy_addr p))
        (collect_top_n_sized now n
          (\<lambda>p. is_available now p \<and> status p = Some Verified \<and> \<not> country_excluded ex p) st))"

section \<open>Counts\<close>

definition count_where :: "(proxy \<Rightarrow> bool) \<Rightarrow> 's shared_state \<Rightarrow> nat" where
  "count_where P st = length (filter P (tbl_vals (proxies st)))"

definition total_count :: "'s shared_state \<Rightarrow> nat" where
  "total_count st = tbl_len (proxies st)"

definition verified_count :: "'s shared_state \<Rightarrow> nat" where
  "verified_count st = count_where (\<lambda>p. status p = Some Verified) st"

definition available_count :: "clock \<Rightarrow> 's shared_state \<Rightarrow> nat" where
  "available_count now st = count_where (is_available now) st"

definition state_is_empty :: "clock \<Rightarrow> 's shared_state \<Rightarrow> bool" where
  "state_is_empty now st \<longleftrightarrow> available_count now st = 0"

definition tls_clean_count :: "'s shared_state \<Rightarrow> nat" where
  "tls_clean_count st = count_where (\<lambda>p. tls_clean p = Some True) st"

definition tls_dirty_count :: "'s shared_state \<Rightarrow> nat" where
  "tls_dirty_count st = count_where (\<lambda>p. tls_clean p = Some False) st"

section \<open>Mutations\<close>

definition update_geo_index :: "string \<Rightarrow> string \<Rightarrow> 's shared_state \<Rightarrow> 's shared_state" where
  "update_geo_index key c st = st\<lparr>geo_index := geo_insert c key (geo_index st)\<rparr>"

definition rebuild_geo_index :: "'s shared_state \<Rightarrow> 's shared_state" where
  "rebuild_geo_index st = st\<lparr>geo_index := geo_rebuild (proxies st)\<rparr>"

definition add_verified :: "proxy \<Rightarrow> 's shared_state \<Rightarrow> 's shared_state" where
  "add_verified p st =
     (let p = p\<lparr>status := Some Verified\<rparr>;
          was_empty = (verified_count st = 0);
          st = st\<lparr>proxies := tbl_put (proxy_key p) p (proxies st)\<rparr>
      in if was_empty \<and> 0 < verified_count st then st\<lparr>first_ready := first_ready st + 1\<rparr> else st)"

definition state_success :: "string \<Rightarrow> f64 \<Rightarrow> clock \<Rightarrow> 's shared_state \<Rightarrow> 's shared_state" where
  "state_success key l now st =
     st\<lparr>proxies := tbl_modify key (Proxy.record_success l now) (proxies st)\<rparr>"

definition state_fail :: "string \<Rightarrow> clock \<Rightarrow> 's shared_state \<Rightarrow> 's shared_state" where
  "state_fail key now st =
     st\<lparr>proxies := tbl_modify key (Proxy.record_fail now) (proxies st),
        proxy_rotations := proxy_rotations st + 1\<rparr>"

definition set_tls_clean :: "string \<Rightarrow> bool \<Rightarrow> 's shared_state \<Rightarrow> 's shared_state" where
  "set_tls_clean key clean st =
     st\<lparr>proxies := tbl_modify key (\<lambda>p. p\<lparr>tls_clean := Some clean\<rparr>) (proxies st)\<rparr>"

definition insert_if_absent :: "proxy \<Rightarrow> 's shared_state \<Rightarrow> bool \<times> 's shared_state" where
  "insert_if_absent p st =
     (if 0 < max_proxies st \<and> max_proxies st \<le> tbl_len (proxies st) then (False, st)
      else if tbl_has (proxies st) (proxy_key p) then (False, st)
      else (True, st\<lparr>proxies := tbl_put (proxy_key p) p (proxies st)\<rparr>))"

definition not_stale :: "clock \<Rightarrow> proxy \<Rightarrow> bool" where
  "not_stale now p =
     (if 0 < success_count p then True
      else case last_check p of
             Some checked \<Rightarrow> num_hours (utc now - checked) < 24
           | None \<Rightarrow> True)"

definition cleanup_stale :: "clock \<Rightarrow> 's shared_state \<Rightarrow> 's shared_state" where
  "cleanup_stale now st = st\<lparr>proxies := tbl_retain (\<lambda>_. not_stale now) (proxies st)\<rparr>"

definition all_proxies :: "'s shared_state \<Rightarrow> proxy list" where
  "all_proxies st = tbl_vals (proxies st)"

section \<open>What to check next\<close>

definition needs_check :: "clock \<Rightarrow> proxy \<Rightarrow> bool" where
  "needs_check now p =
     (case status p of
        None \<Rightarrow> True
      | Some Unchecked \<Rightarrow> True
      | Some PresumedAlive \<Rightarrow> True
      | Some Verified \<Rightarrow>
          (case last_check p of Some t \<Rightarrow> 60 < num_seconds (utc now - t) | None \<Rightarrow> False)
      | Some Failed \<Rightarrow> is_available now p)"

definition check_rank :: "proxy \<Rightarrow> nat" where
  "check_rank p =
     (case status p of None \<Rightarrow> 0 | Some Unchecked \<Rightarrow> 0 | Some PresumedAlive \<Rightarrow> 1
      | Some Verified \<Rightarrow> 2 | Some Failed \<Rightarrow> 3)"

definition proxies_needing_check :: "clock \<Rightarrow> nat \<Rightarrow> 's shared_state \<Rightarrow> proxy list" where
  "proxies_needing_check now limit st =
     take limit (sort_key check_rank (filter (needs_check now) (tbl_vals (proxies st))))"

section \<open>Well-formed pools\<close>

text \<open>
  A table of proxies is well keyed when every entry stands under the key of its proxy,
  once, and every proxy has a finite score.
\<close>

definition well_keyed :: "(string, proxy) table \<Rightarrow> bool" where
  "well_keyed m \<longleftrightarrow> keys_ok m \<and> (\<forall>(k, p) \<in> set m. k = proxy_key p \<and> score_ok p)"

definition pool_ok :: "'s shared_state \<Rightarrow> bool" where
  "pool_ok st \<longleftrightarrow> well_keyed (proxies st) \<and> well_keyed (banned st)"

lemma well_keyed_Nil [simp]: "well_keyed []"
  by (simp add: well_keyed_def)

lemma well_keyed_get:
  "well_keyed m \<Longrightarrow> tbl_get m k = Some p \<Longrightarrow> proxy_key p = k \<and> score_ok p"
  by (auto simp: well_keyed_def dest: tbl_get_in_set)

lemma well_keyed_vals: "well_keyed m \<Longrightarrow> p \<in> set (tbl_vals m) \<Longrightarrow> score_ok p"
  by (auto simp: well_keyed_def in_tbl_vals)

lemma well_keyed_put [simp]:
  assumes "well_keyed m" "k = proxy_key p" "score_ok p" shows "well_keyed (tbl_put k p m)"
  using assms set_tbl_put_subset [of k p m] unfolding well_keyed_def
  by (intro conjI keys_ok_put) auto

lemma well_keyed_modify [simp]:
  assumes "well_keyed m" "\<And>p. proxy_key (f p) = proxy_key p" "\<And>p. score_ok p \<Longrightarrow> score_ok (f p)"
  shows "well_keyed (tbl_modify k f m)"
  using assms well_keyed_get [OF assms(1), of k] by (auto simp: tbl_modify_def split: option.split)

lemma well_keyed_retain [simp]: "well_keyed m \<Longrightarrow> well_keyed (tbl_retain P m)"
  by (auto simp: well_keyed_def) (auto simp: tbl_retain_def)

lemma well_keyed_del [simp]: "well_keyed m \<Longrightarrow> well_keyed (tbl_del k m)"
  by (auto simp: well_keyed_def) (auto simp: tbl_del_def)

lemma score_ok_tls [simp]: "score_ok (p\<lparr>tls_clean := c\<rparr>) \<longleftrightarrow> score_ok p"
  by (simp add: score_ok_def ewma_ok_def)

lemma score_ok_status [simp]: "score_ok (p\<lparr>status := c\<rparr>) \<longleftrightarrow> score_ok p"
  by (simp add: score_ok_def ewma_ok_def)

lemma score_ok_country [simp]: "score_ok (p\<lparr>country := c\<rparr>) \<longleftrightarrow> score_ok p"
  by (simp add: score_ok_def ewma_ok_def)

lemma proxy_key_status [simp]: "proxy_key (p\<lparr>status := c\<rparr>) = proxy_key p"
  by (simp add: proxy_key_def)

text \<open>
  The part of this that does not depend on the numbers: every proxy once, under its own key.
\<close>

definition own_keys :: "(string, proxy) table \<Rightarrow> bool" where
  "own_keys m \<longleftrightarrow> keys_ok m \<and> (\<forall>(k, p) \<in> set m. k = proxy_key p)"

definition pool_keyed :: "'s shared_state \<Rightarrow> bool" where
  "pool_keyed st \<longleftrightarrow> own_keys (proxies st) \<and> own_keys (banned st)"

lemma own_keys_Nil [simp]: "own_keys []"
  by (simp add: own_keys_def)

lemma own_keys_get: "own_keys m \<Longrightarrow> tbl_get m k = Some p \<Longrightarrow> proxy_key p = k"
  by (auto simp: own_keys_def dest: tbl_get_in_set)

lemma own_keys_put [simp]:
  assumes "own_keys m" "k = proxy_key p" shows "own_keys (tbl_put k p m)"
  using assms set_tbl_put_subset [of k p m] unfolding own_keys_def
  by (intro conjI keys_ok_put) auto

lemma own_keys_modify [simp]:
  assumes "own_keys m" "\<And>p. proxy_key (f p) = proxy_key p" shows "own_keys (tbl_modify k f m)"
  using assms own_keys_get [OF assms(1), of k] by (auto simp: tbl_modify_def split: option.split)

lemma own_keys_retain [simp]: "own_keys m \<Longrightarrow> own_keys (tbl_retain P m)"
  by (auto simp: own_keys_def) (auto simp: tbl_retain_def)

lemma own_keys_del [simp]: "own_keys m \<Longrightarrow> own_keys (tbl_del k m)"
  by (auto simp: own_keys_def) (auto simp: tbl_del_def)

text \<open>The mutations of the pool, as one type, and the invariants they keep.\<close>

datatype pool_op =
  AddVerified proxy | PoolSuccess string f64 clock | PoolFail string clock | SetTls string bool
| InsertIfAbsent proxy | CleanupStale clock | UpdateGeo string string | RebuildGeo

fun pool_apply :: "pool_op \<Rightarrow> 's shared_state \<Rightarrow> 's shared_state" where
  "pool_apply (AddVerified p) st = (if score_ok p then add_verified p st else st)"
| "pool_apply (PoolSuccess k l now) st = state_success k l now st"
| "pool_apply (PoolFail k now) st = state_fail k now st"
| "pool_apply (SetTls k c) st = set_tls_clean k c st"
| "pool_apply (InsertIfAbsent p) st = (if score_ok p then snd (insert_if_absent p st) else st)"
| "pool_apply (CleanupStale now) st = cleanup_stale now st"
| "pool_apply (UpdateGeo k c) st = update_geo_index k c st"
| "pool_apply RebuildGeo st = rebuild_geo_index st"

lemmas pool_op_defs =
  add_verified_def state_success_def state_fail_def set_tls_clean_def insert_if_absent_def
  cleanup_stale_def update_geo_index_def rebuild_geo_index_def

interpretation pool_ops: keeps pool_ok pool_apply
proof unfold_locales
  fix s :: "'a shared_state" and x
  assume "pool_ok s"
  then show "pool_ok (pool_apply x s)"
    by (cases x) (simp_all add: pool_ok_def pool_op_defs Let_def score_ok_success)
qed

interpretation keyed_ops: keeps pool_keyed pool_apply
proof unfold_locales
  fix s :: "'a shared_state" and x
  assume "pool_keyed s"
  then show "pool_keyed (pool_apply x s)"
    by (cases x) (simp_all add: pool_keyed_def pool_op_defs Let_def)
qed

lemma cleanup_pool_ok: "pool_ok st \<Longrightarrow> pool_ok (cleanup_stale now st)"
  using pool_ops.keeps [of st "CleanupStale now"] by simp

lemma success_pool_ok: "pool_ok st \<Longrightarrow> pool_ok (state_success k l now st)"
  using pool_ops.keeps [of st "PoolSuccess k l now"] by simp

lemma fail_pool_ok: "pool_ok st \<Longrightarrow> pool_ok (state_fail k now st)"
  using pool_ops.keeps [of st "PoolFail k now"] by simp

lemma tls_pool_ok: "pool_ok st \<Longrightarrow> pool_ok (set_tls_clean k b st)"
  using pool_ops.keeps [of st "SetTls k b"] by simp

lemma pool_ok_frame [simp]:
  "pool_ok (st\<lparr>first_ready := a\<rparr>) = pool_ok st" "pool_ok (st\<lparr>total_requests := b\<rparr>) = pool_ok st"
  "pool_ok (st\<lparr>active_connections := b\<rparr>) = pool_ok st" "pool_ok (st\<lparr>sticky_sessions := m\<rparr>) = pool_ok st"
  "pool_ok (st\<lparr>warm_pool := w\<rparr>) = pool_ok st" "pool_ok (st\<lparr>connection_pool := c\<rparr>) = pool_ok st"
  "pool_ok (st\<lparr>geoip := g\<rparr>) = pool_ok st" "pool_ok (st\<lparr>exclude_countries := e\<rparr>) = pool_ok st"
  "pool_ok (st\<lparr>geo_index := i\<rparr>) = pool_ok st" "pool_ok (st\<lparr>proxy_rotations := n\<rparr>) = pool_ok st"
  by (simp_all add: pool_ok_def)

lemma pool_keyed_ops:
  assumes "pool_keyed st"
  shows "pool_keyed (state_success k l now st)" "pool_keyed (state_fail k now st)"
    "pool_keyed (set_tls_clean k b st)" "pool_keyed (cleanup_stale now st)"
    "pool_keyed (snd (insert_if_absent p st))" "pool_keyed (update_geo_index k c st)"
  using assms by (simp_all add: pool_keyed_def pool_op_defs Let_def)

lemma pool_keyed_frame [simp]:
  "pool_keyed (st\<lparr>first_ready := a\<rparr>) = pool_keyed st" "pool_keyed (st\<lparr>total_requests := b\<rparr>) = pool_keyed st"
  "pool_keyed (st\<lparr>active_connections := b\<rparr>) = pool_keyed st" "pool_keyed (st\<lparr>sticky_sessions := m\<rparr>) = pool_keyed st"
  "pool_keyed (st\<lparr>warm_pool := w\<rparr>) = pool_keyed st" "pool_keyed (st\<lparr>connection_pool := c\<rparr>) = pool_keyed st"
  "pool_keyed (st\<lparr>geoip := g\<rparr>) = pool_keyed st" "pool_keyed (st\<lparr>exclude_countries := e\<rparr>) = pool_keyed st"
  "pool_keyed (st\<lparr>geo_index := i\<rparr>) = pool_keyed st" "pool_keyed (st\<lparr>proxy_rotations := n\<rparr>) = pool_keyed st"
  by (simp_all add: pool_keyed_def)

section \<open>What the selection returns\<close>

definition candidate :: "clock \<Rightarrow> 's shared_state \<Rightarrow> proxy_status option \<Rightarrow> proxy \<Rightarrow> bool" where
  "candidate now st s p \<longleftrightarrow> p \<in> set (tbl_vals (proxies st)) \<and> is_available now p
     \<and> \<not> country_excluded (excluded st) p \<and> status p = s"

definition sampler_ok :: "sampler \<Rightarrow> bool" where
  "sampler_ok rng \<longleftrightarrow> (\<forall>ws i. rng ws = Some i \<longrightarrow> i < length ws)"

lemma country_excluded_iff: "country_excluded ex p \<longleftrightarrow> (\<exists>c \<in> set ex. country p = Some c)"
  by (auto simp: country_excluded_def list_ex_iff split: option.splits)

lemma collect_top_n_sound: "p \<in> set (collect_top_n now P st) \<Longrightarrow> p \<in> set (tbl_vals (proxies st)) \<and> P p"
  using top_n_sound [of 10 "scored now P st"] by (auto simp: collect_top_n_def scored_def)

lemma collect_top_n_empty:
  "collect_top_n now P st = [] \<longleftrightarrow> (\<forall>p \<in> set (tbl_vals (proxies st)). \<not> P p)"
  by (auto simp: collect_top_n_def scored_def top_n_empty filter_empty_conv)

lemma score_ok_number: "score_ok p \<Longrightarrow> score now p \<noteq> NaN \<and> f_min_val \<le> score now p"
proof -
  assume "score_ok p"
  from score_range [OF this, of now] obtain r where "score now p = Fin r" "- 1000000600 \<le> r" by auto
  moreover have "f_min_val \<le> Fin (- 1000000600)" by (simp add: f_min_val_def)
  ultimately show ?thesis by (auto simp: f_min_val_def)
qed

lemma numbers_scored: "well_keyed (proxies st) \<Longrightarrow> numbers (scored now P st)"
  by (auto simp: numbers_def scored_def score_ok_number well_keyed_vals)

lemma collect_top_n_rank:
  assumes "well_keyed (proxies st)" "p \<in> set (collect_top_n now P st)"
  shows "length (filter (\<lambda>q. P q \<and> score now q < score now p) (tbl_vals (proxies st))) < 10"
proof -
  from assms(2) obtain s where "(s, p) \<in> set (top_n 10 (scored now P st))"
    by (auto simp: collect_top_n_def)
  moreover from this have "s = score now p"
    using top_n_sound [of 10 "scored now P st"] by (auto simp: scored_def)
  ultimately have "length (filter (\<lambda>x. fst x < score now p) (scored now P st)) < 10"
    using top_n_rank [OF numbers_scored [OF assms(1)]] by fastforce
  moreover have "(\<lambda>x. fst x < score now p) \<circ> (\<lambda>q. (score now q, q)) = (\<lambda>q. score now q < score now p)"
    by (rule ext) simp
  ultimately show ?thesis by (simp add: scored_def filter_map comp_def conj_commute)
qed

lemma weighted_random_select_in:
  "weighted_random_select rng now cs = Ret p \<Longrightarrow> p \<in> set cs"
  by (auto simp: weighted_random_select_def index_proxy_def split: if_splits option.splits)

lemma weighted_random_select_total:
  assumes "sampler_ok rng" "cs \<noteq> []" shows "weighted_random_select rng now cs \<noteq> Panic"
proof -
  have "length (select_weights now cs) = length cs" by (simp add: select_weights_def Let_def)
  with assms show ?thesis
    by (auto simp: weighted_random_select_def index_proxy_def sampler_ok_def split: option.split)
      metis
qed

lemma select_some_in: "select_some rng now cs = Ret r \<Longrightarrow> \<exists>p \<in> set cs. r = Some p"
  by (auto simp: select_some_def dest: weighted_random_select_in)

lemma select_some_total:
  assumes "sampler_ok rng" "cs \<noteq> []" shows "\<exists>p \<in> set cs. select_some rng now cs = Ret (Some p)"
proof -
  from weighted_random_select_total [OF assms] obtain p where
    "weighted_random_select rng now cs = Ret p" by (cases "weighted_random_select rng now cs") auto
  moreover from this have "p \<in> set cs" by (rule weighted_random_select_in)
  ultimately show ?thesis by (auto simp: select_some_def)
qed

text \<open>One case split for the selection: which tier the answer comes from.\<close>

abbreviation verified_top :: "clock \<Rightarrow> 's shared_state \<Rightarrow> proxy list" where
  "verified_top now st \<equiv> collect_top_n now
     (\<lambda>p. is_available now p \<and> status p = Some Verified \<and> \<not> country_excluded (excluded st) p) st"

abbreviation presumed_top :: "clock \<Rightarrow> 's shared_state \<Rightarrow> proxy list" where
  "presumed_top now st \<equiv> collect_top_n now
     (\<lambda>p. is_available now p \<and> status p = Some PresumedAlive \<and> \<not> country_excluded (excluded st) p) st"

abbreviation first_other :: "clock \<Rightarrow> 's shared_state \<Rightarrow> proxy option" where
  "first_other now st \<equiv> find (\<lambda>p. status p = Some Unchecked \<or> status p = None)
     (filter (\<lambda>p. is_available now p \<and> \<not> country_excluded (excluded st) p) (tbl_vals (proxies st)))"

lemma verified_top_empty: "verified_top now st = [] \<longleftrightarrow> (\<forall>q. \<not> candidate now st (Some Verified) q)"
  by (auto simp: collect_top_n_empty candidate_def)

lemma presumed_top_empty: "presumed_top now st = [] \<longleftrightarrow> (\<forall>q. \<not> candidate now st (Some PresumedAlive) q)"
  by (auto simp: collect_top_n_empty candidate_def)

lemma presumed_top_candidate: "p \<in> set (presumed_top now st) \<Longrightarrow> candidate now st (Some PresumedAlive) p"
  by (auto simp: candidate_def dest: collect_top_n_sound)

lemma verified_top_candidate: "p \<in> set (verified_top now st) \<Longrightarrow> candidate now st (Some Verified) p"
  by (auto simp: candidate_def dest: collect_top_n_sound)

lemma first_other_Some: "first_other now st = Some p
    \<Longrightarrow> candidate now st (status p) p \<and> (status p = Some Unchecked \<or> status p = None)"
  by (drule filter_find) (auto simp: candidate_def)

lemma first_other_None:
  "first_other now st = None \<longleftrightarrow>
     (\<forall>q. \<not> candidate now st (Some Unchecked) q \<and> \<not> candidate now st None q)"
  by (auto simp: candidate_def find_None_iff)

lemma select_best_eq:
  "select_best rng now st =
     (if verified_top now st \<noteq> [] then select_some rng now (verified_top now st)
      else if presumed_top now st \<noteq> [] then select_some rng now (presumed_top now st)
      else Ret (first_other now st))"
  by (simp add: select_best_def Let_def)

lemma select_best_cases:
  assumes "select_best rng now st = Ret r"
  obtains (verified) p where "r = Some p" "p \<in> set (verified_top now st)"
  | (presumed) p where "r = Some p" "candidate now st (Some PresumedAlive) p"
      "\<forall>q. \<not> candidate now st (Some Verified) q"
  | (other) p where "r = Some p" "candidate now st (status p) p"
      "status p = Some Unchecked \<or> status p = None"
      "\<forall>q. \<not> candidate now st (Some Verified) q" "\<forall>q. \<not> candidate now st (Some PresumedAlive) q"
  | (none) "r = None" "\<forall>q s. candidate now st s q \<longrightarrow> s = Some Failed"
proof -
  show thesis
  proof (cases "verified_top now st = []")
    case False
    with assms have "select_some rng now (verified_top now st) = Ret r"
      unfolding select_best_eq by (simp only: if_True not_False_eq_True)
    then show thesis by (auto dest: select_some_in intro: that(1))
  next
    case nv: True
    note v = nv [unfolded verified_top_empty]
    show thesis
    proof (cases "presumed_top now st = []")
      case False
      with assms nv have "select_some rng now (presumed_top now st) = Ret r"
        unfolding select_best_eq by (simp only: if_True if_False simp_thms not_False_eq_True)
      from select_some_in [OF this] v show thesis by (auto dest: presumed_top_candidate intro: that(2))
    next
      case np: True
      note p = np [unfolded presumed_top_empty]
      from assms nv np have r: "r = first_other now st" unfolding select_best_eq by simp
      show thesis
      proof (cases "first_other now st")
        case (Some x)
        from first_other_Some [OF Some] Some v p r show thesis by (intro that(3) [of x]) simp_all
      next
        case None
        from None [unfolded first_other_None] v p have "s = Some Failed" if "candidate now st s q" for s q
          using that by (cases s) (metis, metis proxy_status.exhaust)
        with None r show thesis by (intro that(4)) simp_all
      qed
    qed
  qed
qed

lemma select_best_total: "sampler_ok rng \<Longrightarrow> select_best rng now st \<noteq> Panic"
proof -
  assume s: "sampler_ok rng"
  have "select_some rng now cs \<noteq> Panic" if "cs \<noteq> []" for cs
    using select_some_total [OF s that, of now] by auto
  then show ?thesis unfolding select_best_eq by (simp only: split: if_split) simp
qed

lemma select_best_for_tls_total: "sampler_ok rng \<Longrightarrow> select_best_for_tls rng now st \<noteq> Panic"
proof -
  assume s: "sampler_ok rng"
  have "select_some rng now cs \<noteq> Panic" if "cs \<noteq> []" for cs
    using select_some_total [OF s that, of now] by auto
  then show ?thesis
    using select_best_total [OF s, of now st] by (simp add: select_best_for_tls_def Let_def)
qed

section \<open>Properties\<close>

text \<open>
  C8: a selected proxy is in the pool, its circuit breaker is closed, its country is not
  excluded and its status is not Failed; and no proxy of a better tier (Verified before
  PresumedAlive before the rest) could have been selected.
\<close>

theorem select_best_tiers:
  assumes "select_best rng now st = Ret (Some p)"
  shows "candidate now st (status p) p \<and> status p \<noteq> Some Failed
    \<and> (\<forall>c. country p = Some c \<longrightarrow> c \<notin> set (excluded st))
    \<and> (status p = Some Verified \<or> (\<forall>q. \<not> candidate now st (Some Verified) q))
    \<and> (status p \<in> {Some Verified, Some PresumedAlive} \<or> (\<forall>q. \<not> candidate now st (Some PresumedAlive) q))"
  using assms
proof (cases rule: select_best_cases)
  case (verified p')
  with verified_top_candidate [OF verified(2)] show ?thesis
    by (auto simp: candidate_def country_excluded_iff)
qed (auto simp: candidate_def country_excluded_iff)

text \<open>A small pool: two verified proxies, one of them in an excluded country.\<close>

definition demo_proxy :: "string \<Rightarrow> string \<Rightarrow> proxy" where
  "demo_proxy h c = (proxy_new h 80 Http)\<lparr>country := Some c, status := Some Verified\<rparr>"

definition demo_state :: "nat shared_state" where
  "demo_state = state_new\<lparr>proxies := [(''a:80'', demo_proxy ''a'' ''RU''), (''b:80'', demo_proxy ''b'' ''DE'')],
     exclude_countries := Some [''RU'']\<rparr>"

lemma demo_select:
  "select_best rng \<lparr>inst = 0, utc = 0\<rparr> demo_state = Ret (Some (demo_proxy ''b'' ''DE''))"
proof -
  let ?now = "\<lparr>inst = 0, utc = 0\<rparr>"
  have "collect_top_n ?now (\<lambda>p. is_available ?now p \<and> status p = Some Verified
      \<and> \<not> country_excluded (excluded demo_state) p) demo_state = [demo_proxy ''b'' ''DE'']"
    by (simp add: collect_top_n_def scored_def demo_state_def excluded_def country_excluded_def
        demo_proxy_def is_available_def proxy_new_def state_new_def tbl_vals_def top_n_def top_step_def)
  then show ?thesis
    unfolding select_best_eq by (simp add: select_some_def weighted_random_select_def index_proxy_def)
qed

theorem select_best_tiers_witness:
  "candidate \<lparr>inst = 0, utc = 0\<rparr> demo_state (Some Verified) (demo_proxy ''b'' ''DE'')"
  using select_best_tiers [OF demo_select] by (simp add: demo_proxy_def)

text \<open>
  C10: the selection fails to return a proxy exactly when every proxy of the pool is
  unavailable, in an excluded country or Failed; it never indexes out of range.
\<close>

theorem select_best_complete:
  assumes "sampler_ok rng"
  shows "select_best rng now st \<noteq> Panic
    \<and> (select_best rng now st = Ret None \<longleftrightarrow> (\<forall>q s. candidate now st s q \<longrightarrow> s = Some Failed))"
proof -
  from select_best_total [OF assms] obtain r where r: "select_best rng now st = Ret r"
    by (cases "select_best rng now st") auto
  then have "r = None \<longleftrightarrow> (\<forall>q s. candidate now st s q \<longrightarrow> s = Some Failed)"
  proof (cases rule: select_best_cases)
    case (verified p)
    from verified_top_candidate [OF verified(2)] verified(1) show ?thesis by auto
  next
    case (other p)
    then have "status p \<noteq> Some Failed" by auto
    with other show ?thesis by blast
  qed auto
  with r show ?thesis by simp
qed

theorem select_best_complete_witness:
  "select_best (\<lambda>ws. if ws = [] then None else Some 0) \<lparr>inst = 0, utc = 0\<rparr> (state_new :: nat shared_state) = Ret None"
proof -
  have "sampler_ok (\<lambda>ws. if ws = [] then None else Some 0)" by (auto simp: sampler_ok_def)
  moreover have "\<not> candidate now (state_new :: nat shared_state) s q" for now s q
    by (simp add: candidate_def state_new_def tbl_vals_def)
  ultimately show ?thesis by (simp add: select_best_complete)
qed

text \<open>
  C9: when a verified proxy is selected, fewer than ten selectable verified proxies have a
  lower score: the single pass with its replaced worst entry is a top-ten selection.
\<close>

theorem selection_is_top_ten:
  assumes "pool_ok st" "select_best rng now st = Ret (Some p)" "status p = Some Verified"
  shows "length (filter (\<lambda>q. candidate now st (Some Verified) q \<and> score now q < score now p)
           (tbl_vals (proxies st))) < 10"
  using assms(2)
proof (cases rule: select_best_cases)
  case (verified p')
  from assms(1) have w: "well_keyed (proxies st)" by (simp add: pool_ok_def)
  have same: "filter (\<lambda>q. (is_available now q \<and> status q = Some Verified
        \<and> \<not> country_excluded (excluded st) q) \<and> score now q < score now p') (tbl_vals (proxies st)) =
      filter (\<lambda>q. candidate now st (Some Verified) q \<and> score now q < score now p') (tbl_vals (proxies st))"
    by (rule filter_cong) (auto simp: candidate_def)
  from collect_top_n_rank [OF w verified(2)] verified(1) show ?thesis unfolding same by simp
qed (use assms(3) in \<open>auto simp: candidate_def\<close>)

lemma demo_pool_ok: "pool_ok demo_state"
proof -
  have "show_u16 80 = ''80''" by code_simp
  then have "proxy_key (demo_proxy ''a'' c) = ''a:80''" "proxy_key (demo_proxy ''b'' c) = ''b:80''" for c
    by (simp_all add: demo_proxy_def proxy_key_def proxy_new_def host_port_def)
  then show ?thesis
    by (simp add: pool_ok_def demo_state_def state_new_def well_keyed_def keys_ok_def)
      (simp add: demo_proxy_def)
qed

theorem selection_is_top_ten_witness:
  "length (filter (\<lambda>q. candidate \<lparr>inst = 0, utc = 0\<rparr> demo_state (Some Verified) q
     \<and> score \<lparr>inst = 0, utc = 0\<rparr> q < score \<lparr>inst = 0, utc = 0\<rparr> (demo_proxy ''b'' ''DE''))
       (tbl_vals (proxies demo_state))) < 10"
  by (rule selection_is_top_ten [OF demo_pool_ok demo_select]) (simp add: demo_proxy_def)

definition clean_candidate :: "clock \<Rightarrow> 's shared_state \<Rightarrow> proxy \<Rightarrow> bool" where
  "clean_candidate now st q \<longleftrightarrow> tls_clean q = Some True
     \<and> (candidate now st (Some Verified) q \<or> candidate now st (Some PresumedAlive) q)"

lemma select_tls_clean:
  assumes "sampler_ok rng" "clean_candidate now st q"
  shows "\<exists>p. select_best_for_tls rng now st = Ret (Some p) \<and> clean_candidate now st p"
proof -
  let ?top = "\<lambda>s. collect_top_n now (\<lambda>p. is_available now p \<and> status p = Some s
      \<and> tls_clean p = Some True \<and> \<not> country_excluded (excluded st) p) st"
  have e: "select_best_for_tls rng now st = (if ?top Verified \<noteq> [] then select_some rng now (?top Verified)
      else if ?top PresumedAlive \<noteq> [] then select_some rng now (?top PresumedAlive) else select_best rng now st)"
    by (simp add: select_best_for_tls_def Let_def)
  have found: "\<exists>p. select_some rng now (?top s) = Ret (Some p) \<and> clean_candidate now st p"
    if ne: "?top s \<noteq> []" and s: "s = Verified \<or> s = PresumedAlive" for s
    using select_some_total [OF assms(1) ne, of now] s
    by (auto simp: clean_candidate_def candidate_def dest!: collect_top_n_sound)
  have "?top Verified \<noteq> [] \<or> ?top PresumedAlive \<noteq> []"
    using assms(2) by (auto simp: clean_candidate_def candidate_def collect_top_n_empty)
  then consider "?top Verified \<noteq> []" | "?top Verified = []" "?top PresumedAlive \<noteq> []" by blast
  then show ?thesis
  proof cases
    case 1
    with found [of Verified] show ?thesis unfolding e by simp
  next
    case 2
    with found [of PresumedAlive] show ?thesis unfolding e by simp
  qed
qed

lemma select_tls_none_clean:
  assumes "\<And>q. \<not> clean_candidate now st q"
  shows "select_best_for_tls rng now st = select_best rng now st"
proof -
  have "collect_top_n now (\<lambda>p. is_available now p \<and> status p = Some s \<and> tls_clean p = Some True
      \<and> \<not> country_excluded (excluded st) p) st = []" if "s = Verified \<or> s = PresumedAlive" for s
    using assms that by (auto simp: clean_candidate_def candidate_def collect_top_n_empty)
  then show ?thesis by (simp add: select_best_for_tls_def Let_def)
qed


text \<open>Two verified proxies, of which only the second is clean; and two that are not.\<close>

definition one_clean :: "nat shared_state" where
  "one_clean = state_new\<lparr>proxies := [(''a:80'', demo_proxy ''a'' ''RU''),
     (''b:80'', (demo_proxy ''b'' ''DE'')\<lparr>tls_clean := Some True\<rparr>)]\<rparr>"


lemma f_mk_le_PInf: "f_mk x \<le> PInf"
  by (auto simp: f_mk_def Let_def)

lemma max_score_ge:
  assumes "\<forall>p \<in> set cs. score_ok p" "p \<in> set cs"
  shows "\<exists>m. foldl f_max f_min_val (map (score now) cs) = Fin m \<and> score now p \<le> Fin m"
proof -
  have nan: "NaN \<notin> set (map (score now) cs)"
    using assms(1) score_not_NaN [of _ now] by (auto simp: image_iff) metis
  define m where "m = Max (insert f_min_val (score now ` set cs))"
  have f: "foldl f_max f_min_val (map (score now) cs) = m"
    using foldl_f_max [OF _ nan, of f_min_val] by (simp add: m_def)
  have "m \<in> insert f_min_val (score now ` set cs)" unfolding m_def by (rule Max_in) auto
  then have "\<exists>a. m = Fin a" using assms(1) score_range by (fastforce simp: f_min_val_def)
  moreover have "score now p \<le> m" unfolding m_def using assms(2) by auto
  ultimately show ?thesis using f by auto
qed

text \<open>
  The weights of the draw are numbers of at least 1, and a candidate with a lower score
  never weighs less than one with a higher score, rounding included.
\<close>

theorem weights_prefer_low_scores:
  assumes "\<forall>p \<in> set cs. score_ok p" "i < length cs" "j < length cs"
    and "score now (cs ! i) \<le> score now (cs ! j)"
  shows "Fin 1 \<le> select_weights now cs ! j \<and> select_weights now cs ! j \<le> select_weights now cs ! i
    \<and> select_weights now cs ! j \<noteq> NaN"
proof -
  have mem: "cs ! i \<in> set cs" "cs ! j \<in> set cs" using assms by auto
  with max_score_ge [of cs "cs ! j" now] assms(1) obtain m where
    m: "foldl f_max f_min_val (map (score now) cs) = Fin m" "score now (cs ! j) \<le> Fin m" by auto
  from assms(1) mem score_range obtain a b where ab: "score now (cs ! i) = Fin a" "score now (cs ! j) = Fin b"
    by (metis (no_types, lifting))
  have w: "select_weights now cs ! k = f_add (f_sub (Fin m) (score now (cs ! k))) (Fin 1)"
    if "k < length cs" for k using that m(1) by (simp add: select_weights_def Let_def)
  have "f_nonneg (f_sub (Fin m) (Fin b))" using m ab by (intro f_nonneg_sub) auto
  from f_add_ge [OF this, of 1] have one: "Fin 1 \<le> select_weights now cs ! j"
    "select_weights now cs ! j \<noteq> NaN" using w [OF assms(3)] ab f_mk_int [of 1] by auto
  have "f_sub (Fin m) (Fin b) \<le> f_sub (Fin m) (Fin a)"
    using assms(4) ab by (simp add: f_sub_def f_mk_mono)
  moreover have "f_nonneg (f_sub (Fin m) (Fin a))" using m ab assms(4) by (intro f_nonneg_sub) auto
  moreover have "f_add x (Fin 1) \<le> f_add y (Fin 1)" if "x \<le> y" "f_nonneg x" "f_nonneg y" for x y
    using that f_nonneg_cases [of x] f_nonneg_cases [of y] f_mk_mono f_mk_le_PInf by auto
  ultimately have "select_weights now cs ! j \<le> select_weights now cs ! i"
    using w assms(2,3) ab \<open>f_nonneg (f_sub (Fin m) (Fin b))\<close> by simp
  with one show ?thesis by simp
qed

theorem weights_prefer_low_scores_witness:
  "Fin 1 \<le> select_weights \<lparr>inst = 0, utc = 0\<rparr> [demo_proxy ''a'' ''RU'', demo_proxy ''b'' ''DE''] ! 1"
proof -
  have ok: "\<forall>p \<in> set [demo_proxy ''a'' ''RU'', demo_proxy ''b'' ''DE'']. score_ok p"
    by (simp add: demo_proxy_def)
  show ?thesis using weights_prefer_low_scores [OF ok, of 0 1 "\<lparr>inst = 0, utc = 0\<rparr>"]
    by (simp add: score_def demo_proxy_def proxy_new_def recency_bonus_def uptime_of_def)
qed

definition stable_candidates :: "clock \<Rightarrow> 's shared_state \<Rightarrow> proxy list" where
  "stable_candidates now st = filter (candidate now st (Some Verified)) (tbl_vals (proxies st))"

lemma collect_top_n_sized_scores:
  assumes "well_keyed (proxies st)"
  shows "map (score now) (collect_top_n_sized now n P st) =
      take n (sort (map (score now) (filter P (tbl_vals (proxies st)))))"
proof -
  let ?es = "scored now P st"
  have pay: "fst e = score now (snd e)" if "e \<in> set (top_n n ?es)" for e
    using top_n_sound [of n ?es] that by (auto simp: scored_def)
  have "map (score now) (collect_top_n_sized now n P st) = map fst (sort_key fst (top_n n ?es))"
    using pay by (simp add: collect_top_n_sized_def)
  also have "\<dots> = sort (map fst (top_n n ?es))" by (intro properties_for_sort [symmetric]) simp_all
  also have "\<dots> = take n (sort (map fst ?es))" by (rule top_n_refines_sort [OF numbers_scored [OF assms]])
  finally show ?thesis by (simp add: scored_def comp_def)
qed

text \<open>
  C32: the list for the warm pool is the first N of all selectable verified proxies sorted
  by score, named by their keys: the single pass refines "sort, then take N".
\<close>

theorem warm_candidates_refine_sort:
  assumes "pool_ok st"
  shows "\<exists>ps. top_stable_proxies now n st = map (\<lambda>p. (proxy_key p, proxy_key p)) ps
    \<and> set ps \<subseteq> set (stable_candidates now st)
    \<and> map (score now) ps = take n (sort (map (score now) (stable_candidates now st)))"
proof -
  let ?P = "\<lambda>p. is_available now p \<and> status p = Some Verified \<and> \<not> country_excluded (excluded st) p"
  let ?ps = "collect_top_n_sized now n ?P st"
  have w: "well_keyed (proxies st)" using assms by (simp add: pool_ok_def)
  have f: "filter ?P (tbl_vals (proxies st)) = stable_candidates now st"
    unfolding stable_candidates_def by (rule filter_cong) (auto simp: candidate_def)
  have "top_stable_proxies now n st = map (\<lambda>p. (proxy_key p, proxy_key p)) ?ps"
    by (simp add: top_stable_proxies_def Let_def)
  moreover have "set ?ps \<subseteq> set (stable_candidates now st)"
    unfolding f [symmetric] using top_n_sound [of n "scored now ?P st"]
    by (auto simp: collect_top_n_sized_def scored_def)
  ultimately show ?thesis using collect_top_n_sized_scores [OF w, of now n ?P] f by auto
qed

theorem warm_candidates_refine_sort_witness:
  "\<exists>ps. top_stable_proxies \<lparr>inst = 0, utc = 0\<rparr> 2 demo_state = map (\<lambda>p. (proxy_key p, proxy_key p)) ps
    \<and> set ps \<subseteq> set (stable_candidates \<lparr>inst = 0, utc = 0\<rparr> demo_state)"
  using warm_candidates_refine_sort [OF demo_pool_ok, of "\<lparr>inst = 0, utc = 0\<rparr>" 2] by blast

definition insert_all :: "proxy list \<Rightarrow> 's shared_state \<Rightarrow> 's shared_state" where
  "insert_all ps st = fold (\<lambda>p st. snd (insert_if_absent p st)) ps st"

lemma insert_if_absent_limit [simp]: "max_proxies (snd (insert_if_absent p st)) = max_proxies st"
  by (simp add: insert_if_absent_def)

lemma insert_if_absent_bound:
  assumes "keys_ok (proxies st)" "0 < max_proxies st" "total_count st \<le> max_proxies st"
  shows "keys_ok (proxies (snd (insert_if_absent p st)))
    \<and> total_count (snd (insert_if_absent p st)) \<le> max_proxies st"
  using assms tbl.put_absent_bound [of "proxies st" "proxy_key p" "max_proxies st" p]
  by (auto simp: insert_if_absent_def total_count_def tbl_has_def)

lemma insert_if_absent_keeps:
  "tbl_get (proxies st) k = Some q \<Longrightarrow> tbl_get (proxies (snd (insert_if_absent p st))) k = Some q"
  by (auto simp: insert_if_absent_def tbl_has_def)

lemma insert_all_bound:
  assumes "keys_ok (proxies st)" "0 < max_proxies st" "total_count st \<le> max_proxies st"
  shows "total_count (insert_all ps st) \<le> max_proxies st
    \<and> (\<forall>k q. tbl_get (proxies st) k = Some q \<longrightarrow> tbl_get (proxies (insert_all ps st)) k = Some q)"
proof -
  have "keys_ok (proxies (insert_all ps st)) \<and> total_count (insert_all ps st) \<le> max_proxies st
      \<and> (\<forall>k q. tbl_get (proxies st) k = Some q \<longrightarrow> tbl_get (proxies (insert_all ps st)) k = Some q)"
    using assms unfolding insert_all_def
  proof (induction ps arbitrary: st)
    case (Cons p ps)
    from Cons.IH [of "snd (insert_if_absent p st)"] Cons.prems insert_if_absent_bound [OF Cons.prems, of p]
    show ?case by (auto simp: insert_if_absent_keeps)
  qed simp
  then show ?thesis by blast
qed

text \<open>
  Inserting any batch of proxies from a source never makes the pool larger than its
  limit and never changes an entry that is already there.
\<close>

theorem insertion_bounded:
  assumes "keys_ok (proxies st)" "0 < max_proxies st" "total_count st \<le> max_proxies st"
  shows "total_count (insert_all ps st) \<le> max_proxies st
    \<and> (\<forall>k q. tbl_get (proxies st) k = Some q \<longrightarrow> tbl_get (proxies (insert_all ps st)) k = Some q)"
  by (rule insert_all_bound [OF assms])

theorem insertion_bounded_witness:
  "total_count (insert_all [demo_proxy ''a'' ''RU'', demo_proxy ''b'' ''DE'']
     (with_config None 300 1 [] 2 5 45 :: nat shared_state)) \<le> 1"
proof -
  let ?st = "with_config None 300 1 [] 2 5 45 :: nat shared_state"
  have "keys_ok (proxies ?st)" "0 < max_proxies ?st" "total_count ?st \<le> max_proxies ?st"
    by (simp_all add: with_config_def total_count_def tbl_len_def)
  from insertion_bounded [OF this] show ?thesis by (simp add: with_config_def)
qed

text \<open>
  The batch to check is never longer than asked for, holds only proxies that need a
  check, is ordered unchecked, presumed alive, verified, failed, and leaves a proxy out
  only when the batch is full of proxies of the same or a better rank.
\<close>

theorem needing_check_priority:
  assumes "q \<in> set (tbl_vals (proxies st))" "needs_check now q"
    and "q \<notin> set (proxies_needing_check now limit st)"
  shows "length (proxies_needing_check now limit st) = limit
    \<and> (\<forall>p \<in> set (proxies_needing_check now limit st). needs_check now p \<and> check_rank p \<le> check_rank q)
    \<and> sorted (map check_rank (proxies_needing_check now limit st))"
proof -
  define xs where "xs = sort_key check_rank (filter (needs_check now) (tbl_vals (proxies st)))"
  have r: "proxies_needing_check now limit st = take limit xs"
    by (simp add: proxies_needing_check_def xs_def)
  have xs: "sorted (map check_rank xs)" "\<forall>p \<in> set xs. needs_check now p" "q \<in> set xs"
    using assms(1,2) by (simp_all add: xs_def)
  from xs(1) have s: "sorted (map check_rank (take limit xs) @ map check_rank (drop limit xs))"
    by (metis map_append append_take_drop_id)
  from xs(3) have "q \<in> set (take limit xs) \<union> set (drop limit xs)"
    by (metis append_take_drop_id set_append)
  with assms(3) have q: "q \<in> set (drop limit xs)" unfolding r by blast
  then have "limit < length xs" by (metis drop_all empty_iff list.set(1) not_le)
  with s q xs(2) show ?thesis unfolding r by (auto simp: sorted_append dest: in_set_takeD)
qed

theorem needing_check_priority_witness:
  "list_all (\<lambda>p. check_rank p \<le> 1) (proxies_needing_check \<lparr>inst = 0, utc = 0\<rparr> 1
     (state_new\<lparr>proxies := [(''b:80'', mark_presumed_alive (proxy_new ''b'' 80 Http)),
                          (''a:80'', proxy_new ''a'' 80 Http)]\<rparr> :: nat shared_state))"
proof -
  let ?a = "proxy_new ''a'' 80 Http" and ?b = "mark_presumed_alive (proxy_new ''b'' 80 Http)"
  let ?st = "state_new\<lparr>proxies := [(''b:80'', ?b), (''a:80'', ?a)]\<rparr> :: nat shared_state"
  have s: "status ?a = Some Unchecked" "status ?b = Some PresumedAlive"
    by (simp_all add: proxy_new_def mark_presumed_alive_def)
  then have "needs_check now ?a" "needs_check now ?b" "check_rank ?a = 0" "check_rank ?b = 1" for now
    by (simp_all add: needs_check_def check_rank_def)
  then have b: "proxies_needing_check \<lparr>inst = 0, utc = 0\<rparr> 1 ?st = [?a]"
    by (simp add: proxies_needing_check_def tbl_vals_def)
  have "?b \<noteq> ?a" using s by auto
  with b have "?b \<notin> set (proxies_needing_check \<lparr>inst = 0, utc = 0\<rparr> 1 ?st)" by simp
  from needing_check_priority [OF _ _ this] \<open>\<And>now. needs_check now ?b\<close> \<open>check_rank ?b = 1\<close>
  show ?thesis by (simp add: tbl_vals_def list_all_iff)
qed

lemma hours_less_24: "num_hours d < 24 \<longleftrightarrow> d < 86400000000000"
proof (cases "d < 0")
  case True
  then have "0 \<le> (- d) div 1000000000" by (simp add: pos_imp_zdiv_nonneg_iff)
  moreover from this have "0 \<le> ((- d) div 1000000000) div 3600" by (simp add: pos_imp_zdiv_nonneg_iff)
  ultimately show ?thesis using True
    by (auto simp: num_hours_def num_seconds_def trunc_div_def)
next
  case False
  then have "num_hours d = d div 1000000000 div 3600"
    by (simp add: num_hours_def num_seconds_def trunc_div_def pos_imp_zdiv_neg_iff)
  then show ?thesis by simp linarith
qed

text \<open>
  The clean-up removes exactly the proxies that never succeeded and whose last check is
  at least twenty-four hours old, and a proxy keeps its whole record otherwise.
\<close>

theorem cleanup_removes_only_stale:
  assumes "keys_ok (proxies st)" "tbl_get (proxies st) k = Some p"
  shows "tbl_get (proxies (cleanup_stale now st)) k =
    (if success_count p = 0 \<and> (\<exists>t. last_check p = Some t \<and> 86400000000000 \<le> utc now - t)
     then None else Some p)"
  using assms
  by (auto simp: cleanup_stale_def tbl_get_retain not_stale_def hours_less_24 word_gt_0
      split: option.split)

theorem cleanup_removes_only_stale_witness:
  "tbl_get (proxies (cleanup_stale \<lparr>inst = 0, utc = 86400000000000\<rparr>
     (state_new\<lparr>proxies := [(''a:80'', (proxy_new ''a'' 80 Http)\<lparr>last_check := Some 0\<rparr>)]\<rparr> :: nat shared_state)))
     ''a:80'' = None"
proof -
  let ?p = "(proxy_new ''a'' 80 Http)\<lparr>last_check := Some 0\<rparr>"
  let ?st = "state_new\<lparr>proxies := [(''a:80'', ?p)]\<rparr> :: nat shared_state"
  have "keys_ok (proxies ?st)" "tbl_get (proxies ?st) ''a:80'' = Some ?p"
    by (simp_all add: keys_ok_def tbl_get_def)
  from cleanup_removes_only_stale [OF this] show ?thesis by (simp add: proxy_new_def)
qed

end
