(* ===== verification/Sniff.thy ===== *)
theory Sniff
  imports RustStd
begin

text \<open>
  \<open>src/proxy/sniff.rs\<close>: the host name a client asks for, read from the first bytes of its
  connection: the server name of a TLS ClientHello or the Host of an HTTP request.  Every
  index and every slice of the buffer is checked, as in the code: out of range is a panic.
\<close>

section \<open>Checked reads of a buffer\<close>

definition idx :: "u8 list \<Rightarrow> nat \<Rightarrow> u8 comp" where
  "idx buf i = (if i < length buf then Ret (buf ! i) else Panic)"

definition read16 :: "u8 list \<Rightarrow> nat \<Rightarrow> nat comp" where
  "read16 buf i = comp_bind (idx buf i) (\<lambda>a. comp_bind (idx buf (i + 1)) (\<lambda>b. Ret (be16 a b)))"

definition slice :: "u8 list \<Rightarrow> nat \<Rightarrow> nat \<Rightarrow> u8 list comp" where
  "slice buf a b = (if a \<le> b \<and> b \<le> length buf then Ret (take (b - a) (drop a buf)) else Panic)"

lemma comp_bind_cong [fundef_cong]:
  "c = c' \<Longrightarrow> (\<And>x. c' = Ret x \<Longrightarrow> f x = f' x) \<Longrightarrow> comp_bind c f = comp_bind c' f'"
  by (cases c') auto

section \<open>The server name of a ClientHello\<close>

text \<open>The body of the server-name extension, which starts at \<open>pos\<close>.\<close>

definition sni_body :: "u8 list \<Rightarrow> nat \<Rightarrow> nat \<Rightarrow> string option comp" where
  "sni_body buf fin pos =
     (if fin < pos + 5 then Ret None
      else comp_bind (read16 buf pos) (\<lambda>list_len.
           comp_bind (idx buf (pos + 2)) (\<lambda>sni_type.
           comp_bind (read16 buf (pos + 3)) (\<lambda>name_len.
             let pos = pos + 5 in
             if sni_type = 0 \<and> pos + name_len \<le> fin
             then comp_bind (slice buf pos (pos + name_len)) (\<lambda>name. Ret (from_utf8 name))
             else Ret None))))"

text \<open>The loop over the extensions that end at \<open>fin\<close>.\<close>

function sni_loop :: "u8 list \<Rightarrow> nat \<Rightarrow> nat \<Rightarrow> string option comp" where
  "sni_loop buf fin pos =
     (if pos + 4 \<le> fin
      then comp_bind (read16 buf pos) (\<lambda>ext_type.
           comp_bind (read16 buf (pos + 2)) (\<lambda>ext_len.
             if ext_type = 0 then sni_body buf fin (pos + 4)
             else sni_loop buf fin (pos + 4 + ext_len)))
      else Ret None)"
  by pat_completeness auto
termination by (relation "measure (\<lambda>(buf, fin, pos). fin - pos)") auto

declare sni_loop.simps [simp del]

definition parse_tls_sni :: "u8 list \<Rightarrow> string option comp" where
  "parse_tls_sni buf =
     (if length buf < 43 then Ret None
      else comp_bind (idx buf 0) (\<lambda>content_type.
        if content_type \<noteq> 0x16 then Ret None
        else comp_bind (read16 buf 3) (\<lambda>record_len.
             comp_bind (idx buf 5) (\<lambda>handshake_type.
          if handshake_type \<noteq> 0x01 then Ret None
          else let pos = 5 + 4 + 2 + 32 in
            if length buf \<le> pos then Ret None
            else comp_bind (idx buf pos) (\<lambda>session_id_len.
              let pos = pos + (1 + unat session_id_len) in
              if length buf < pos + 2 then Ret None
              else comp_bind (read16 buf pos) (\<lambda>cipher_suites_len.
                let pos = pos + (2 + cipher_suites_len) in
                if length buf < pos + 1 then Ret None
                else comp_bind (idx buf pos) (\<lambda>compression_len.
                  let pos = pos + (1 + unat compression_len) in
                  if length buf < pos + 2 then Ret None
                  else comp_bind (read16 buf pos) (\<lambda>extensions_len.
                    let pos = pos + 2
                    in sni_loop buf (min (pos + extensions_len) (length buf)) pos))))))))"

section \<open>The Host of an HTTP request\<close>

text \<open>
  \<open>line.to_lowercase().starts_with("host:")\<close>: no character outside ASCII is lowered to a
  letter of \<open>host:\<close>, so the test is one on the first five bytes, and \<open>&line[5..]\<close> starts
  at a character boundary.
\<close>

definition ascii_lower :: "char \<Rightarrow> char" where
  "ascii_lower c = (if 65 \<le> (of_char c :: nat) \<and> (of_char c :: nat) \<le> 90
                    then char_of ((of_char c :: nat) + 32) else c)"

definition is_host_line :: "string \<Rightarrow> bool" where
  "is_host_line l \<longleftrightarrow> map ascii_lower (take 5 l) = ''host:''"

definition before_colon :: "string \<Rightarrow> string" where
  "before_colon s = hd (split_char (CHR '':'') s)"

fun find_host :: "string list \<Rightarrow> string option" where
  "find_host [] = None"
| "find_host (l # ls) =
     (if is_host_line l then Some (before_colon (rust_trim (drop 5 l)))
      else if l = [] then None
      else find_host ls)"

definition starts_with :: "string \<Rightarrow> string \<Rightarrow> bool" where
  "starts_with p s \<longleftrightarrow> take (length p) s = p"

definition parse_http_host :: "u8 list \<Rightarrow> string option" where
  "parse_http_host buf =
     (case from_utf8 buf of
        None \<Rightarrow> None
      | Some txt \<Rightarrow>
          (case rust_lines txt of
             [] \<Rightarrow> None
           | first_line # rest \<Rightarrow>
               (if starts_with ''CONNECT '' first_line then
                  (case split_whitespace first_line of
                     _ # target # _ \<Rightarrow> Some (before_colon target) | _ \<Rightarrow> None)
                else find_host rest)))"

section \<open>Sniffing\<close>

datatype sniffed_target = TlsSni string | HttpHost string | Unknown

definition sniff :: "u8 list \<Rightarrow> sniffed_target comp" where
  "sniff buf =
     (if buf = [] then Ret Unknown
      else comp_bind (idx buf 0) (\<lambda>b.
           comp_bind (if b = 0x16 then parse_tls_sni buf else Ret None) (\<lambda>sni.
             case sni of
               Some name \<Rightarrow> Ret (TlsSni name)
             | None \<Rightarrow> (case parse_http_host buf of
                 Some h \<Rightarrow> Ret (HttpHost h) | None \<Rightarrow> Ret Unknown))))"

section \<open>Reads in range\<close>

lemma idx_Ret [simp]: "i < length buf \<Longrightarrow> idx buf i = Ret (buf ! i)"
  by (simp add: idx_def)

lemma read16_Ret [simp]: "i + 1 < length buf \<Longrightarrow> read16 buf i = Ret (be16 (buf ! i) (buf ! (i + 1)))"
  by (simp add: read16_def)

lemma slice_Ret [simp]: "a \<le> b \<Longrightarrow> b \<le> length buf \<Longrightarrow> slice buf a b = Ret (take (b - a) (drop a buf))"
  by (simp add: slice_def)

text \<open>A computation is safe when its reads are and its branches are.\<close>

named_theorems total_intros \<open>computations that do not panic\<close>

lemma Ret_total [total_intros]: "Ret x \<noteq> Panic"
  by simp

lemma bind_total [total_intros]: "c \<noteq> Panic \<Longrightarrow> (\<And>x. f x \<noteq> Panic) \<Longrightarrow> comp_bind c f \<noteq> Panic"
  by (cases c) auto

lemma if_total [total_intros]:
  "(b \<Longrightarrow> c \<noteq> Panic) \<Longrightarrow> (\<not> b \<Longrightarrow> d \<noteq> Panic) \<Longrightarrow> (if b then c else d) \<noteq> Panic"
  by simp

lemma idx_total [total_intros]: "i < length buf \<Longrightarrow> idx buf i \<noteq> Panic"
  by simp

lemma read16_total [total_intros]: "i + 1 < length buf \<Longrightarrow> read16 buf i \<noteq> Panic"
  by simp

lemma sni_body_total [total_intros]: "fin \<le> length buf \<Longrightarrow> sni_body buf fin pos \<noteq> Panic"
  by (simp add: sni_body_def Let_def not_less)

lemma sni_loop_total [total_intros]: "fin \<le> length buf \<Longrightarrow> sni_loop buf fin pos \<noteq> Panic"
proof (induction buf fin pos rule: sni_loop.induct)
  case (1 buf fin pos)
  have "sni_loop buf fin (pos + 4 + n) \<noteq> Panic" if "pos + 4 \<le> fin" "be16 (buf ! pos) (buf ! (pos + 1)) \<noteq> 0"
    "n = be16 (buf ! (pos + 2)) (buf ! (pos + 3))" for n
    using 1 that by (simp add: numeral_eq_Suc)
  with 1(2) show ?case
    by (subst sni_loop.simps) (auto simp: sni_body_total numeral_eq_Suc)
qed

lemma parse_tls_sni_total: "parse_tls_sni buf \<noteq> Panic"
  unfolding parse_tls_sni_def Let_def by (intro total_intros) (auto simp: not_less not_le)

section \<open>Reading at the front of a suffix\<close>

definition u16b :: "nat \<Rightarrow> u8 list" where
  "u16b n = [of_nat (n div 256), of_nat (n mod 256)]"

lemma length_u16b [simp]: "length (u16b n) = 2"
  by (simp add: u16b_def)

lemma idx_at: "drop p buf = x # r \<Longrightarrow> idx buf p = Ret x"
  by (metis drop_eq_Nil idx_Ret linorder_not_le list.distinct(1) nth_via_drop)

lemma read16_at:
  assumes "drop p buf = u16b n @ r" "n < 65536" shows "read16 buf p = Ret n"
proof -
  from assms(1) have "drop p buf = of_nat (n div 256) # of_nat (n mod 256) # r" by (simp add: u16b_def)
  moreover from this have "drop (p + 1) buf = of_nat (n mod 256) # r"
    by (metis Suc_eq_plus1 drop_Suc list.sel(3) tl_drop)
  ultimately show ?thesis using assms(2)
    by (simp add: read16_def idx_at be16_def unat_of_nat)
qed

lemma drop_skip: "drop p buf = xs @ r \<Longrightarrow> drop (p + length xs) buf = r"
  by (metis add.commute append_eq_conv_conj drop_drop)

lemma length_at: "drop p buf = r \<Longrightarrow> p \<le> length buf \<Longrightarrow> length buf = p + length r"
  by auto

section \<open>A ClientHello\<close>

text \<open>
  The encoder of the TLS specification: an extension is its type, its length and its data;
  the server-name extension holds a list with one entry of type 0.
\<close>

definition ext_bytes :: "nat \<times> u8 list \<Rightarrow> u8 list" where
  "ext_bytes e = u16b (fst e) @ u16b (length (snd e)) @ snd e"

definition sni_ext :: "u8 list \<Rightarrow> u8 list" where
  "sni_ext name = ext_bytes (0, u16b (length name + 3) @ [0] @ u16b (length name) @ name)"

lemma sni_ext_eq: "sni_ext name = u16b 0 @ u16b (length name + 5)
    @ u16b (length name + 3) @ [0] @ u16b (length name) @ name"
proof -
  have "length (u16b (length name + 3) @ [0] @ u16b (length name) @ name) = length name + 5" by simp
  then show ?thesis by (simp only: sni_ext_def ext_bytes_def fst_conv snd_conv)
qed

definition exts_bytes :: "(nat \<times> u8 list) list \<Rightarrow> u8 list" where
  "exts_bytes es = concat (map ext_bytes es)"

definition other_ext :: "nat \<times> u8 list \<Rightarrow> bool" where
  "other_ext e \<longleftrightarrow> 0 < fst e \<and> fst e < 65536 \<and> length (snd e) < 65536"

lemma sni_body_at:
  assumes "drop pos buf = u16b (length name + 3) @ [0] @ u16b (length name) @ name @ tl'"
    and "pos + 5 + length name \<le> fin" "fin \<le> length buf" "length name < 65533"
  shows "sni_body buf fin pos = Ret (from_utf8 name)"
proof -
  have d2: "drop (pos + 2) buf = 0 # u16b (length name) @ name @ tl'"
    using drop_skip [OF assms(1)] by simp
  then have d3: "drop (pos + 3) buf = u16b (length name) @ name @ tl'"
    by (metis add_2_eq_Suc' add_Suc_right drop_Suc list.sel(3) numeral_3_eq_3 numeral_2_eq_2 tl_drop)
  from drop_skip [OF d3] have d5: "drop (pos + 5) buf = name @ tl'"
    by (simp add: add.commute)
  have "read16 buf pos = Ret (length name + 3)" by (rule read16_at [OF assms(1)]) (use assms(4) in simp)
  moreover have "idx buf (pos + 2) = Ret 0" by (rule idx_at [OF d2])
  moreover have "read16 buf (pos + 3) = Ret (length name)"
    by (rule read16_at [OF d3]) (use assms(4) in simp)
  ultimately show ?thesis using assms(2,3) d5 by (simp add: sni_body_def)
qed

text \<open>Extensions of other types are skipped one after the other.\<close>

lemma sni_loop_skips:
  assumes "drop pos buf = exts_bytes es @ sni_ext name @ tl'" "\<forall>e \<in> set es. other_ext e"
    and "pos + length (exts_bytes es) + length (sni_ext name) \<le> fin" "fin \<le> length buf"
    and "length name < 65527"
  shows "sni_loop buf fin pos = Ret (from_utf8 name)"
  using assms
proof (induction es arbitrary: pos)
  case Nil
  then have d: "drop pos buf = u16b 0 @ u16b (length name + 5)
      @ u16b (length name + 3) @ [0] @ u16b (length name) @ name @ tl'"
    by (simp add: exts_bytes_def sni_ext_eq)
  from drop_skip [OF d] have d2: "drop (pos + 2) buf = u16b (length name + 5)
      @ u16b (length name + 3) @ [0] @ u16b (length name) @ name @ tl'" by simp
  from drop_skip [OF d2] have d4: "drop (pos + 4) buf =
      u16b (length name + 3) @ [0] @ u16b (length name) @ name @ tl'"
    by (simp add: numeral_eq_Suc)
  have "read16 buf pos = Ret 0" by (rule read16_at [OF d]) simp
  moreover have "read16 buf (pos + 2) = Ret (length name + 5)"
    by (rule read16_at [OF d2]) (use Nil in simp)
  moreover have "pos + 4 + 5 + length name \<le> fin"
    using Nil by (simp add: exts_bytes_def sni_ext_def ext_bytes_def)
  moreover from this have "sni_body buf fin (pos + 4) = Ret (from_utf8 name)"
    using sni_body_at [OF d4] Nil by simp
  ultimately show ?case by (subst sni_loop.simps) simp
next
  case (Cons e es)
  obtain t d where e: "e = (t, d)" "0 < t" "t < 65536" "length d < 65536"
    using Cons.prems(2) by (cases e) (auto simp: other_ext_def)
  from Cons.prems(1) e(1) have d: "drop pos buf = u16b t @ u16b (length d) @ d
      @ exts_bytes es @ sni_ext name @ tl'" by (simp add: exts_bytes_def ext_bytes_def)
  from drop_skip [OF d] have d2: "drop (pos + 2) buf = u16b (length d) @ d
      @ exts_bytes es @ sni_ext name @ tl'" by simp
  from drop_skip [OF d2] have "drop (pos + 4) buf = d @ exts_bytes es @ sni_ext name @ tl'"
    by (simp add: numeral_eq_Suc)
  from drop_skip [OF this] have dn: "drop (pos + 4 + length d) buf = exts_bytes es @ sni_ext name @ tl'" .
  have len: "length (exts_bytes (e # es)) = 4 + length d + length (exts_bytes es)"
    by (simp add: exts_bytes_def ext_bytes_def e(1))
  have "sni_loop buf fin (pos + 4 + length d) = Ret (from_utf8 name)"
    using Cons.IH [OF dn] Cons.prems len by simp
  moreover have "read16 buf pos = Ret t" by (rule read16_at [OF d]) (use e in simp)
  moreover have "read16 buf (pos + 2) = Ret (length d)" by (rule read16_at [OF d2]) (use e in simp)
  ultimately show ?case using e(2) Cons.prems(3) len by (subst sni_loop.simps) simp
qed

text \<open>
  The message: a 43-byte header (record header, handshake header, version, random), the
  session, the cipher suites, the compression methods, and the extensions, of whose
  declared length \<open>exts_len\<close> the part up to the server name is in the buffer.
\<close>

definition client_hello ::
  "u8 list \<Rightarrow> u8 list \<Rightarrow> u8 list \<Rightarrow> u8 list \<Rightarrow> nat \<Rightarrow> (nat \<times> u8 list) list \<Rightarrow> u8 list \<Rightarrow> u8 list" where
  "client_hello hdr sid suites comps exts_len es name =
     hdr @ [of_nat (length sid)] @ sid @ u16b (length suites) @ suites
       @ [of_nat (length comps)] @ comps @ u16b exts_len @ exts_bytes es @ sni_ext name"

definition hello_ok ::
  "u8 list \<Rightarrow> u8 list \<Rightarrow> u8 list \<Rightarrow> u8 list \<Rightarrow> nat \<Rightarrow> (nat \<times> u8 list) list \<Rightarrow> u8 list \<Rightarrow> bool" where
  "hello_ok hdr sid suites comps exts_len es name \<longleftrightarrow>
     length hdr = 43 \<and> hdr ! 0 = 0x16 \<and> hdr ! 5 = 0x01 \<and> length sid < 256
     \<and> length suites < 65536 \<and> length comps < 256 \<and> exts_len < 65536
     \<and> length (exts_bytes es @ sni_ext name) \<le> exts_len \<and> list_all other_ext es"

lemma unat_length [simp]: "n < 256 \<Longrightarrow> unat (of_nat n :: u8) = n"
  by (simp add: unat_of_nat)

lemma parse_client_hello:
  assumes "hello_ok hdr sid suites comps exts_len es name" "length name < 65527"
  shows "parse_tls_sni (client_hello hdr sid suites comps exts_len es name @ tl') = Ret (from_utf8 name)"
proof -
  let ?E = "exts_bytes es @ sni_ext name"
  define buf where "buf = client_hello hdr sid suites comps exts_len es name @ tl'"
  have ok: "length hdr = 43" "hdr ! 0 = 0x16" "hdr ! 5 = 0x01" "length sid < 256"
    "length suites < 65536" "length comps < 256" "exts_len < 65536" "length ?E \<le> exts_len"
    "\<forall>e \<in> set es. other_ext e" using assms(1) by (auto simp: hello_ok_def list_all_iff)
  define p1 where "p1 = 43 + (1 + length sid)"
  define p2 where "p2 = p1 + (2 + length suites)"
  define p3 where "p3 = p2 + (1 + length comps)"
  have buf: "buf = hdr @ ([of_nat (length sid)] @ sid) @ (u16b (length suites) @ suites)
      @ ([of_nat (length comps)] @ comps) @ u16b exts_len @ ?E @ tl'"
    by (simp add: buf_def client_hello_def)
  have d0: "drop 43 buf = ([of_nat (length sid)] @ sid) @ (u16b (length suites) @ suites)
      @ ([of_nat (length comps)] @ comps) @ u16b exts_len @ ?E @ tl'"
    unfolding buf using ok(1) by simp
  have d1: "drop p1 buf = (u16b (length suites) @ suites)
      @ ([of_nat (length comps)] @ comps) @ u16b exts_len @ ?E @ tl'"
    using drop_skip [OF d0] by (simp add: p1_def)
  have d2: "drop p2 buf = ([of_nat (length comps)] @ comps) @ u16b exts_len @ ?E @ tl'"
    using drop_skip [OF d1] by (simp add: p2_def)
  have d3: "drop p3 buf = u16b exts_len @ ?E @ tl'"
    using drop_skip [OF d2] by (simp add: p3_def)
  have d4: "drop (p3 + 2) buf = exts_bytes es @ sni_ext name @ tl'"
    using drop_skip [OF d3] by simp
  have len: "length buf = p3 + 2 + length (?E @ tl')"
    unfolding buf p1_def p2_def p3_def using ok(1) by simp
  have long: "43 < length buf" "p1 + 2 \<le> length buf" "p2 + 1 \<le> length buf" "p3 + 2 \<le> length buf"
    unfolding len by (simp_all add: p1_def p2_def p3_def)
  have h: "buf ! 0 = 0x16" "buf ! 5 = 0x01" unfolding buf using ok(1-3) by (simp_all add: nth_append)
  have r1: "idx buf 43 = Ret (of_nat (length sid))" by (rule idx_at) (use d0 in simp)
  have r2: "read16 buf p1 = Ret (length suites)" by (rule read16_at) (use d1 ok in simp_all)
  have r3: "idx buf p2 = Ret (of_nat (length comps))" by (rule idx_at) (use d2 in simp)
  have r4: "read16 buf p3 = Ret exts_len" by (rule read16_at [OF d3 ok(7)])
  have "sni_loop buf (min (p3 + 2 + exts_len) (length buf)) (p3 + 2) = Ret (from_utf8 name)"
    using ok len assms(2) by (intro sni_loop_skips [OF d4]) auto
  moreover have "idx buf 0 = Ret 0x16" "idx buf 5 = Ret 0x01" "\<exists>x. read16 buf 3 = Ret x"
    using h long(1) by (auto simp: idx_def)
  ultimately show ?thesis
    unfolding buf_def [symmetric] using long ok r1 r2 r3 r4
    by (auto simp: parse_tls_sni_def Let_def p1_def p2_def p3_def)
qed

lemma sniff_answers: "sniff buf \<noteq> Panic"
  unfolding sniff_def
  by (intro total_intros) (auto simp: parse_tls_sni_total split: option.split)

section \<open>Properties\<close>

text \<open>
  No sequence of bytes makes the sniffer read outside its buffer: it always answers.
\<close>

theorem sniff_total: "\<exists>t. sniff buf = Ret t"
  using sniff_answers [of buf] by (cases "sniff buf") auto

text \<open>
  C15: the server name of a ClientHello is found whatever its session, cipher suites,
  compression methods and other extensions are, also when the buffer ends right after the
  name although the message goes on, and whatever follows it in the buffer.
\<close>

theorem sni_roundtrip:
  assumes "hello_ok hdr sid suites comps exts_len es name" "length name < 65527" "utf8_ok name"
  shows "sniff (client_hello hdr sid suites comps exts_len es name @ rest) = Ret (TlsSni (str_of name))"
proof -
  let ?buf = "client_hello hdr sid suites comps exts_len es name @ rest"
  have "?buf \<noteq> []" "?buf ! 0 = 0x16"
    using assms(1) by (auto simp: hello_ok_def client_hello_def nth_append)
  then show ?thesis
    using parse_client_hello [OF assms(1,2), of rest] assms(3) by (simp add: sniff_def idx_def from_utf8_def)
qed

theorem sni_roundtrip_witness:
  "sniff (client_hello ([0x16, 3, 1, 0, 0, 0x01] @ replicate 37 0) [1, 2] [0x13, 0x01] [0] 300
     [(10, [0, 2, 0, 29])] (bytes_of ''a.io'') @ [9, 9]) = Ret (TlsSni ''a.io'')"
proof -
  let ?n = "bytes_of ''a.io''"
  have "hello_ok ([0x16, 3, 1, 0, 0, 0x01] @ replicate 37 0) [1, 2] [0x13, 0x01] [0] 300
      [(10, [0, 2, 0, 29])] ?n"
    by (simp add: hello_ok_def other_ext_def exts_bytes_def ext_bytes_def sni_ext_def)
  moreover have "length ?n < 65527" "utf8_ok ?n" by (simp_all add: bytes_of_def)
  ultimately show ?thesis using sni_roundtrip [where name = ?n and rest = "[9, 9]"] by (metis str_of_bytes_of)
qed

lemma find_host_first:
  assumes "\<forall>l \<in> set pre. l \<noteq> [] \<and> \<not> is_host_line l" "is_host_line h"
  shows "find_host (pre @ h # post) = Some (before_colon (rust_trim (drop 5 h)))"
  using assms by (induction pre) auto

text \<open>
  For a request that is not CONNECT the answer is the value of the first Host line
  before the blank line, trimmed and cut at its first colon, whatever its letter case.
\<close>

theorem http_host_is_first:
  assumes "utf8_ok buf" "rust_lines (str_of buf) = req # pre @ h # post" "\<not> starts_with ''CONNECT '' req"
    and "\<forall>l \<in> set pre. l \<noteq> [] \<and> \<not> is_host_line l" "is_host_line h"
  shows "parse_http_host buf = Some (takeWhile (\<lambda>c. c \<noteq> CHR '':'') (rust_trim (drop 5 h)))"
  using assms find_host_first [OF assms(4,5), of post]
  by (simp add: parse_http_host_def from_utf8_def before_colon_def hd_split_char)

definition crlf :: string where
  "crlf = [CHR 13, CHR 10]"

theorem http_host_is_first_witness:
  "parse_http_host (bytes_of (''GET / HTTP/1.1'' @ crlf @ ''A: b'' @ crlf @ ''hOSt: x.io:80'' @ crlf @ crlf))
     = Some ''x.io''"
proof -
  define t where "t = ''GET / HTTP/1.1'' @ crlf @ ''A: b'' @ crlf @ ''hOSt: x.io:80'' @ crlf @ crlf"
  have "utf8_ok (bytes_of t)" by (simp add: t_def bytes_of_def crlf_def)
  moreover have "rust_lines (str_of (bytes_of t)) = ''GET / HTTP/1.1'' # [''A: b''] @ ''hOSt: x.io:80'' # [[]]"
    unfolding str_of_bytes_of by (simp add: t_def rust_lines_def crlf_def strip_cr_def)
  moreover have "rust_trim (drop 5 ''hOSt: x.io:80'') = ''x.io:80''" by code_simp
  moreover have "is_host_line ''hOSt: x.io:80''" "\<not> is_host_line ''A: b''" by code_simp+
  ultimately show ?thesis unfolding t_def [symmetric]
    using http_host_is_first [of "bytes_of t" "''GET / HTTP/1.1''" "[''A: b'']" "''hOSt: x.io:80''" "[[]]"]
    by (simp add: starts_with_def)
qed

lemma before_colon_no_colon: "CHR '':'' \<notin> set (before_colon s)"
  unfolding before_colon_def hd_split_char by (metis (full_types) set_takeWhileD)

lemma find_host_no_colon: "find_host ls = Some h \<Longrightarrow> CHR '':'' \<notin> set h"
  by (induction ls) (auto simp: before_colon_no_colon split: if_splits)

lemma parse_http_host_no_colon: "parse_http_host buf = Some h \<Longrightarrow> CHR '':'' \<notin> set h"
  by (auto simp: parse_http_host_def before_colon_no_colon find_host_no_colon
      split: option.splits list.splits if_splits)

text \<open>
  A host name sniffed from an HTTP request never contains a colon, so the IPv6 literal
  of a Host line or of a CONNECT target is cut at its first colon and comes out as an open
  bracket and its first group.
\<close>

theorem ipv6_host_is_cut:
  "sniff (bytes_of (''GET / HTTP/1.1'' @ crlf @ ''Host: [2001:db8::1]:80'' @ crlf @ crlf))
     = Ret (HttpHost ''[2001'')
   \<and> (case sniff buf of Ret (HttpHost h) \<Rightarrow> CHR '':'' \<notin> set h | _ \<Rightarrow> True)"
proof
  have "CHR '':'' \<notin> set h" if "sniff buf = Ret (HttpHost h)" for h
    using that parse_http_host_no_colon [of buf h]
    by (auto simp: sniff_def split: if_splits option.splits)
  then show "case sniff buf of Ret (HttpHost h) \<Rightarrow> CHR '':'' \<notin> set h | _ \<Rightarrow> True"
    by (auto split: comp.split sniffed_target.split)
  define t where "t = ''GET / HTTP/1.1'' @ crlf @ ''Host: [2001:db8::1]:80'' @ crlf @ crlf"
  have u: "utf8_ok (bytes_of t)" by (simp add: t_def bytes_of_def crlf_def)
  have l: "rust_lines t = ''GET / HTTP/1.1'' # ''Host: [2001:db8::1]:80'' # [[]]"
    by (simp add: t_def rust_lines_def crlf_def strip_cr_def)
  have "rust_trim (drop 5 ''Host: [2001:db8::1]:80'') = ''[2001:db8::1]:80''" by code_simp
  moreover have "is_host_line ''Host: [2001:db8::1]:80''" by code_simp
  ultimately have "parse_http_host (bytes_of t) = Some ''[2001''"
    using u l by (simp add: parse_http_host_def from_utf8_def starts_with_def before_colon_def)
  moreover have "bytes_of t \<noteq> []" "bytes_of t ! 0 \<noteq> 0x16" "t \<noteq> []" by (simp_all add: t_def bytes_of_def)
  ultimately show "sniff (bytes_of (''GET / HTTP/1.1'' @ crlf @ ''Host: [2001:db8::1]:80'' @ crlf @ crlf))
     = Ret (HttpHost ''[2001'')"
    unfolding t_def [symmetric] by (simp add: sniff_def idx_def)
qed

section \<open>What a sniffed name looks like\<close>

lemma before_colon_piece: "sublist (before_colon s) s"
  by (simp add: before_colon_def hd_split_char)

lemma find_host_piece:
  "find_host ls = Some h \<Longrightarrow> \<exists>l \<in> set ls. sublist h l"
proof (induction ls)
  case (Cons l ls)
  have "sublist (before_colon (rust_trim (drop 5 l))) l"
    by (rule sublist_order.order.trans [OF before_colon_piece
          sublist_order.order.trans [OF rust_trim_piece sublist_drop]])
  then show ?case using Cons by (auto split: if_splits)
qed simp

lemma parse_http_host_piece:
  assumes "parse_http_host buf = Some h"
  shows "sublist h (str_of buf) \<and> CHR 10 \<notin> set h"
proof -
  from assms obtain req rest where lines: "rust_lines (str_of buf) = req # rest"
    by (auto simp: parse_http_host_def from_utf8_def split: option.splits list.splits if_splits)
  have "\<exists>l \<in> set (req # rest). sublist h l"
  proof (cases "starts_with ''CONNECT '' req")
    case True
    then obtain target where "target \<in> set (split_whitespace req)" "h = before_colon target"
      using assms lines
      by (auto simp: parse_http_host_def from_utf8_def split: option.splits list.splits if_splits)
    then have "sublist h req"
      using sublist_order.order.trans [OF before_colon_piece split_whitespace_piece] by blast
    then show ?thesis by simp
  next
    case False
    then have "find_host rest = Some h"
      using assms lines by (auto simp: parse_http_host_def from_utf8_def split: option.splits if_splits)
    then show ?thesis using find_host_piece by auto
  qed
  then obtain l where l: "l \<in> set (rust_lines (str_of buf))" "sublist h l" by (auto simp: lines)
  then show ?thesis
    using sublist_order.order.trans [OF l(2) rust_lines_piece] sublist_notin [OF l(2) rust_lines_no_nl] by blast
qed

lemma be16_small: "be16 a b < 65536"
proof -
  have "unat a < 256" "unat b < 256" by simp_all
  then show ?thesis unfolding be16_def by linarith
qed

lemma read16_small: "read16 buf i = Ret n \<Longrightarrow> n < 65536"
  by (auto simp: read16_def be16_small)

text \<open>A server name as it comes out: a short piece of the buffer that is valid UTF-8.\<close>

definition sni_piece :: "u8 list \<Rightarrow> string \<Rightarrow> bool" where
  "sni_piece buf d \<longleftrightarrow> sublist d (str_of buf) \<and> length d < 65536 \<and> utf8_ok (bytes_of d)"

lemma sni_body_piece: "sni_body buf fin pos = Ret (Some d) \<Longrightarrow> sni_piece buf d"
proof -
  assume d: "sni_body buf fin pos = Ret (Some d)"
  then obtain n bs where n: "n < 65536" and bs: "bs = take n (drop (pos + 5) buf)" "from_utf8 bs = Some d"
    using read16_small [of buf "pos + 3"]
    by (auto simp: sni_body_def Let_def slice_def split: if_splits)
  have "sublist bs buf"
    unfolding bs(1) using sublist_order.order.trans [OF sublist_take sublist_drop] .
  then have "sublist (str_of bs) (str_of buf)" unfolding sublist_def by (metis str_of_append)
  then show ?thesis using n bs by (auto simp: sni_piece_def from_utf8_def split: if_splits)
qed

lemma sni_loop_piece: "sni_loop buf fin pos = Ret (Some d) \<Longrightarrow> sni_piece buf d"
proof (induction buf fin pos rule: sni_loop.induct)
  case (1 buf fin pos)
  from 1(2) obtain ext_type ext_len where e: "pos + 4 \<le> fin" "read16 buf pos = Ret ext_type"
    "read16 buf (pos + 2) = Ret ext_len"
    "(if ext_type = 0 then sni_body buf fin (pos + 4) else sni_loop buf fin (pos + 4 + ext_len)) = Ret (Some d)"
    by (subst (asm) sni_loop.simps) (auto split: if_splits)
  then show ?case using 1(1) [OF e(1,2,3)] sni_body_piece [of buf fin "pos + 4" d]
    by (cases "ext_type = 0") auto
qed

lemma parse_tls_sni_piece: "parse_tls_sni buf = Ret (Some d) \<Longrightarrow> sni_piece buf d"
  by (auto simp: parse_tls_sni_def Let_def sni_loop_piece split: if_splits)

text \<open>
  C16: what the names that the gateway dials look like.  A host from an HTTP request is a contiguous
  piece of the bytes received, on one line and without a colon.  A server name from a ClientHello
  is a contiguous piece of the bytes received, valid UTF-8 and shorter than 64 KiB, and nothing
  else is asked of it.
\<close>

theorem sniffed_names_are_pieces:
  "case sniff buf of
     Ret (HttpHost h) \<Rightarrow> sublist h (str_of buf) \<and> CHR 10 \<notin> set h \<and> CHR '':'' \<notin> set h
   | Ret (TlsSni d) \<Rightarrow> sublist d (str_of buf) \<and> length d < 65536 \<and> utf8_ok (bytes_of d)
   | Ret Unknown \<Rightarrow> True
   | Panic \<Rightarrow> False"
proof -
  have "sublist h (str_of buf) \<and> CHR 10 \<notin> set h \<and> CHR '':'' \<notin> set h" if "sniff buf = Ret (HttpHost h)" for h
    using that parse_http_host_piece [of buf h] parse_http_host_no_colon [of buf h]
    by (auto simp: sniff_def split: if_splits option.splits)
  moreover have "sni_piece buf d" if "sniff buf = Ret (TlsSni d)" for d
    using that parse_tls_sni_piece [of buf d] by (auto simp: sniff_def split: if_splits option.splits)
  ultimately show ?thesis
    using sniff_answers [of buf] by (auto simp: sni_piece_def split: comp.split sniffed_target.split)
qed

end
