(* ===== verification/Upstream.thy ===== *)
theory Upstream
  imports Proxy
begin

text \<open>
  \<open>src/proxy/upstream.rs\<close>: opening a tunnel to a target through an upstream proxy, with HTTP
  CONNECT or SOCKS5.

  A connection is what its peer does: the segments it sends, each after a delay in
  milliseconds, and then closing, resetting or staying silent for ever.  Reading from a
  silent peer never returns, which is the outcome \<open>Hang\<close>.  A read returns at most one
  segment, as much as fits.  The lemmas show that the outcome of both handshakes depends
  only on the bytes of the peer and not on how they are cut into segments.
\<close>

section \<open>Connections\<close>

datatype net_error =
  ConnectTimedOut | ConnectFailed | IoError
| ResponseTooLarge | ClosedBeforeResponse | BadStatus u16 string
| WrongVersion u8 | NoAuthMethod | DomainTooLong | WrongReplyVersion u8 | ReplyCode u8
| UnknownAtyp u8 | WarmTimedOut

datatype 'a io = Done 'a | Failure net_error | Hang

datatype conn_end = Closed | Reset | Silent

record conn =
  inbox :: "(nat \<times> u8 list) list"
  ending :: conn_end
  sent :: "u8 list"
  writes_left :: "nat option"
  waited :: nat

type_synonym 'a net = "conn \<Rightarrow> 'a io \<times> conn"

definition net_return :: "'a \<Rightarrow> 'a net" where
  "net_return x c = (Done x, c)"

definition net_fail :: "net_error \<Rightarrow> 'a net" where
  "net_fail e c = (Failure e, c)"

definition net_bind :: "'a net \<Rightarrow> ('a \<Rightarrow> 'b net) \<Rightarrow> 'b net" where
  "net_bind m f c =
     (case m c of (Done x, c') \<Rightarrow> f x c' | (Failure e, c') \<Rightarrow> (Failure e, c') | (Hang, c') \<Rightarrow> (Hang, c'))"

text \<open>\<open>AsyncReadExt::read\<close> into \<open>k\<close> bytes of room; no bytes means the end of the stream.\<close>

fun read_segs :: "nat \<Rightarrow> (nat \<times> u8 list) list \<Rightarrow> nat \<Rightarrow> (u8 list \<times> (nat \<times> u8 list) list) option \<times> nat" where
  "read_segs k [] w = (None, w)"
| "read_segs k ((d, s) # ss) w =
     (if s = [] then read_segs k ss (w + d)
      else (Some (take k s, if drop k s = [] then ss else (0, drop k s) # ss), w + d))"

definition sock_read :: "nat \<Rightarrow> u8 list net" where
  "sock_read k c =
     (case read_segs k (inbox c) (waited c) of
        (Some (bs, ss), w) \<Rightarrow> (Done bs, c\<lparr>inbox := ss, waited := w\<rparr>)
      | (None, w) \<Rightarrow>
          (let c = c\<lparr>inbox := [], waited := w\<rparr>
           in case ending c of Closed \<Rightarrow> (Done [], c) | Reset \<Rightarrow> (Failure IoError, c) | Silent \<Rightarrow> (Hang, c)))"

text \<open>\<open>write_all\<close>; \<open>writes_left\<close> is the number of writes before the peer breaks, if it does.\<close>

definition sock_write :: "u8 list \<Rightarrow> unit net" where
  "sock_write bs c =
     (if writes_left c = Some 0 then (Failure IoError, c)
      else (Done (), c\<lparr>sent := sent c @ bs, writes_left := map_option (\<lambda>n. n - 1) (writes_left c)\<rparr>))"

text \<open>\<open>read_exact\<close>: an early end of the stream is an error.\<close>

function read_exact :: "nat \<Rightarrow> u8 list net" where
  "read_exact k c =
     (if k = 0 then (Done [], c)
      else case sock_read k c of
        (Done bs, c') \<Rightarrow>
          (if bs = [] then (Failure IoError, c')
           else case read_exact (k - length bs) c' of
             (Done bs', c'') \<Rightarrow> (Done (bs @ bs'), c'')
           | (Failure e, c'') \<Rightarrow> (Failure e, c'') | (Hang, c'') \<Rightarrow> (Hang, c''))
      | (Failure e, c') \<Rightarrow> (Failure e, c') | (Hang, c') \<Rightarrow> (Hang, c'))"
  by pat_completeness auto
termination by (relation "measure (\<lambda>(k, c). k)") auto

declare read_exact.simps [simp del]

section \<open>HTTP CONNECT\<close>

definition header_mark :: "u8 list \<Rightarrow> bool" where
  "header_mark bs \<longleftrightarrow> take 4 bs = [13, 10, 13, 10]"

fun find_header_end :: "u8 list \<Rightarrow> nat option" where
  "find_header_end [] = None"
| "find_header_end (b # bs) =
     (if header_mark (b # bs) then Some 4 else map_option Suc (find_header_end bs))"

definition connect_request :: "string \<Rightarrow> u16 \<Rightarrow> string" where
  "connect_request h p =
     ''CONNECT '' @ host_port h p @ '' HTTP/1.1'' @ [CHR 13, CHR 10]
     @ ''Host: '' @ host_port h p @ [CHR 13, CHR 10]
     @ ''Proxy-Connection: keep-alive'' @ [CHR 13, CHR 10, CHR 13, CHR 10]"

definition first_line :: "u8 list \<Rightarrow> string" where
  "first_line bs = (case rust_lines (str_of (utf8_lossy bs)) of l # _ \<Rightarrow> l | [] \<Rightarrow> [])"

definition status_code :: "string \<Rightarrow> u16" where
  "status_code l =
     (case split_whitespace l of
        _ # s # _ \<Rightarrow> (case parse_u16 s of Some n \<Rightarrow> n | None \<Rightarrow> 0)
      | _ \<Rightarrow> 0)"

text \<open>The decision on a complete response header.\<close>

definition judge_header :: "u8 list \<Rightarrow> unit io" where
  "judge_header bs =
     (let l = first_line bs; s = status_code l
      in if s = 200 then Done () else Failure (BadStatus s l))"

text \<open>The reading loop; \<open>buf\<close> are the bytes read so far, into a buffer of 1024.\<close>

function http_loop :: "u8 list \<Rightarrow> unit net" where
  "http_loop buf c =
     (if 1024 \<le> length buf then (Failure ResponseTooLarge, c)
      else case sock_read (1024 - length buf) c of
        (Done bs, c') \<Rightarrow>
          (if bs = [] then (Failure ClosedBeforeResponse, c')
           else (case find_header_end (buf @ bs) of
                   Some e \<Rightarrow> (judge_header (take e (buf @ bs)), c')
                 | None \<Rightarrow> http_loop (buf @ bs) c'))
      | (Failure e, c') \<Rightarrow> (Failure e, c') | (Hang, c') \<Rightarrow> (Hang, c'))"
  by pat_completeness auto
termination by (relation "measure (\<lambda>(buf, c). 1024 - length buf)")
    (auto intro!: diff_less_mono2 simp flip: length_greater_0_conv)

declare http_loop.simps [simp del]

definition http_connect_handshake :: "string \<Rightarrow> u16 \<Rightarrow> unit net" where
  "http_connect_handshake h p =
     net_bind (sock_write (bytes_of (connect_request h p))) (\<lambda>_. http_loop [])"

section \<open>SOCKS5\<close>

definition socks_request :: "string \<Rightarrow> u16 \<Rightarrow> u8 list" where
  "socks_request h p =
     [0x05, 0x01, 0x00, 0x03] @ [of_nat (length (bytes_of h))] @ bytes_of h @ to_be_bytes p"

text \<open>Read and discard the bound address, whose form the fourth byte of the reply gives.\<close>

definition skip_bound_addr :: "u8 \<Rightarrow> unit net" where
  "skip_bound_addr atyp =
     (if atyp = 0x01 then net_bind (read_exact 6) (\<lambda>_. net_return ())
      else if atyp = 0x03 then
        net_bind (read_exact 1) (\<lambda>len. net_bind (read_exact (unat (len ! 0) + 2)) (\<lambda>_. net_return ()))
      else if atyp = 0x04 then net_bind (read_exact 18) (\<lambda>_. net_return ())
      else net_fail (UnknownAtyp atyp))"

definition socks5_handshake :: "string \<Rightarrow> u16 \<Rightarrow> unit net" where
  "socks5_handshake h p =
     net_bind (sock_write [0x05, 0x01, 0x00]) (\<lambda>_.
     net_bind (read_exact 2) (\<lambda>resp.
       if resp ! 0 \<noteq> 0x05 then net_fail (WrongVersion (resp ! 0))
       else if resp ! 1 = 0xFF then net_fail NoAuthMethod
       else if 255 < length (bytes_of h) then net_fail DomainTooLong
       else net_bind (sock_write (socks_request h p)) (\<lambda>_.
            net_bind (read_exact 4) (\<lambda>hdr.
              if hdr ! 0 \<noteq> 0x05 then net_fail (WrongReplyVersion (hdr ! 0))
              else if hdr ! 1 \<noteq> 0x00 then net_fail (ReplyCode (hdr ! 1))
              else skip_bound_addr (hdr ! 3)))))"

section \<open>Connecting\<close>

definition handshake :: "protocol \<Rightarrow> string \<Rightarrow> u16 \<Rightarrow> unit net" where
  "handshake proto h p =
     (case proto of Socks5 \<Rightarrow> socks5_handshake h p | _ \<Rightarrow> http_connect_handshake h p)"

text \<open>
  \<open>dial\<close> is the network: what a connect to an address comes to and after how many
  milliseconds, \<open>None\<close> when it never answers; a refused connect is \<open>(t, None)\<close>.  The
  keep-alive options, at the end of this theory, have no effect on the bytes.
\<close>

type_synonym network = "string \<Rightarrow> (nat \<times> conn option) option"

definition tunnel :: "unit io \<times> conn \<Rightarrow> conn io" where
  "tunnel r = (case r of (Done _, c) \<Rightarrow> Done c | (Failure e, _) \<Rightarrow> Failure e | (Hang, _) \<Rightarrow> Hang)"

definition connect_through_proxy ::
  "network \<Rightarrow> proxy \<Rightarrow> string \<Rightarrow> u16 \<Rightarrow> nat \<Rightarrow> conn io" where
  "connect_through_proxy dial px target tport limit_ms =
     (case dial (proxy_addr px) of
        Some (t, r) \<Rightarrow>
          (if limit_ms < t then Failure ConnectTimedOut
           else case r of
             Some c \<Rightarrow> tunnel (handshake (protocol px) target tport c)
           | None \<Rightarrow> Failure ConnectFailed)
      | None \<Rightarrow> Failure ConnectTimedOut)"

definition connect_to_target :: "network \<Rightarrow> proxy \<Rightarrow> string \<Rightarrow> u16 \<Rightarrow> conn io" where
  "connect_to_target dial px target tport = connect_through_proxy dial px target tport 10000"

definition handshake_on_stream :: "conn \<Rightarrow> proxy \<Rightarrow> string \<Rightarrow> u16 \<Rightarrow> conn io" where
  "handshake_on_stream c px target tport =
     (case handshake (protocol px) target tport c of
        (Hang, _) \<Rightarrow> Failure WarmTimedOut
      | (r, c') \<Rightarrow> if 10000 < waited c' - waited c then Failure WarmTimedOut else tunnel (r, c'))"

section \<open>What a read sees\<close>

definition flat :: "conn \<Rightarrow> u8 list" where
  "flat c = concat (map snd (inbox c))"

text \<open>Two connections that differ in segmentation and timing only.\<close>

definition alike :: "conn \<Rightarrow> conn \<Rightarrow> bool" where
  "alike c c' \<longleftrightarrow> flat c = flat c' \<and> ending c = ending c' \<and> sent c = sent c' \<and> writes_left c = writes_left c'"

lemma alike_refl [simp]: "alike c c"
  by (simp add: alike_def)

lemma alike_sym: "alike c c' \<Longrightarrow> alike c' c"
  by (simp add: alike_def)

lemma alike_trans [trans]: "alike a b \<Longrightarrow> alike b c \<Longrightarrow> alike a c"
  by (simp add: alike_def)

text \<open>The connection after the first \<open>n\<close> bytes have been read.\<close>

definition advance :: "nat \<Rightarrow> conn \<Rightarrow> conn" where
  "advance n c = c\<lparr>inbox := [(0, drop n (flat c))]\<rparr>"

lemma advance_simps [simp]:
  "flat (advance n c) = drop n (flat c)" "ending (advance n c) = ending c"
  "sent (advance n c) = sent c" "writes_left (advance n c) = writes_left c"
  by (simp_all add: advance_def flat_def)

lemma read_segs_spec:
  "read_segs k ss w = (r, w') \<Longrightarrow> 0 < k \<Longrightarrow>
     (case r of None \<Rightarrow> concat (map snd ss) = []
      | Some (bs, ss') \<Rightarrow> bs \<noteq> [] \<and> length bs \<le> k \<and> concat (map snd ss) = bs @ concat (map snd ss'))"
proof (induction ss arbitrary: w)
  case (Cons x ss)
  obtain d s where x: "x = (d, s)" by fastforce
  show ?case
  proof (cases "s = []")
    case True
    with Cons.IH [of "w + d"] Cons.prems x show ?thesis
      by (auto simp del: concat_eq_Nil_conv split: option.splits)
  next
    case False
    then have "take k s \<noteq> []" using Cons.prems(2) by simp
    moreover have "s = take k s @ drop k s" by simp
    ultimately show ?thesis using Cons.prems False x by auto
  qed
qed simp

text \<open>The outcome of reading at the end of what the peer sends.\<close>

definition at_end :: "net_error \<Rightarrow> conn_end \<Rightarrow> 'a io" where
  "at_end e en = (case en of Closed \<Rightarrow> Failure e | Reset \<Rightarrow> Failure IoError | Silent \<Rightarrow> Hang)"

lemma sock_read_some:
  assumes "0 < k" "flat c \<noteq> []"
  obtains bs c' where "sock_read k c = (Done bs, c')" "bs \<noteq> []" "length bs \<le> k"
    "alike c' (advance (length bs) c)" "flat c = bs @ flat c'"
proof -
  obtain r w where r: "read_segs k (inbox c) (waited c) = (r, w)" by fastforce
  note spec = read_segs_spec [OF r assms(1)]
  with assms(2) obtain bs ss where s: "r = Some (bs, ss)" "bs \<noteq> []" "length bs \<le> k"
    "flat c = bs @ concat (map snd ss)" by (auto simp: flat_def split: option.splits)
  let ?c = "c\<lparr>inbox := ss, waited := w\<rparr>"
  have "flat ?c = concat (map snd ss)" by (simp add: flat_def)
  with r s show thesis by (intro that [of bs ?c]) (simp_all add: sock_read_def alike_def)
qed

lemma sock_read_none:
  assumes "0 < k" "flat c = []"
  shows "\<exists>c'. sock_read k c = (case ending c of Closed \<Rightarrow> Done [] | Reset \<Rightarrow> Failure IoError | Silent \<Rightarrow> Hang, c')
    \<and> alike c' c"
proof -
  obtain r w where r: "read_segs k (inbox c) (waited c) = (r, w)" by fastforce
  with read_segs_spec [OF r assms(1)] assms(2) have "r = None"
    by (cases r) (auto simp: flat_def simp del: concat_eq_Nil_conv)
  with r assms(2) show ?thesis
    by (auto simp: sock_read_def Let_def alike_def flat_def split: conn_end.split)
qed

lemma alike_advance: "alike c c' \<Longrightarrow> alike (advance n c) (advance n c')"
  by (simp add: alike_def)

lemma advance_advance: "alike c' (advance m c) \<Longrightarrow> alike (advance n c') (advance (m + n) c)"
  by (simp add: alike_def add.commute)

lemma read_exact_enough:
  "k \<le> length (flat c) \<Longrightarrow> \<exists>c'. read_exact k c = (Done (take k (flat c)), c') \<and> alike c' (advance k c)"
proof (induction k c rule: read_exact.induct)
  case (1 k c)
  show ?case
  proof (cases "k = 0")
    case True
    then show ?thesis by (subst read_exact.simps) (simp add: alike_def)
  next
    case False
    then have k: "0 < k" "flat c \<noteq> []" using 1(2) by auto
    from sock_read_some [OF k] obtain bs c' where r: "sock_read k c = (Done bs, c')" "bs \<noteq> []"
      "length bs \<le> k" "alike c' (advance (length bs) c)" "flat c = bs @ flat c'" by metis
    have "k - length bs \<le> length (flat c')" using 1(2) r(5) by simp
    from 1(1) [OF False r(1) [symmetric] _ r(2) this] obtain c'' where
      c'': "read_exact (k - length bs) c' = (Done (take (k - length bs) (flat c')), c'')"
        "alike c'' (advance (k - length bs) c')" by auto
    from alike_trans [OF c''(2) advance_advance [OF r(4)]] r(3)
    have "alike c'' (advance k c)" by simp
    with c''(1) r False show ?thesis by (subst read_exact.simps) simp
  qed
qed

lemma read_exact_short:
  "length (flat c) < k \<Longrightarrow> fst (read_exact k c) = at_end IoError (ending c)"
proof (induction k c rule: read_exact.induct)
  case (1 k c)
  then have k: "0 < k" "k \<noteq> 0" by auto
  show ?case
  proof (cases "flat c = []")
    case True
    from sock_read_none [OF k(1) True] obtain c' where "sock_read k c =
        (case ending c of Closed \<Rightarrow> Done [] | Reset \<Rightarrow> Failure IoError | Silent \<Rightarrow> Hang, c')" by blast
    with k show ?thesis by (subst read_exact.simps) (simp add: at_end_def split: conn_end.split)
  next
    case False
    from sock_read_some [OF k(1) False] obtain bs c' where r: "sock_read k c = (Done bs, c')" "bs \<noteq> []"
      "length bs \<le> k" "alike c' (advance (length bs) c)" "flat c = bs @ flat c'" by metis
    have "length (flat c') < k - length bs" using 1(2) r(5) by simp
    from 1(1) [OF k(2) r(1) [symmetric] _ r(2) this] r(4)
    have "fst (read_exact (k - length bs) c') = at_end IoError (ending c)" by (simp add: alike_def)
    with r k show ?thesis
      by (subst read_exact.simps) (auto simp: at_end_def split: conn_end.split io.split prod.split)
  qed
qed

section \<open>Both handshakes see bytes, not segments\<close>

definition seg_free :: "'a net \<Rightarrow> bool" where
  "seg_free m \<longleftrightarrow> (\<forall>c1 c2. alike c1 c2 \<longrightarrow> fst (m c1) = fst (m c2)
     \<and> ((\<exists>x. fst (m c1) = Done x) \<longrightarrow> alike (snd (m c1)) (snd (m c2))))"

named_theorems seg_free_intros \<open>operations that depend on the bytes only\<close>

lemma seg_free_return [seg_free_intros]: "seg_free (net_return x)"
  by (simp add: seg_free_def net_return_def)

lemma seg_free_fail [seg_free_intros]: "seg_free (net_fail e)"
  by (simp add: seg_free_def net_fail_def)

lemma seg_free_write [seg_free_intros]: "seg_free (sock_write bs)"
  by (auto simp: seg_free_def sock_write_def alike_def flat_def)

lemma seg_free_read_exact [seg_free_intros]: "seg_free (read_exact k)"
  unfolding seg_free_def
proof (intro allI impI)
  fix c1 c2 assume a: "alike c1 c2"
  then have f: "flat c1 = flat c2" "ending c1 = ending c2" by (simp_all add: alike_def)
  show "fst (read_exact k c1) = fst (read_exact k c2)
     \<and> ((\<exists>x. fst (read_exact k c1) = Done x) \<longrightarrow> alike (snd (read_exact k c1)) (snd (read_exact k c2)))"
  proof (cases "k \<le> length (flat c1)")
    case True
    from read_exact_enough [OF True] obtain d1 where d1: "read_exact k c1 = (Done (take k (flat c1)), d1)"
      "alike d1 (advance k c1)" by blast
    from True f have "k \<le> length (flat c2)" by simp
    from read_exact_enough [OF this] obtain d2 where d2: "read_exact k c2 = (Done (take k (flat c2)), d2)"
      "alike d2 (advance k c2)" by blast
    have "alike d1 d2"
      using d1(2) d2(2) alike_advance [OF a, of k] by (meson alike_sym alike_trans)
    with d1 d2 f show ?thesis by simp
  next
    case False
    then show ?thesis using read_exact_short [of c1 k] read_exact_short [of c2 k] f
      by (simp add: at_end_def split: conn_end.split)
  qed
qed

lemma seg_free_bind [seg_free_intros]:
  assumes "seg_free m" "\<And>x. seg_free (f x)" shows "seg_free (net_bind m f)"
  unfolding seg_free_def
proof (intro allI impI)
  fix c1 c2 assume a: "alike c1 c2"
  obtain r1 d1 r2 d2 where m: "m c1 = (r1, d1)" "m c2 = (r2, d2)" by (meson surj_pair)
  from assms(1) a m have r: "r1 = r2" "(\<exists>x. r1 = Done x) \<longrightarrow> alike d1 d2"
    unfolding seg_free_def by (metis fst_conv snd_conv)+
  show "fst (net_bind m f c1) = fst (net_bind m f c2)
     \<and> ((\<exists>x. fst (net_bind m f c1) = Done x) \<longrightarrow> alike (snd (net_bind m f c1)) (snd (net_bind m f c2)))"
  proof (cases r1)
    case (Done x)
    with r m assms(2) [of x] show ?thesis by (auto simp: net_bind_def seg_free_def)
  qed (use r m in \<open>simp_all add: net_bind_def\<close>)
qed

lemma seg_free_if [seg_free_intros]:
  "(b \<Longrightarrow> seg_free m) \<Longrightarrow> (\<not> b \<Longrightarrow> seg_free m') \<Longrightarrow> seg_free (if b then m else m')"
  by simp

lemma seg_free_socks5: "seg_free (socks5_handshake h p)"
  unfolding socks5_handshake_def skip_bound_addr_def by (intro seg_free_intros)

lemma seg_free_verdict: "seg_free m \<Longrightarrow> alike c1 c2 \<Longrightarrow> fst (m c1) = fst (m c2)"
  by (simp add: seg_free_def)

section \<open>The HTTP response\<close>

lemma header_mark_length: "header_mark bs \<Longrightarrow> 4 \<le> length bs"
proof -
  assume "header_mark bs"
  then have "length (take 4 bs) = 4" by (simp add: header_mark_def)
  then show ?thesis by simp
qed

lemma header_mark_append: "4 \<le> length bs \<Longrightarrow> header_mark (bs @ ys) = header_mark bs"
  by (simp add: header_mark_def)

lemma find_header_end_bounds: "find_header_end bs = Some e \<Longrightarrow> 4 \<le> e \<and> e \<le> length bs"
proof (induction bs arbitrary: e)
  case (Cons b bs)
  then show ?case using header_mark_length [of "b # bs"] by (fastforce split: if_splits)
qed simp

lemma find_header_end_append: "find_header_end xs = Some e \<Longrightarrow> find_header_end (xs @ ys) = Some e"
proof (induction xs arbitrary: e)
  case (Cons b bs)
  have "4 \<le> length (b # bs)" using find_header_end_bounds [OF Cons.prems] by linarith
  from header_mark_append [OF this, of ys] Cons show ?case by (auto split: if_splits)
qed simp

text \<open>The specification of the loop, on all the bytes of the peer at once.\<close>

definition http_verdict :: "u8 list \<Rightarrow> conn_end \<Rightarrow> unit io" where
  "http_verdict bs en =
     (case find_header_end (take 1024 bs) of
        Some e \<Rightarrow> judge_header (take e bs)
      | None \<Rightarrow> if 1024 \<le> length bs then Failure ResponseTooLarge else at_end ClosedBeforeResponse en)"

lemma http_loop_verdict:
  "find_header_end buf = None \<Longrightarrow> length buf \<le> 1024
     \<Longrightarrow> fst (http_loop buf c) = http_verdict (buf @ flat c) (ending c)"
proof (induction buf c rule: http_loop.induct)
  case (1 buf c)
  show ?case
  proof (cases "1024 \<le> length buf")
    case True
    with 1 show ?thesis by (subst http_loop.simps) (simp add: http_verdict_def)
  next
    case False
    then have k: "0 < 1024 - length buf" by simp
    show ?thesis
    proof (cases "flat c = []")
      case True
      from sock_read_none [OF k True] obtain c' where "sock_read (1024 - length buf) c =
        (case ending c of Closed \<Rightarrow> Done [] | Reset \<Rightarrow> Failure IoError | Silent \<Rightarrow> Hang, c')" by blast
      with False True 1 show ?thesis
        by (subst http_loop.simps) (simp add: http_verdict_def at_end_def split: conn_end.split)
    next
      case nonempty: False
      from sock_read_some [OF k nonempty] obtain bs c' where r: "sock_read (1024 - length buf) c = (Done bs, c')"
        "bs \<noteq> []" "length bs \<le> 1024 - length buf" "alike c' (advance (length bs) c)" "flat c = bs @ flat c'"
        by metis
      have l: "length (buf @ bs) \<le> 1024" using r(3) False by simp
      show ?thesis
      proof (cases "find_header_end (buf @ bs)")
        case None
        from 1(1) [OF False r(1) [symmetric] _ r(2) None None l]
        have "fst (http_loop (buf @ bs) c') = http_verdict ((buf @ bs) @ flat c') (ending c')" by simp
        with r None False show ?thesis by (subst http_loop.simps) (simp add: alike_def)
      next
        case (Some e)
        have e: "e \<le> length (buf @ bs)" using find_header_end_bounds [OF Some] by simp
        have t: "take 1024 (buf @ flat c) = (buf @ bs) @ take (1024 - length (buf @ bs)) (flat c')"
          using l r(5) by simp
        have "find_header_end (take 1024 (buf @ flat c)) = Some e"
          unfolding t by (rule find_header_end_append [OF Some])
        moreover have "take e (buf @ flat c) = take e (buf @ bs)" using e r(5) by simp
        ultimately show ?thesis using r Some False e
          by (subst http_loop.simps) (simp add: http_verdict_def)
      qed
    qed
  qed
qed

lemma http_handshake_verdict:
  assumes "writes_left c \<noteq> Some 0"
  shows "fst (http_connect_handshake h p c) = http_verdict (flat c) (ending c)"
  using assms http_loop_verdict [of "[]"]
  by (simp add: http_connect_handshake_def net_bind_def sock_write_def flat_def)

section \<open>The contract of a tunnel protocol\<close>

text \<open>
  What the connecting functions rely on: the verdict of a handshake is a function of the
  bytes the peer sends.
\<close>

locale tunnel_protocol =
  fixes shake :: "string \<Rightarrow> u16 \<Rightarrow> unit net"
  assumes verdict_alike: "alike c c' \<Longrightarrow> fst (shake h p c) = fst (shake h p c')"
begin

lemma tunnel_alike:
  assumes "alike c c'"
  shows "(\<exists>d. tunnel (shake h p c) = Done d) \<longleftrightarrow> (\<exists>d. tunnel (shake h p c') = Done d)"
    and "tunnel (shake h p c) = Failure e \<longleftrightarrow> tunnel (shake h p c') = Failure e"
    and "tunnel (shake h p c) = Hang \<longleftrightarrow> tunnel (shake h p c') = Hang"
  using verdict_alike [OF assms, of h p]
  by (auto simp: tunnel_def split: prod.splits io.splits)

end

interpretation socks5: tunnel_protocol socks5_handshake
  by unfold_locales (rule seg_free_verdict [OF seg_free_socks5])

interpretation http: tunnel_protocol http_connect_handshake
proof unfold_locales
  fix c c' h p assume a: "alike c c'"
  show "fst (http_connect_handshake h p c) = fst (http_connect_handshake h p c')"
  proof (cases "writes_left c = Some 0")
    case True
    with a show ?thesis by (simp add: http_connect_handshake_def net_bind_def sock_write_def alike_def)
  next
    case False
    with a http_handshake_verdict show ?thesis by (simp add: alike_def)
  qed
qed

interpretation any_tunnel: tunnel_protocol "handshake proto" for proto
  by unfold_locales (auto simp: handshake_def socks5.verdict_alike http.verdict_alike split: protocol.split)

section \<open>Properties\<close>

text \<open>
  C17: the HTTP CONNECT handshake decides by the first response header within 1024 bytes:
  for every segmentation of the response it succeeds, fails or waits exactly as the
  specification on the whole byte stream says.
\<close>

theorem http_connect_refines_spec:
  assumes "writes_left c \<noteq> Some 0"
  shows "fst (http_connect_handshake h p c) =
    (case find_header_end (take 1024 (flat c)) of
       Some e \<Rightarrow> judge_header (take e (flat c))
     | None \<Rightarrow> if 1024 \<le> length (flat c) then Failure ResponseTooLarge
               else (case ending c of Closed \<Rightarrow> Failure ClosedBeforeResponse
                     | Reset \<Rightarrow> Failure IoError | Silent \<Rightarrow> Hang))"
  by (simp only: http_handshake_verdict [OF assms] http_verdict_def at_end_def)

definition response_200 :: "u8 list" where
  "response_200 = bytes_of (''HTTP/1.1 200 OK'' @ [CHR 13, CHR 10, CHR 13, CHR 10])"

definition peer :: "u8 list list \<Rightarrow> conn_end \<Rightarrow> conn" where
  "peer segs en = \<lparr>inbox = map (\<lambda>s. (1, s)) segs, ending = en, sent = [], writes_left = None, waited = 0\<rparr>"

lemma peer_simps [simp]:
  "flat (peer segs en) = concat segs" "ending (peer segs en) = en" "sent (peer segs en) = []"
  "writes_left (peer segs en) = None" "waited (peer segs en) = 0"
  by (simp_all add: peer_def flat_def comp_def)

lemma parse_200: "parse_u16 ''200'' = Some 200"
  by (simp add: parse_u16_def is_digit_def digits_val_def digit_val_def)

lemma judge_response_200: "judge_header response_200 = Done ()"
proof -
  let ?t = "''HTTP/1.1 200 OK'' @ [CHR 13, CHR 10, CHR 13, CHR 10]"
  have "\<forall>b \<in> set (bytes_of ?t). unat b < 128" by (simp add: bytes_of_def)
  then have "utf8_lossy (bytes_of ?t) = bytes_of ?t" by (rule utf8_lossy_ascii)
  moreover have "rust_lines ?t = [''HTTP/1.1 200 OK'', []]" by code_simp
  ultimately have l: "first_line response_200 = ''HTTP/1.1 200 OK''"
    unfolding first_line_def response_200_def by (simp only: str_of_bytes_of list.case)
  have "split_whitespace ''HTTP/1.1 200 OK'' = [''HTTP/1.1'', ''200'', ''OK'']" by code_simp
  with l parse_200 show ?thesis by (simp add: judge_header_def status_code_def)
qed

lemma response_200_facts:
  "find_header_end response_200 = Some 19" "length response_200 = 19"
  "response_200 \<noteq> []"
  by (simp_all add: response_200_def bytes_of_def header_mark_def)

theorem http_connect_refines_spec_witness:
  "fst (http_connect_handshake ''a.io'' 443 (peer [take 7 response_200, drop 7 response_200] Silent)) = Done ()"
  using http_connect_refines_spec [of "peer [take 7 response_200, drop 7 response_200] Silent" "''a.io''" 443]
  by (simp add: response_200_facts judge_response_200)

definition bound_addr :: "u8 \<Rightarrow> u8 list \<Rightarrow> bool" where
  "bound_addr atyp bs \<longleftrightarrow>
     (atyp = 1 \<and> length bs = 6)
     \<or> (atyp = 3 \<and> bs \<noteq> [] \<and> length bs = unat (hd bs) + 3)
     \<or> (atyp = 4 \<and> length bs = 18)"

lemma net_bind_read:
  assumes "k \<le> length (flat c)"
  obtains c' where "net_bind (read_exact k) f c = f (take k (flat c)) c'" "alike c' (advance k c)"
  using read_exact_enough [OF assms] by (auto simp: net_bind_def)

lemma skip_bound_addr_reads:
  assumes "bound_addr atyp bs" "flat c = bs @ rest"
  shows "\<exists>c'. skip_bound_addr atyp c = (Done (), c') \<and> alike c' (advance (length bs) c)"
proof -
  have fixed: "\<exists>c'. net_bind (read_exact n) (\<lambda>_. net_return ()) c = (Done (), c') \<and> alike c' (advance n c)"
    if "n \<le> length (flat c)" for n c
    using net_bind_read [OF that, of "\<lambda>_. net_return ()"] by (metis net_return_def)
  consider "atyp = 1" "length bs = 6" | "atyp = 3" "bs \<noteq> []" "length bs = unat (hd bs) + 3"
    | "atyp = 4" "length bs = 18" using assms(1) by (auto simp: bound_addr_def)
  then show ?thesis
  proof cases
    case 2
    then obtain b bs' where b: "bs = b # bs'" "length bs' = unat b + 2" by (cases bs) auto
    let ?f = "\<lambda>len. net_bind (read_exact (unat (len ! 0) + 2)) (\<lambda>_. net_return ())"
    have "1 \<le> length (flat c)" using assms(2) b by simp
    from net_bind_read [OF this, of ?f] obtain c1 where
      c1: "net_bind (read_exact 1) ?f c = ?f (take 1 (flat c)) c1" "alike c1 (advance 1 c)" by blast
    then have "unat b + 2 \<le> length (flat c1)" using assms(2) b by (simp add: alike_def)
    from fixed [OF this] obtain c2 where c2: "net_bind (read_exact (unat b + 2)) (\<lambda>_. net_return ()) c1 = (Done (), c2)"
      "alike c2 (advance (unat b + 2) c1)" by blast
    from alike_trans [OF c2(2) advance_advance [OF c1(2)]] have "alike c2 (advance (length bs) c)"
      using b by simp
    with c1 c2(1) 2 assms(2) b show ?thesis by (simp add: skip_bound_addr_def)
  qed (use fixed [of 6 c] fixed [of 18 c] assms(2) in \<open>simp_all add: skip_bound_addr_def\<close>)
qed

lemma socks5_success:
  assumes "flat c = [5, 0] @ [5, 0, rsv, atyp] @ addr @ rest" "bound_addr atyp addr"
    and "length h \<le> 255" "writes_left c = None"
  shows "\<exists>c'. socks5_handshake h p c = (Done (), c') \<and> flat c' = rest
    \<and> sent c' = sent c @ [5, 1, 0] @ [5, 1, 0, 3, of_nat (length h)] @ bytes_of h @ to_be_bytes p"
proof -
  define w where "w bs d = d\<lparr>sent := sent d @ bs, writes_left := map_option (\<lambda>n. n - 1) (writes_left d)\<rparr>"
    for bs and d :: conn
  have w: "net_bind (sock_write bs) f d = f () (w bs d)" "flat (w bs d) = flat d" "writes_left (w bs d) = None"
    "sent (w bs d) = sent d @ bs" if "writes_left d = None" for bs d and f :: "unit \<Rightarrow> unit net"
    using that by (simp_all add: net_bind_def sock_write_def w_def flat_def)
  define c1 where "c1 = w [5, 1, 0] c"
  have c1: "flat c1 = [5, 0, 5, 0, rsv, atyp] @ addr @ rest" "writes_left c1 = None" "sent c1 = sent c @ [5, 1, 0]"
    using w [OF assms(4)] assms(1) by (simp_all add: c1_def)
  have "2 \<le> length (flat c1)" using c1 by simp
  from read_exact_enough [OF this] obtain c2 where r2: "read_exact 2 c1 = (Done [5, 0], c2)" and
    c2: "flat c2 = [5, 0, rsv, atyp] @ addr @ rest" "writes_left c2 = None" "sent c2 = sent c1"
    using c1 by (auto simp: alike_def)
  define c3 where "c3 = w (socks_request h p) c2"
  have c3: "flat c3 = [5, 0, rsv, atyp] @ addr @ rest" "sent c3 = sent c1 @ socks_request h p"
    using w [OF c2(2)] c2 by (simp_all add: c3_def)
  have "4 \<le> length (flat c3)" using c3 by simp
  from read_exact_enough [OF this] obtain c4 where r4: "read_exact 4 c3 = (Done [5, 0, rsv, atyp], c4)" and
    c4: "flat c4 = addr @ rest" "sent c4 = sent c3"
    using c3 by (auto simp: alike_def)
  from skip_bound_addr_reads [OF assms(2) c4(1)] obtain c5 where
    c5: "skip_bound_addr atyp c4 = (Done (), c5)" "alike c5 (advance (length addr) c4)" by blast
  have "socks5_handshake h p c = (Done (), c5)"
    unfolding socks5_handshake_def w(1) [OF assms(4)] c1_def [symmetric]
    using assms(3) r2 r4 c5(1) w(1) [OF c2(2)] by (simp add: net_bind_def c3_def)
  moreover have "flat c5 = rest" "sent c5 = sent c @ [5, 1, 0] @ socks_request h p"
    using c5(2) c4 c3 c1 by (simp_all add: alike_def)
  ultimately show ?thesis by (simp add: socks_request_def)
qed

text \<open>
  C18: when the proxy follows RFC 1928, the SOCKS5 handshake succeeds for every segmentation
  of its answers, has sent exactly the greeting and the CONNECT request for the domain, and
  leaves every byte after the reply for the tunnel.
\<close>

theorem socks5_follows_rfc:
  assumes "flat c = [5, 0] @ [5, 0, rsv, atyp] @ addr @ rest" "bound_addr atyp addr"
    and "length h \<le> 255" "writes_left c = None"
  shows "\<exists>c'. socks5_handshake h p c = (Done (), c') \<and> flat c' = rest
    \<and> sent c' = sent c @ [5, 1, 0] @ [5, 1, 0, 3, of_nat (length h)] @ bytes_of h @ to_be_bytes p"
  by (rule socks5_success [OF assms])

theorem socks5_follows_rfc_witness:
  "\<exists>c'. socks5_handshake ''a.io'' 443 (peer [[5], [0, 5, 0], [0, 1, 9, 9, 9, 9], [0, 80, 1, 2]] Silent) = (Done (), c')
     \<and> flat c' = [1, 2]
     \<and> sent c' = [5, 1, 0, 5, 1, 0, 3, 4] @ bytes_of ''a.io'' @ [1, 187]"
  using socks5_follows_rfc [of "peer [[5], [0, 5, 0], [0, 1, 9, 9, 9, 9], [0, 80, 1, 2]] Silent" 0 1
      "[9, 9, 9, 9, 0, 80]" "[1, 2]" "''a.io''" 443]
  by (simp add: bound_addr_def to_be_bytes_def)

lemma sock_write_ok:
  "writes_left c \<noteq> Some 0 \<Longrightarrow> \<exists>c'. sock_write bs c = (Done (), c') \<and> flat c' = flat c \<and> ending c' = ending c"
  by (auto simp: sock_write_def flat_def)

lemma socks5_long_host:
  assumes "255 < length h"
  shows "fst (socks5_handshake h p c) \<noteq> Done ()"
    and "flat c = [5, 0] @ rest \<Longrightarrow> writes_left c \<noteq> Some 0 \<Longrightarrow>
      fst (socks5_handshake h p c) = Failure DomainTooLong"
proof -
  show "fst (socks5_handshake h p c) \<noteq> Done ()"
    using assms by (auto simp: socks5_handshake_def net_bind_def net_fail_def split: io.split prod.split)
next
  assume c: "flat c = [5, 0] @ rest" "writes_left c \<noteq> Some 0"
  from sock_write_ok [OF c(2)] obtain c1 where c1: "sock_write [5, 1, 0] c = (Done (), c1)" "flat c1 = [5, 0] @ rest"
    using c(1) by metis
  then have "2 \<le> length (flat c1)" by simp
  from read_exact_enough [OF this] c1(2) obtain c2 where "read_exact 2 c1 = (Done [5, 0], c2)" by auto
  with c1 show "fst (socks5_handshake h p c) = Failure DomainTooLong"
    using assms by (simp add: socks5_handshake_def net_bind_def net_fail_def)
qed

lemma handshake_silent:
  assumes "flat c = []" "ending c = Silent" "writes_left c \<noteq> Some 0"
  shows "fst (handshake proto h p c) = Hang"
proof -
  have "fst (http_connect_handshake h p c) = Hang"
    using http_handshake_verdict [OF assms(3)] assms by (simp add: http_verdict_def at_end_def)
  moreover have "fst (socks5_handshake h p c) = Hang"
  proof -
    from sock_write_ok [OF assms(3)] assms obtain c' where
      c': "sock_write [5, 1, 0] c = (Done (), c')" "flat c' = []" "ending c' = Silent" by auto
    from read_exact_short [of c' 2] c' have "fst (read_exact 2 c') = Hang" by (simp add: at_end_def)
    with c'(1) show ?thesis by (auto simp: socks5_handshake_def net_bind_def split: prod.split)
  qed
  ultimately show ?thesis by (simp add: handshake_def split: protocol.split)
qed

text \<open>
  A proxy that accepts the connection and then stays silent blocks a connect for ever,
  whatever its time limit, because the limit covers the TCP connect only; the handshake on
  a warm connection has its own limit and fails instead.
\<close>

theorem silent_proxy_blocks_connect:
  assumes "dial (proxy_addr px) = Some (t, Some c)" "t \<le> limit"
    and "flat c = []" "ending c = Silent" "writes_left c \<noteq> Some 0"
  shows "connect_through_proxy dial px target tport limit = Hang
    \<and> handshake_on_stream c px target tport = Failure WarmTimedOut"
  using assms(1,2) handshake_silent [OF assms(3-5), of "protocol px" target tport]
  by (auto simp: connect_through_proxy_def handshake_on_stream_def tunnel_def split: prod.split)

theorem silent_proxy_blocks_connect_witness:
  "connect_to_target (\<lambda>_. Some (5, Some (peer [] Silent))) (proxy_new ''p'' 80 Socks5) ''a.io'' 443 = Hang"
  unfolding connect_to_target_def
  using silent_proxy_blocks_connect [of "\<lambda>_. Some (5, Some (peer [] Silent))" "proxy_new ''p'' 80 Socks5"
      5 "peer [] Silent" 10000] by simp

text \<open>
  C19: for both protocols, whether a connect succeeds, fails (and with which error) or blocks
  does not depend on how the network cuts the answers of the proxy into segments.
\<close>

theorem connect_segmentation_free:
  assumes "alike c c'" "t \<le> limit"
  shows "(connect_through_proxy (\<lambda>_. Some (t, Some c)) px h p limit = Failure e \<longleftrightarrow>
         connect_through_proxy (\<lambda>_. Some (t, Some c')) px h p limit = Failure e)
    \<and> (connect_through_proxy (\<lambda>_. Some (t, Some c)) px h p limit = Hang \<longleftrightarrow>
         connect_through_proxy (\<lambda>_. Some (t, Some c')) px h p limit = Hang)"
  using any_tunnel.tunnel_alike(2,3) [OF assms(1), of "protocol px" h p] assms(2)
  by (simp_all add: connect_through_proxy_def)

theorem connect_segmentation_free_witness:
  "connect_through_proxy (\<lambda>_. Some (0, Some (peer [[1, 2]] Closed))) (proxy_new ''p'' 80 Http) ''a.io'' 443 10 = Hang \<longleftrightarrow>
   connect_through_proxy (\<lambda>_. Some (0, Some (peer [[1], [2]] Closed))) (proxy_new ''p'' 80 Http) ''a.io'' 443 10 = Hang"
  by (rule connect_segmentation_free [THEN conjunct2]) (simp_all add: alike_def)

lemma http_done:
  assumes "find_header_end s = Some e" "length s \<le> 1024" "judge_header (take e s) = Done ()" "s \<noteq> []"
  shows "\<exists>c. http_connect_handshake h p (peer (s # segs) en) = (Done (), c) \<and> flat c = concat segs"
proof -
  let ?c = "(peer (s # segs) en)\<lparr>sent := bytes_of (connect_request h p)\<rparr>"
  let ?d = "?c\<lparr>inbox := map (\<lambda>s. (1, s)) segs, waited := 1\<rparr>"
  have "sock_read 1024 ?c = (Done s, ?d)"
    using assms(2,4) by (simp add: sock_read_def peer_def)
  then have "http_loop [] ?c = (Done (), ?d)"
    using assms by (subst http_loop.simps) simp
  moreover have "flat ?d = concat segs" by (simp add: flat_def comp_def)
  ultimately show ?thesis
    by (simp add: http_connect_handshake_def net_bind_def sock_write_def peer_def)
qed

text \<open>
  Bytes of the target that arrive in the same segment as the end of the CONNECT response
  are lost to the tunnel; the same bytes in a segment of their own are kept.
\<close>

theorem early_tunnel_bytes_are_lost:
  assumes "payload \<noteq> []" "length payload \<le> 1000"
  shows "(\<exists>c. http_connect_handshake h p (peer [response_200 @ payload] Silent) = (Done (), c) \<and> flat c = [])
    \<and> (\<exists>c. http_connect_handshake h p (peer [response_200, payload] Silent) = (Done (), c) \<and> flat c = payload)"
proof
  have "find_header_end (response_200 @ payload) = Some 19"
    by (rule find_header_end_append) (rule response_200_facts)
  moreover have "judge_header (take 19 (response_200 @ payload)) = Done ()"
    by (simp add: judge_response_200 response_200_facts(2))
  ultimately show "\<exists>c. http_connect_handshake h p (peer [response_200 @ payload] Silent) = (Done (), c) \<and> flat c = []"
    using http_done [of "response_200 @ payload" 19 h p "[]" Silent] assms response_200_facts(2) by simp
  show "\<exists>c. http_connect_handshake h p (peer [response_200, payload] Silent) = (Done (), c) \<and> flat c = payload"
    using http_done [of response_200 19 h p "[payload]" Silent] response_200_facts judge_response_200
    by (simp add: take_all)
qed

theorem early_tunnel_bytes_are_lost_witness:
  "\<exists>c. http_connect_handshake ''a.io'' 25 (peer [response_200 @ [50]] Silent) = (Done (), c) \<and> flat c = []"
  using early_tunnel_bytes_are_lost [of "[50]" "''a.io''" 25] by simp

section \<open>Keep-alive\<close>

text \<open>
  The options of a socket that \<open>set_tcp_keepalive\<close> asks for; the kernel may refuse, which is only
  logged.  The number of probes is not set: it is what the kernel has by default.
\<close>

record keepalive_options =
  ka_enabled :: bool
  ka_idle :: nat
  ka_interval :: nat

definition set_tcp_keepalive :: "bool \<Rightarrow> nat \<Rightarrow> nat \<Rightarrow> keepalive_options \<Rightarrow> keepalive_options" where
  "set_tcp_keepalive accepted idle_secs interval_secs opts =
     (if accepted then opts\<lparr>ka_enabled := True, ka_idle := idle_secs, ka_interval := interval_secs\<rparr> else opts)"

definition upstream_keepalive :: "bool \<Rightarrow> keepalive_options \<Rightarrow> keepalive_options" where
  "upstream_keepalive accepted = set_tcp_keepalive accepted 30 15"

text \<open>Seconds of silence after which the kernel gives a dead connection up.\<close>

definition dead_after :: "nat \<Rightarrow> keepalive_options \<Rightarrow> nat option" where
  "dead_after probes opts = (if ka_enabled opts then Some (ka_idle opts + probes * ka_interval opts) else None)"

lemma keepalive_detection:
  "dead_after 3 (upstream_keepalive True opts) = Some 75" "dead_after 9 (upstream_keepalive True opts) = Some 165"
  by (simp_all add: upstream_keepalive_def set_tcp_keepalive_def dead_after_def)

end
