(* ===== verification/Transparent.thy ===== *)
theory Transparent
  imports State Sniff Upstream
begin

text \<open>
  \<open>src/proxy/transparent.rs\<close>: the handler of one client connection and the listener that
  starts the handlers.  A handler is a state machine whose phases are the points where the
  code awaits; between two of its steps any other task may change the shared state.  The
  kernel (original destination, peeked bytes, readiness of warm connections), the network
  and the clock are the inputs of its steps.  A panic ends the whole process, as the release
  profile of \<open>Cargo.toml\<close> has it (\<open>panic = "abort"\<close>).
\<close>

section \<open>The original destination\<close>

text \<open>
  What \<open>getsockopt(SO_ORIGINAL_DST)\<close> fills in: the four address bytes and the two port bytes
  in network order, \<open>None\<close> when it fails.
\<close>

type_synonym sockopt = "((u8 \<times> u8 \<times> u8 \<times> u8) \<times> u8 \<times> u8) option"

fun ipv4_of_bytes :: "u8 \<times> u8 \<times> u8 \<times> u8 \<Rightarrow> u32" where
  "ipv4_of_bytes (a, b, c, d) =
     of_nat (((unat a * 256 + unat b) * 256 + unat c) * 256 + unat d)"

definition show_v4 :: "u32 \<Rightarrow> string" where
  "show_v4 w = (let n = unat w in
     show_ipv4 (n div 16777216) (n div 65536 mod 256) (n div 256 mod 256) (n mod 256))"

definition get_original_dst :: "sockopt \<Rightarrow> (u32 \<times> u16) option" where
  "get_original_dst so =
     (case so of None \<Rightarrow> None
      | Some (ip, hi, lo) \<Rightarrow> Some (ipv4_of_bytes ip, of_nat (be16 hi lo)))"

section \<open>The handler\<close>

record request =
  target_host :: string
  target_port :: u16

definition is_https :: "request \<Rightarrow> bool" where
  "is_https rq \<longleftrightarrow> target_port rq = 443"

text \<open>
  \<open>Selecting n\<close> is the head of the loop at attempt \<open>n\<close>, with the key selected from the sticky
  session; \<open>Waiting\<close> remembers how often \<open>first_ready\<close> had been signalled when it began to
  wait and its deadline; \<open>Connecting\<close> carries the outcome the connect will come to.
\<close>

datatype phase =
  Accepted
| Selecting nat "string option" request
| Waiting nat request nat nat
| Dialing nat request proxy
| Connecting nat request proxy nat "conn io"
| Relaying request proxy
| Finished

type_synonym gstate = "conn shared_state"

text \<open>A step moves on, panics, or is not possible in the phase.\<close>

datatype move = Stay | Crash gstate | Move phase gstate

definition finish :: "gstate \<Rightarrow> move" where
  "finish st = Move Finished (st\<lparr>active_connections := active_connections st - 1\<rparr>)"

definition host_of :: "sniffed_target \<Rightarrow> u32 \<Rightarrow> string" where
  "host_of t ip = (case t of TlsSni d \<Rightarrow> d | HttpHost h \<Rightarrow> h | Unknown \<Rightarrow> show_v4 ip)"

text \<open>The key of the sticky session, if its proxy is in the pool and good enough for HTTPS.\<close>

definition sticky_choice :: "request \<Rightarrow> string option \<Rightarrow> gstate \<Rightarrow> string option" where
  "sticky_choice rq r st =
     (case r of
        None \<Rightarrow> None
      | Some key \<Rightarrow>
          (case tbl_get (proxies st) key of
             None \<Rightarrow> None
           | Some p \<Rightarrow> if \<not> is_https rq \<or> tls_clean p = Some True then Some key else None))"

definition accept_request ::
  "chrono_limits \<Rightarrow> clock \<Rightarrow> sockaddr \<Rightarrow> sockopt \<Rightarrow> u8 list option \<Rightarrow> gstate \<Rightarrow> move" where
  "accept_request cl now client so peeked st =
     (case get_original_dst so of
        None \<Rightarrow> Move Finished st
      | Some (ip, prt) \<Rightarrow>
          (case peeked of
             None \<Rightarrow> Move Finished st
           | Some bs \<Rightarrow>
               (case sniff (take 4096 bs) of
                  Panic \<Rightarrow> Crash st
                | Ret t \<Rightarrow>
                    (let rq = \<lparr>target_host = host_of t ip, target_port = prt\<rparr>;
                         st = st\<lparr>total_requests := total_requests st + 1,
                                 active_connections := active_connections st + 1\<rparr>
                     in case sticky_get cl now client (sticky_sessions st) of
                          Panic \<Rightarrow> Crash st
                        | Ret (r, m) \<Rightarrow>
                            (let st = st\<lparr>sticky_sessions := m\<rparr>
                             in Move (Selecting 0 (sticky_choice rq r st) rq) st)))))"

definition fresh_proxy :: "sampler \<Rightarrow> clock \<Rightarrow> request \<Rightarrow> gstate \<Rightarrow> proxy option comp" where
  "fresh_proxy rng now rq st =
     (if is_https rq then select_best_for_tls rng now st else select_best rng now st)"

definition choose_proxy ::
  "sampler \<Rightarrow> clock \<Rightarrow> sockaddr \<Rightarrow> nat \<Rightarrow> string option \<Rightarrow> request \<Rightarrow> gstate \<Rightarrow> proxy option comp"
where
  "choose_proxy rng now client attempt selected rq st =
     (case (if 0 < attempt then None else selected) of
        Some key \<Rightarrow> Ret (tbl_get (proxies st) key)
      | None \<Rightarrow>
          (if attempt = 1 then
             (case get_backup client (sticky_sessions st) of
                Some backup \<Rightarrow> Ret (tbl_get (proxies st) backup)
              | None \<Rightarrow> fresh_proxy rng now rq st)
           else fresh_proxy rng now rq st))"

definition select_step ::
  "sampler \<Rightarrow> clock \<Rightarrow> sockaddr \<Rightarrow> nat \<Rightarrow> string option \<Rightarrow> request \<Rightarrow> gstate \<Rightarrow> move" where
  "select_step rng now client attempt selected rq st =
     (case choose_proxy rng now client attempt selected rq st of
        Panic \<Rightarrow> Crash st
      | Ret (Some p) \<Rightarrow> Move (Dialing attempt rq p) st
      | Ret None \<Rightarrow> Move (Waiting attempt rq (first_ready st) (inst now + secs 10)) st)"

text \<open>\<open>timeout(10s, first_ready.notified())\<close>, and the selection after it.\<close>

definition wake_step ::
  "sampler \<Rightarrow> clock \<Rightarrow> nat \<Rightarrow> request \<Rightarrow> nat \<Rightarrow> nat \<Rightarrow> gstate \<Rightarrow> move" where
  "wake_step rng now attempt rq seen deadline st =
     (if seen < first_ready st then
        (case select_best rng now st of
           Panic \<Rightarrow> Crash st
         | Ret (Some p) \<Rightarrow> Move (Dialing attempt rq p) st
         | Ret None \<Rightarrow> finish st)
      else if deadline \<le> inst now then finish st
      else Stay)"

definition dial_step ::
  "(conn \<Rightarrow> recv_outcome) \<Rightarrow> network \<Rightarrow> clock \<Rightarrow> nat \<Rightarrow> request \<Rightarrow> proxy \<Rightarrow> gstate \<Rightarrow> move" where
  "dial_step pk dial now attempt rq p st =
     (case warm_take pk now (proxy_key p) (warm_pool st) of
        (Some warm_stream, wp) \<Rightarrow>
          Move (Connecting attempt rq p (inst now)
                 (handshake_on_stream warm_stream p (target_host rq) (target_port rq)))
               (st\<lparr>warm_pool := wp\<rparr>)
      | (None, wp) \<Rightarrow>
          Move (Connecting attempt rq p (inst now)
                 (connect_to_target dial p (target_host rq) (target_port rq)))
               (st\<lparr>warm_pool := wp\<rparr>))"

definition max_retries :: nat where
  "max_retries = 3"

definition elapsed_ms :: "clock \<Rightarrow> nat \<Rightarrow> nat" where
  "elapsed_ms now start = (inst now - start) div 1000000"

definition result_step ::
  "clock \<Rightarrow> sockaddr \<Rightarrow> nat \<Rightarrow> request \<Rightarrow> proxy \<Rightarrow> nat \<Rightarrow> conn io \<Rightarrow> gstate \<Rightarrow> move" where
  "result_step now client attempt rq p start r st =
     (case r of
        Hang \<Rightarrow> Stay
      | Done upstream \<Rightarrow>
          (let st = state_success (proxy_key p) (f_of_nat (elapsed_ms now start)) now st;
               st = st\<lparr>sticky_sessions :=
                         set_or_touch now client (proxy_key p) (sticky_sessions st)\<rparr>
           in Move (Relaying rq p) st)
      | Failure e \<Rightarrow>
          (let st = state_fail (proxy_key p) now st
           in if attempt + 1 < max_retries then Move (Selecting (attempt + 1) None rq) st
              else finish st))"

text \<open>
  The inputs of a step; the relay ends when a side closes, on an error or after 300 seconds,
  and the handler treats all three alike.
\<close>

datatype input =
  IRequest chrono_limits clock sockopt "u8 list option"
| ISelect sampler clock
| IDial "conn \<Rightarrow> recv_outcome" network clock
| IResult clock
| IRelayEnd

fun handler_step :: "input \<Rightarrow> sockaddr \<Rightarrow> phase \<Rightarrow> gstate \<Rightarrow> move" where
  "handler_step (IRequest cl now so peeked) client Accepted st =
     accept_request cl now client so peeked st"
| "handler_step (ISelect rng now) client (Selecting n sel rq) st =
     select_step rng now client n sel rq st"
| "handler_step (ISelect rng now) client (Waiting n rq seen deadline) st =
     wake_step rng now n rq seen deadline st"
| "handler_step (IDial pk dial now) client (Dialing n rq p) st =
     dial_step pk dial now n rq p st"
| "handler_step (IResult now) client (Connecting n rq p start r) st =
     result_step now client n rq p start r st"
| "handler_step IRelayEnd client (Relaying rq p) st = finish st"
| "handler_step _ client _ st = Stay"

section \<open>The listener and the other tasks\<close>

text \<open>
  The running gateway: the shared state, the live handlers with their clients, the free
  permits of the semaphore, and whether a panic has aborted the process.
\<close>

record gateway =
  shared :: gstate
  handlers :: "(sockaddr \<times> phase) list"
  permits :: nat
  aborted :: bool

definition gateway_start :: "nat \<Rightarrow> gstate \<Rightarrow> gateway" where
  "gateway_start max_connections st =
     \<lparr>shared = st, handlers = [], permits = max_connections, aborted = False\<rparr>"

definition accept_client :: "sockaddr \<Rightarrow> gateway \<Rightarrow> gateway" where
  "accept_client client g =
     (if 0 < permits g
      then g\<lparr>handlers := handlers g @ [(client, Accepted)], permits := permits g - 1\<rparr>
      else g)"

definition remove_at :: "nat \<Rightarrow> 'a list \<Rightarrow> 'a list" where
  "remove_at i xs = take i xs @ drop (Suc i) xs"

text \<open>
  \<open>other_task\<close> is whatever the health checker, the source manager, the web API and the
  clean-up tasks do to the shared state; none of them touches the counter of active
  connections.
\<close>

inductive gateway_step :: "gateway \<Rightarrow> gateway \<Rightarrow> bool" where
  accept: "\<not> aborted g \<Longrightarrow> gateway_step g (accept_client client g)"
| moves: "\<not> aborted g \<Longrightarrow> i < length (handlers g) \<Longrightarrow> handlers g ! i = (client, ph)
     \<Longrightarrow> handler_step inp client ph (shared g) = Move ph' st'
     \<Longrightarrow> gateway_step g (g\<lparr>shared := st', handlers := (handlers g)[i := (client, ph')]\<rparr>)"
| crash: "\<not> aborted g \<Longrightarrow> i < length (handlers g) \<Longrightarrow> handlers g ! i = (client, ph)
     \<Longrightarrow> handler_step inp client ph (shared g) = Crash st'
     \<Longrightarrow> gateway_step g (g\<lparr>shared := st', aborted := True\<rparr>)"
| ends: "\<not> aborted g \<Longrightarrow> i < length (handlers g) \<Longrightarrow> handlers g ! i = (client, Finished)
     \<Longrightarrow> gateway_step g (g\<lparr>handlers := remove_at i (handlers g), permits := permits g + 1\<rparr>)"
| other_task: "\<not> aborted g \<Longrightarrow> active_connections st' = active_connections (shared g)
     \<Longrightarrow> gateway_step g (g\<lparr>shared := st'\<rparr>)"

inductive gateway_reachable :: "nat \<Rightarrow> gstate \<Rightarrow> gateway \<Rightarrow> bool" for max_connections st0 where
  start: "gateway_reachable max_connections st0 (gateway_start max_connections st0)"
| step: "gateway_reachable max_connections st0 g \<Longrightarrow> gateway_step g g'
     \<Longrightarrow> gateway_reachable max_connections st0 g'"

inductive_cases gateway_stepE: "gateway_step g g'"

section \<open>The counter of active connections\<close>

text \<open>What a handler in a phase contributes to \<open>active_connections\<close>.\<close>

fun weight :: "phase \<Rightarrow> nat" where
  "weight Accepted = 0"
| "weight Finished = 0"
| "weight _ = 1"

definition busy :: "gateway \<Rightarrow> nat" where
  "busy g = sum_list (map (weight \<circ> snd) (handlers g))"

lemma active_frame [simp]:
  "active_connections (state_success k l now st) = active_connections st"
  "active_connections (state_fail k now st) = active_connections st"
  by (simp_all add: state_success_def state_fail_def)

lemmas step_defs = select_step_def wake_step_def dial_step_def result_step_def finish_def

lemma accept_request_move:
  "accept_request cl now client so peeked st = Move ph' st' \<Longrightarrow>
     active_connections st' = active_connections st + of_nat (weight ph')"
  by (auto simp: accept_request_def Let_def split: option.splits comp.splits)

lemma step_move_active:
  "handler_step inp client ph st = Move ph' st' \<Longrightarrow>
     active_connections st' + of_nat (weight ph) = active_connections st + of_nat (weight ph')"
  by (cases "(inp, client, ph, st)" rule: handler_step.cases)
    (auto simp: step_defs Let_def accept_request_move
       split: comp.splits option.splits if_splits io.splits prod.splits)

lemma sum_list_remove_at:
  "i < length xs \<Longrightarrow> sum_list (map f (remove_at i xs)) + f (xs ! i) = (sum_list (map f xs) :: nat)"
proof -
  assume i: "i < length xs"
  have "sum_list (map f xs) = sum_list (map f (take i xs @ xs ! i # drop (Suc i) xs))"
    using id_take_nth_drop [OF i] by simp
  then show ?thesis by (simp add: remove_at_def)
qed

lemma sum_list_set_at:
  "i < length xs \<Longrightarrow> sum_list (map f (xs[i := y])) + f (xs ! i) = (sum_list (map f xs) :: nat) + f y"
proof -
  assume i: "i < length xs"
  have "sum_list (map f xs) = sum_list (map f (take i xs @ xs ! i # drop (Suc i) xs))"
    using id_take_nth_drop [OF i] by simp
  then show ?thesis using i by (simp add: upd_conv_take_nth_drop)
qed

lemma count_move:
  assumes "(a' :: u64) + of_nat w = of_nat b + of_nat w'" "b' + w = b + w'"
  shows "a' = of_nat b'"
proof -
  have "(of_nat b' :: u64) + of_nat w = of_nat b + of_nat w'" using assms(2) by (metis of_nat_add)
  with assms(1) show ?thesis by (metis add_right_imp_eq)
qed

text \<open>
  A panic ends the process in the middle of a step: only the first step of a handler counts before
  it can panic, and that handler still stands among the new ones.
\<close>

lemma step_crash_active:
  assumes "handler_step inp client ph st = Crash st'"
  shows "active_connections st' = active_connections st
    \<or> ph = Accepted \<and> active_connections st' = active_connections st + 1"
  using assms
  by (cases "(inp, client, ph, st)" rule: handler_step.cases)
    (auto simp: step_defs accept_request_def Let_def
       split: comp.splits option.splits if_splits io.splits prod.splits)

definition killed_counted :: "gateway \<Rightarrow> nat \<Rightarrow> bool" where
  "killed_counted g k \<longleftrightarrow> k = 0
     \<or> k = 1 \<and> aborted g \<and> (\<exists>client. (client, Accepted) \<in> set (handlers g))"

definition accounted :: "nat \<Rightarrow> gateway \<Rightarrow> bool" where
  "accounted n g \<longleftrightarrow>
     (\<exists>k. killed_counted g k \<and> active_connections (shared g) = of_nat (busy g + k))
     \<and> permits g + length (handlers g) = n"

lemma accounted_running:
  "accounted n g \<Longrightarrow> \<not> aborted g \<Longrightarrow> active_connections (shared g) = of_nat (busy g)"
  by (auto simp: accounted_def killed_counted_def)

lemma accountedI:
  "active_connections (shared g) = of_nat (busy g) \<Longrightarrow> permits g + length (handlers g) = n \<Longrightarrow> accounted n g"
  by (auto simp: accounted_def killed_counted_def intro!: exI [of _ 0])

lemma accounted_step:
  assumes "gateway_step g g'" "accounted n g" shows "accounted n g'"
  using assms(1)
proof (cases rule: gateway_step.cases)
  case (accept client)
  with assms(2) accounted_running [OF assms(2)] show ?thesis
    by (intro accountedI) (auto simp: accounted_def accept_client_def busy_def)
next
  case (moves i client ph inp ph' st')
  have "busy g' + weight ph = busy g + weight ph'"
    using sum_list_set_at [OF moves(3), of "weight \<circ> snd" "(client, ph')"] moves(1,4)
    by (simp add: busy_def)
  moreover have "active_connections (shared g) = of_nat (busy g)"
    using accounted_running [OF assms(2) moves(2)] .
  ultimately have "active_connections st' = of_nat (busy g')"
    using count_move step_move_active [OF moves(5)] by metis
  with assms(2) moves(1) show ?thesis by (intro accountedI) (simp_all add: accounted_def)
next
  case (crash i client ph inp st')
  have n: "active_connections (shared g) = of_nat (busy g)" using accounted_running [OF assms(2) crash(2)] .
  have same: "busy g' = busy g" "permits g' + length (handlers g') = n"
    using assms(2) crash(1) by (simp_all add: busy_def accounted_def)
  from step_crash_active [OF crash(5)] show ?thesis
  proof
    assume "active_connections st' = active_connections (shared g)"
    with n same crash(1) show ?thesis by (intro accountedI) simp_all
  next
    assume c: "ph = Accepted \<and> active_connections st' = active_connections (shared g) + 1"
    with crash(3,4) have "(client, Accepted) \<in> set (handlers g)" by (metis nth_mem)
    then have "killed_counted g' 1" unfolding killed_counted_def by (intro disjI2 conjI exI [of _ client]) (simp_all add: crash(1))
    moreover have "active_connections (shared g') = of_nat (busy g' + 1)"
      using c n by (simp add: crash(1) busy_def)
    ultimately show ?thesis unfolding accounted_def using same(2) by blast
  qed
next
  case (ends i client)
  have "busy g' = busy g"
    using sum_list_remove_at [OF ends(3), of "weight \<circ> snd"] ends(1,4) by (simp add: busy_def)
  with assms(2) accounted_running [OF assms(2) ends(2)] ends(1,2,3) show ?thesis
    by (intro accountedI) (simp_all add: accounted_def remove_at_def)
next
  case (other_task st')
  with assms(2) accounted_running [OF assms(2)] show ?thesis
    by (intro accountedI) (simp_all add: accounted_def busy_def)
qed

lemma accounted_reachable:
  assumes "gateway_reachable n st0 g" "active_connections st0 = 0" shows "accounted n g"
  using assms(1)
proof (induction rule: gateway_reachable.induct)
  case start
  with assms(2) show ?case by (intro accountedI) (simp_all add: gateway_start_def busy_def)
next
  case (step g g')
  then show ?case by (blast intro: accounted_step)
qed

lemma busy_le: "busy g \<le> length (handlers g)"
proof -
  have "sum_list (map (weight \<circ> snd) hs) \<le> length hs" for hs :: "(sockaddr \<times> phase) list"
  proof (induction hs)
    case (Cons h hs)
    have "weight (snd h) \<le> 1" by (cases "snd h") auto
    with Cons show ?case by simp
  qed simp
  then show ?thesis by (simp add: busy_def)
qed

section \<open>A handler makes finitely many steps\<close>

fun steps_left :: "phase \<Rightarrow> nat" where
  "steps_left Accepted = 14"
| "steps_left (Selecting n _ _) = 4 * (2 - n) + 5"
| "steps_left (Waiting n _ _ _) = 4 * (2 - n) + 4"
| "steps_left (Dialing n _ _) = 4 * (2 - n) + 3"
| "steps_left (Connecting n _ _ _ _) = 4 * (2 - n) + 2"
| "steps_left (Relaying _ _) = 1"
| "steps_left Finished = 0"

lemma step_decreases:
  "handler_step inp client ph st = Move ph' st' \<Longrightarrow> steps_left ph' < steps_left ph"
  by (cases "(inp, client, ph, st)" rule: handler_step.cases)
    (auto simp: step_defs accept_request_def Let_def max_retries_def
       split: comp.splits option.splits if_splits io.splits prod.splits)

text \<open>A handler's run: its moves, with any change of the shared state in between.\<close>

inductive handler_run :: "sockaddr \<Rightarrow> phase \<Rightarrow> nat \<Rightarrow> phase \<Rightarrow> bool" for client where
  none: "handler_run client ph 0 ph"
| move: "handler_run client ph n ph' \<Longrightarrow> handler_step inp client ph' st = Move ph'' st'
     \<Longrightarrow> handler_run client ph (Suc n) ph''"

lemma run_decreases: "handler_run client ph n ph' \<Longrightarrow> steps_left ph' + n \<le> steps_left ph"
  by (induction rule: handler_run.induct) (auto dest: step_decreases)

fun attempt_of :: "phase \<Rightarrow> nat option" where
  "attempt_of (Selecting n _ _) = Some n"
| "attempt_of (Waiting n _ _ _) = Some n"
| "attempt_of (Dialing n _ _) = Some n"
| "attempt_of (Connecting n _ _ _ _) = Some n"
| "attempt_of _ = None"

definition attempt_ok :: "phase \<Rightarrow> bool" where
  "attempt_ok ph \<longleftrightarrow> (case attempt_of ph of Some n \<Rightarrow> n < 3 | None \<Rightarrow> True)"

lemma step_attempt:
  "handler_step inp client ph st = Move ph' st' \<Longrightarrow> attempt_ok ph \<Longrightarrow> attempt_ok ph'"
  by (cases "(inp, client, ph, st)" rule: handler_step.cases)
    (auto simp: step_defs accept_request_def Let_def max_retries_def attempt_ok_def
       split: comp.splits option.splits if_splits io.splits prod.splits)

lemma run_attempt: "handler_run client ph n ph' \<Longrightarrow> attempt_ok ph \<Longrightarrow> attempt_ok ph'"
  by (induction rule: handler_run.induct) (auto dest: step_attempt)

section \<open>A handler whose upstream never answers\<close>

lemma hung_stays [simp]: "handler_step inp client (Connecting n rq p start Hang) st = Stay"
  by (cases inp) (auto simp: result_step_def)

section \<open>Properties\<close>

text \<open>
  C5: in every reachable state of the gateway, under every interleaving of its handlers and
  of the other tasks, handlers and free permits add up to the connection limit, and the counter
  of active connections is exactly the number of handlers between their first count and their
  last: it never leaks and never underflows, whatever way a handler ends.  In a process that a
  panic has aborted it may be one more, if the handler that the panic killed had just counted
  itself in its first step.
\<close>

theorem active_connections_exact:
  assumes "gateway_reachable n st0 g" "active_connections st0 = 0"
  shows "permits g + length (handlers g) = n \<and> busy g \<le> n
    \<and> (\<not> aborted g \<longrightarrow> active_connections (shared g) = of_nat (busy g))
    \<and> (\<exists>k. active_connections (shared g) = of_nat (busy g + k)
        \<and> (k = 0 \<or> k = 1 \<and> aborted g \<and> (\<exists>client. (client, Accepted) \<in> set (handlers g))))"
  using accounted_reachable [OF assms] accounted_running [OF accounted_reachable [OF assms]] busy_le [of g]
  by (auto simp: accounted_def killed_counted_def)

theorem active_connections_exact_witness:
  "active_connections (shared (accept_client (V4 7, 1) (gateway_start 1 state_new))) =
     of_nat (busy (accept_client (V4 7, 1) (gateway_start 1 state_new)))"
proof -
  let ?g = "accept_client (V4 7, 1) (gateway_start 1 state_new)"
  have "gateway_reachable 1 state_new ?g"
    by (rule gateway_reachable.step [OF gateway_reachable.start gateway_step.accept])
      (simp add: gateway_start_def)
  from active_connections_exact [OF this] show ?thesis
    by (simp add: state_new_def accept_client_def gateway_start_def)
qed

text \<open>
  C25: a handler makes at most fourteen moves, however the shared state changes between
  them, and never starts more than three connects.
\<close>

theorem handler_bounded:
  assumes "handler_run client Accepted n ph"
  shows "n \<le> 14 \<and> (\<forall>k rq p start r. ph = Connecting k rq p start r \<longrightarrow> k < max_retries)"
  using run_decreases [OF assms] run_attempt [OF assms]
  by (auto simp: attempt_ok_def max_retries_def)

theorem handler_bounded_witness:
  "handler_run (V4 7, 1) Accepted 1 Finished \<and> (1 :: nat) \<le> 14"
proof -
  have "handler_run (V4 7, 1) Accepted (Suc 0) Finished"
    by (rule handler_run.move [OF handler_run.none,
          where ph = Accepted and inp = "IRequest \<lparr>delta_max = 0, utc_min = 0\<rparr> \<lparr>inst = 0, utc = 0\<rparr> None None"
            and st = state_new and st' = state_new])
      (simp add: accept_request_def get_original_dst_def)
  with handler_bounded [OF this] show ?thesis by simp
qed

text \<open>
  What keeps a step from panicking: an index drawn by the sampler is an index of the weights,
  and the configured lifetime of the sticky sessions is within the range of the clock.
\<close>

fun input_fits :: "u64 \<Rightarrow> input \<Rightarrow> bool" where
  "input_fits ttl (IRequest cl now so peeked) \<longleftrightarrow> ttl_fits cl now ttl"
| "input_fits ttl (ISelect rng now) \<longleftrightarrow> sampler_ok rng"
| "input_fits ttl _ \<longleftrightarrow> True"

lemma sticky_get_total:
  "ttl_fits cl now (ttl_secs m) \<Longrightarrow> sticky_get cl now client m \<noteq> Panic"
  by (simp add: sticky_get_fits)

lemma fresh_proxy_total: "sampler_ok rng \<Longrightarrow> fresh_proxy rng now rq st \<noteq> Panic"
  by (simp add: fresh_proxy_def select_best_total select_best_for_tls_total)

text \<open>
  C6: no client and no state of the pool can bring the gateway down.  As long as the
  configured lifetime of the sticky sessions is in range, no step of a handler panics: not the
  sniffing of any bytes, not the session lookup, not the selection from any pool.
\<close>

theorem handler_never_panics:
  assumes "input_fits (ttl_secs (sticky_sessions st)) inp"
  shows "handler_step inp client ph st \<noteq> Crash st'"
proof (cases "(inp, client, ph, st)" rule: handler_step.cases)
  case (1 cl now so peeked client st)
  with assms sticky_get_total show ?thesis
    by (auto simp: accept_request_def sniff_answers Let_def split: option.split comp.split)
next
  case (2 rng now client n sel rq st)
  with assms fresh_proxy_total [of rng now rq st] show ?thesis
    by (auto simp: select_step_def choose_proxy_def split: option.splits comp.splits if_splits)
next
  case (3 rng now client n rq seen deadline st)
  with assms select_best_total [of rng now st] show ?thesis
    by (auto simp: wake_step_def finish_def split: comp.split option.split)
qed (auto simp: dial_step_def result_step_def finish_def Let_def split: prod.split io.split option.split)

lemma handler_never_panics_witness:
  "handler_step (IRequest \<lparr>delta_max = 9223372036854775, utc_min = - 8334601228800000000000\<rparr>
       \<lparr>inst = 5, utc = 1700000000000000000\<rparr> (Some ((1, 2, 3, 4), 1, 187)) (Some [0x16]))
     (V4 7, 1) Accepted state_new \<noteq> Crash state_new"
  by (rule handler_never_panics)
    (simp add: ttl_fits_def state_new_def sticky_new_def sticky_with_ttl_def)

section \<open>A silent proxy\<close>

lemma gateway_move_last:
  assumes "gateway_reachable n st0 g" "\<not> aborted g" "handlers g = hs @ [(c, ph)]"
    "handler_step inp c ph (shared g) = Move ph' st'"
  shows "gateway_reachable n st0 (g\<lparr>shared := st', handlers := hs @ [(c, ph')]\<rparr>)"
proof -
  have "gateway_step g (g\<lparr>shared := st', handlers := (handlers g)[length hs := (c, ph')]\<rparr>)"
    by (rule gateway_step.moves) (use assms in simp_all)
  from gateway_reachable.step [OF assms(1) this] show ?thesis by (simp add: assms(3))
qed

text \<open>A pool with a single fresh proxy, and the states that differ from it only in counters.\<close>

definition one_proxy :: gstate where
  "one_proxy = state_new\<lparr>proxies := [(''a:80'', proxy_new ''a'' 80 Http)]\<rparr>"

definition only_proxy :: "gstate \<Rightarrow> bool" where
  "only_proxy st \<longleftrightarrow> proxies st = proxies one_proxy \<and> exclude_countries st = Some []
     \<and> connections (warm_pool st) = [] \<and> sessions (sticky_sessions st) = []"

lemma only_proxy_start: "only_proxy one_proxy"
  by (simp add: only_proxy_def one_proxy_def state_new_def warm_pool_new_def sticky_new_def
      sticky_with_ttl_def)

lemma only_proxy_selected:
  assumes "only_proxy st" shows "select_best rng now st = Ret (Some (proxy_new ''a'' 80 Http))"
proof -
  have v: "tbl_vals (proxies st) = [proxy_new ''a'' 80 Http]" "excluded st = []"
    using assms by (simp_all add: only_proxy_def one_proxy_def tbl_vals_def excluded_def state_new_def)
  have s: "status (proxy_new ''a'' 80 Http) = Some Unchecked" "is_available now (proxy_new ''a'' 80 Http)"
    by (simp_all add: proxy_new_def is_available_def)
  have "verified_top now st = []" "presumed_top now st = []"
    unfolding collect_top_n_empty v using s by simp_all
  moreover have "first_other now st = Some (proxy_new ''a'' 80 Http)"
    unfolding v using s by (simp add: country_excluded_def)
  ultimately show ?thesis unfolding select_best_eq by simp
qed

text \<open>A client of the gateway whose only proxy is silent comes to hang.\<close>

lemma client_hangs:
  assumes g: "gateway_reachable n st0 g" "\<not> aborted g" "0 < permits g" "only_proxy (shared g)"
  shows "\<exists>g' rq p. gateway_reachable n st0 g' \<and> \<not> aborted g' \<and> only_proxy (shared g')
    \<and> permits g' = permits g - 1
    \<and> handlers g' = handlers g @ [((V4 7, 1), Connecting 0 rq p 0 Hang)]"
proof -
  let ?now = "\<lparr>inst = 0, utc = 0\<rparr>" and ?c = "(V4 7, 1)" and ?p = "proxy_new ''a'' 80 Http"
  let ?so = "Some ((1, 2, 3, 4), 0, 80) :: sockopt"
  let ?dial = "\<lambda>_. Some (0, Some (peer [] Silent)) :: (nat \<times> conn option) option"
  define g0 where "g0 = g\<lparr>handlers := handlers g @ [(?c, Accepted)], permits := permits g - 1\<rparr>"
  have "g0 = accept_client ?c g" using g(3) by (simp add: g0_def accept_client_def)
  then have 0: "gateway_reachable n st0 g0"
    using gateway_reachable.step [OF g(1) gateway_step.accept [OF g(2)]] by simp
  define st1 where "st1 = (shared g)\<lparr>total_requests := total_requests (shared g) + 1,
      active_connections := active_connections (shared g) + 1\<rparr>"
  have q1: "only_proxy st1" using g(4) by (simp add: only_proxy_def st1_def)
  obtain rq where r: "handler_step (IRequest \<lparr>delta_max = 0, utc_min = 0\<rparr> ?now ?so (Some [])) ?c
      Accepted (shared g) = Move (Selecting 0 None rq) st1" "target_port rq = 80"
    using g(4) by (simp add: accept_request_def get_original_dst_def sniff_def host_of_def Let_def
        sticky_get_def sticky_choice_def be16_def only_proxy_def st1_def tbl_get_def)
  define g1 where "g1 = g0\<lparr>shared := st1, handlers := handlers g @ [(?c, Selecting 0 None rq)]\<rparr>"
  have 1: "gateway_reachable n st0 g1" unfolding g1_def
    by (rule gateway_move_last [OF 0,
          where ph = Accepted and inp = "IRequest \<lparr>delta_max = 0, utc_min = 0\<rparr> ?now ?so (Some [])"]) (use g(2) r(1) in \<open>simp_all add: g0_def\<close>)
  define g2 where "g2 = g1\<lparr>shared := st1, handlers := handlers g @ [(?c, Dialing 0 rq ?p)]\<rparr>"
  have 2: "gateway_reachable n st0 g2" unfolding g2_def
    by (rule gateway_move_last [OF 1, where ph = "Selecting 0 None rq" and inp = "ISelect (\<lambda>_. None) ?now"])
      (use g(2) r(2) only_proxy_selected [OF q1] in \<open>simp_all add: g1_def g0_def select_step_def
        choose_proxy_def fresh_proxy_def is_https_def\<close>)
  define st2 where "st2 = st1\<lparr>warm_pool := (warm_pool st1)\<lparr>wp_misses := wp_misses (warm_pool st1) + 1\<rparr>\<rparr>"
  have "connect_to_target ?dial ?p h q = Hang" for h q
    using handshake_silent [of "peer [] Silent" "protocol ?p" h q]
    by (auto simp: connect_to_target_def connect_through_proxy_def tunnel_def split: prod.split)
  then have d: "handler_step (IDial (\<lambda>_. RecvLen 1) ?dial ?now) ?c (Dialing 0 rq ?p) st1 =
      Move (Connecting 0 rq ?p 0 Hang) st2"
    using q1 by (simp add: dial_step_def warm_take_def only_proxy_def tbl_get_def st2_def)
  define g3 where "g3 = g2\<lparr>shared := st2, handlers := handlers g @ [(?c, Connecting 0 rq ?p 0 Hang)]\<rparr>"
  have 3: "gateway_reachable n st0 g3" unfolding g3_def
    by (rule gateway_move_last [OF 2, where ph = "Dialing 0 rq ?p" and inp = "IDial (\<lambda>_. RecvLen 1) ?dial ?now"]) (use g(2) d in \<open>simp_all add: g2_def g1_def g0_def\<close>)
  moreover have "only_proxy st2" using q1 by (simp add: only_proxy_def st2_def)
  ultimately show ?thesis using g(2)
    by (intro exI [of _ g3] exI [of _ rq] exI [of _ ?p]) (simp add: g3_def g2_def g1_def g0_def)
qed

definition all_hung :: "gateway \<Rightarrow> bool" where
  "all_hung g \<longleftrightarrow> (\<forall>h \<in> set (handlers g). \<exists>c k rq p start. h = (c, Connecting k rq p start Hang))"

lemma clients_hang:
  "k \<le> n \<Longrightarrow> \<exists>g. gateway_reachable n one_proxy g \<and> \<not> aborted g \<and> only_proxy (shared g)
     \<and> permits g = n - k \<and> length (handlers g) = k \<and> all_hung g"
proof (induction k)
  case 0
  show ?case
    by (rule exI [of _ "gateway_start n one_proxy"])
      (simp add: gateway_reachable.start, simp add: gateway_start_def only_proxy_start all_hung_def)
next
  case (Suc k)
  then obtain g where g: "gateway_reachable n one_proxy g" "\<not> aborted g" "only_proxy (shared g)"
    "permits g = n - k" "length (handlers g) = k" "all_hung g" by auto
  then have "0 < permits g" using Suc.prems by simp
  from client_hangs [OF g(1,2) this g(3)] g(4,5,6) Suc.prems show ?case
    by (fastforce simp: all_hung_def)
qed

lemma all_hung_step:
  assumes "gateway_step g g'" "all_hung g" "permits g = 0"
  shows "handlers g' = handlers g \<and> permits g' = 0"
proof -
  have hung: "handler_step inp c ph st = Stay \<and> ph \<noteq> Finished"
    if "i < length (handlers g)" "handlers g ! i = (c, ph)" for i c ph inp st
    using assms(2) that by (fastforce simp: all_hung_def dest: nth_mem)
  from assms(1) show ?thesis
    by (cases rule: gateway_step.cases) (use assms(3) hung in \<open>force simp: accept_client_def\<close>)+
qed

lemma all_hung_for_ever:
  "gateway_step\<^sup>*\<^sup>* g g' \<Longrightarrow> all_hung g \<Longrightarrow> permits g = 0 \<Longrightarrow>
     handlers g' = handlers g \<and> permits g' = 0"
  by (induction rule: rtranclp_induct) (auto simp: all_hung_def dest: all_hung_step)

text \<open>
  C26: one silent proxy closes the gateway.  Whatever the connection limit, a gateway whose only
  proxy accepts connections and never answers can come to a state in which as many clients as
  the limit allows are waiting, and from which no step of the gateway, no passing of time and
  no change of the pool by other tasks ever frees a permit: no client is accepted any more.
\<close>

theorem silent_proxy_closes_gateway:
  "\<exists>g. gateway_reachable n one_proxy g \<and> length (handlers g) = n
    \<and> (\<forall>g' client. gateway_step\<^sup>*\<^sup>* g g' \<longrightarrow>
        handlers g' = handlers g \<and> accept_client client g' = g')"
proof -
  obtain g where g: "gateway_reachable n one_proxy g" "permits g = 0" "length (handlers g) = n"
    "all_hung g" using clients_hang [of n n] by auto
  with all_hung_for_ever show ?thesis
    by (intro exI [of _ g]) (auto simp: accept_client_def)
qed

lemma silent_proxy_closes_gateway_witness:
  "\<exists>g. gateway_reachable 10000 one_proxy g \<and> length (handlers g) = 10000
    \<and> (\<forall>client. accept_client client g = g)"
  using silent_proxy_closes_gateway [of 10000] by blast

text \<open>
  On the first retry the recorded backup proxy is taken as it is: a backup that is no
  longer in the pool makes the handler wait for ten seconds even when other proxies are
  available, and one that is in the pool is dialled for HTTPS without asking whether it is
  TLS-clean, available or in an excluded country.
\<close>

theorem retry_trusts_backup:
  assumes "get_backup client (sticky_sessions st) = Some b"
  shows "handler_step (ISelect rng now) client (Selecting 1 None rq) st =
    (case tbl_get (proxies st) b of
       Some p \<Rightarrow> Move (Dialing 1 rq p) st
     | None \<Rightarrow> Move (Waiting 1 rq (first_ready st) (inst now + secs 10)) st)"
  using assms by (simp add: select_step_def choose_proxy_def split: option.split)

definition backup_state :: "string \<Rightarrow> gstate" where
  "backup_state b = (state_new\<lparr>proxies := [(''b:80'', (demo_proxy ''b'' ''DE'')\<lparr>tls_clean := Some False\<rparr>)],
     sticky_sessions := sticky_new\<lparr>sessions := [((V4 7, 1),
       \<lparr>ss_client_ip = (V4 7, 1), ss_proxy_key = ''a:80'', ss_backup_proxy_key = Some b,
        ss_created_at = 0, ss_last_access = 0, ss_success_count = 1\<rparr>)]\<rparr>\<rparr>)"

theorem retry_trusts_backup_witness:
  "handler_step (ISelect rng \<lparr>inst = 0, utc = 0\<rparr>) (V4 7, 1)
       (Selecting 1 None \<lparr>target_host = ''x'', target_port = 443\<rparr>) (backup_state ''b:80'') =
     Move (Dialing 1 \<lparr>target_host = ''x'', target_port = 443\<rparr>
       ((demo_proxy ''b'' ''DE'')\<lparr>tls_clean := Some False\<rparr>)) (backup_state ''b:80'')
   \<and> handler_step (ISelect rng \<lparr>inst = 0, utc = 0\<rparr>) (V4 7, 1)
       (Selecting 1 None \<lparr>target_host = ''x'', target_port = 443\<rparr>) (backup_state ''c:80'') =
     Move (Waiting 1 \<lparr>target_host = ''x'', target_port = 443\<rparr> 0 10000000000) (backup_state ''c:80'')"
proof -
  have b: "get_backup (V4 7, 1) (sticky_sessions (backup_state b)) = Some b" for b
    by (simp add: backup_state_def get_backup_def tbl_get_def)
  have t: "tbl_get (proxies (backup_state k)) ''b:80'' = Some ((demo_proxy ''b'' ''DE'')\<lparr>tls_clean := Some False\<rparr>)"
    "tbl_get (proxies (backup_state k)) ''c:80'' = None" "first_ready (backup_state k) = 0" for k
    by (simp_all add: backup_state_def tbl_get_def state_new_def)
  show ?thesis
    unfolding retry_trusts_backup [OF b] t by (simp add: secs_def)
qed

section \<open>Names of targets\<close>

lemma long_host_fails:
  assumes "protocol p = Socks5" "255 < length h"
  shows "connect_to_target dial p h prt \<noteq> Done c'" "handshake_on_stream c p h prt \<noteq> Done c'"
proof -
  have "fst (handshake (protocol p) h prt c) \<noteq> Done ()" for c
    using socks5_long_host(1) [OF assms(2), of prt c] assms(1) by (simp add: handshake_def)
  then have "tunnel (handshake (protocol p) h prt c) \<noteq> Done c'" for c
    by (auto simp: tunnel_def split: prod.split io.split) (metis fst_conv)
  moreover from this have "tunnel (r, d) \<noteq> Done c'" if "handshake (protocol p) h prt c = (r, d)" for c r d
    using that by metis
  ultimately show "connect_to_target dial p h prt \<noteq> Done c'" "handshake_on_stream c p h prt \<noteq> Done c'"
    by (auto simp: connect_to_target_def connect_through_proxy_def handshake_on_stream_def
        split: option.split prod.split io.split)
qed

text \<open>
  C34: a client can spoil any SOCKS5 proxy.  A host name of more than 255 bytes, which sniffing
  accepts, cannot be put into a SOCKS5 request, so that, whatever the network does, the attempt
  never opens a tunnel: it waits for a silent proxy for ever, or it ends in an error that is booked
  on the proxy, whose circuit breaker opens after enough of them, and counted as a rotation.  A
  fresh connection to a proxy that accepts the greeting always ends in that error.
\<close>

theorem long_host_blames_proxy:
  assumes "protocol p = Socks5" "255 < length (target_host rq)"
    and "handler_step (IDial pk dial now) client (Dialing n rq p) st = Move (Connecting n rq p start r) st1"
  shows "(r = Hang \<and> handler_step (IResult now') client (Connecting n rq p start r) st' = Stay
      \<or> (\<exists>ph st2. handler_step (IResult now') client (Connecting n rq p start r) st' = Move ph st2
          \<and> proxies st2 = tbl_modify (proxy_key p) (record_fail now') (proxies st')
          \<and> proxy_rotations st2 = proxy_rotations st' + 1 \<and> ph \<in> {Selecting (n + 1) None rq, Finished}))
    \<and> (fst (warm_take pk now (proxy_key p) (warm_pool st)) = None
        \<and> dial (proxy_addr p) = Some (ms, Some c) \<and> flat c = [5, 0] @ rest \<and> writes_left c \<noteq> Some 0
        \<longrightarrow> r \<noteq> Hang)"
proof
  have "r \<noteq> Done d" for d
    using assms(3) long_host_fails [OF assms(1,2)]
    by (auto simp: dial_step_def split: prod.splits option.splits)
  then show "r = Hang \<and> handler_step (IResult now') client (Connecting n rq p start r) st' = Stay
      \<or> (\<exists>ph st2. handler_step (IResult now') client (Connecting n rq p start r) st' = Move ph st2
          \<and> proxies st2 = tbl_modify (proxy_key p) (record_fail now') (proxies st')
          \<and> proxy_rotations st2 = proxy_rotations st' + 1 \<and> ph \<in> {Selecting (n + 1) None rq, Finished})"
    by (cases r) (auto simp: result_step_def Let_def finish_def state_fail_def)
  have "tunnel (handshake (protocol p) (target_host rq) (target_port rq) c) \<noteq> Hang"
    if "flat c = [5, 0] @ rest" "writes_left c \<noteq> Some 0"
    using socks5_long_host(2) [OF assms(2) that, of "target_port rq"] assms(1)
    by (auto simp: handshake_def tunnel_def split: prod.split io.split)
  then show "fst (warm_take pk now (proxy_key p) (warm_pool st)) = None
        \<and> dial (proxy_addr p) = Some (ms, Some c) \<and> flat c = [5, 0] @ rest \<and> writes_left c \<noteq> Some 0
        \<longrightarrow> r \<noteq> Hang"
    using assms(3)
    by (auto simp: dial_step_def connect_to_target_def connect_through_proxy_def
        split: prod.splits option.splits if_splits)
qed

lemma long_host_blames_proxy_witness:
  "\<exists>r st2. handler_step (IDial (\<lambda>_. RecvFailed False) (\<lambda>_. Some (1, Some (peer [[5, 0]] Silent))) \<lparr>inst = 0, utc = 0\<rparr>)
      (V4 0, 0) (Dialing 0 \<lparr>target_host = replicate 300 (CHR ''a''), target_port = 443\<rparr> (proxy_new ''h'' 80 Socks5))
      state_new =
    Move (Connecting 0 \<lparr>target_host = replicate 300 (CHR ''a''), target_port = 443\<rparr> (proxy_new ''h'' 80 Socks5) 0 r)
      (state_new\<lparr>warm_pool := (warm_pool state_new)\<lparr>wp_misses := 1\<rparr>\<rparr>)
    \<and> handler_step (IResult \<lparr>inst = 1, utc = 0\<rparr>) (V4 0, 0)
      (Connecting 0 \<lparr>target_host = replicate 300 (CHR ''a''), target_port = 443\<rparr> (proxy_new ''h'' 80 Socks5) 0 r)
      state_new = Move (Selecting 1 None \<lparr>target_host = replicate 300 (CHR ''a''), target_port = 443\<rparr>) st2
    \<and> proxy_rotations st2 = 1"
proof -
  let ?h = "replicate 300 (CHR ''a'')" and ?p = "proxy_new ''h'' 80 Socks5" and ?c = "peer [[5, 0]] Silent"
  let ?rq = "\<lparr>target_host = ?h, target_port = 443\<rparr>" and ?now = "\<lparr>inst = 0, utc = 0\<rparr>"
  let ?dial = "\<lambda>_. Some (1, Some ?c)" and ?st = "state_new :: gstate"
  let ?r = "connect_to_target ?dial ?p ?h 443"
  have cold: "warm_take (\<lambda>_. RecvFailed False) ?now k (warm_pool ?st) = (None, (warm_pool ?st)\<lparr>wp_misses := 1\<rparr>)" for k
    by (simp add: warm_take_def state_new_def warm_pool_new_def tbl_get_def)
  then have 1: "handler_step (IDial (\<lambda>_. RecvFailed False) ?dial ?now) (V4 0, 0) (Dialing 0 ?rq ?p) ?st =
      Move (Connecting 0 ?rq ?p 0 ?r) (?st\<lparr>warm_pool := (warm_pool ?st)\<lparr>wp_misses := 1\<rparr>\<rparr>)"
    by (simp add: dial_step_def)
  have f: "flat ?c = [5, 0] @ []" "writes_left ?c \<noteq> Some 0" by (simp_all add: flat_def peer_def)
  have s: "protocol ?p = Socks5" "255 < length (target_host ?rq)" by (simp_all add: proxy_new_def)
  note b = long_host_blames_proxy [OF s 1, where now' = "\<lparr>inst = 1, utc = 0\<rparr>" and st' = ?st and ms = 1
      and c = ?c and rest = "[]"]
  then have "?r \<noteq> Hang" using cold f by (metis fst_conv)
  with b obtain ph st2 where 2: "handler_step (IResult \<lparr>inst = 1, utc = 0\<rparr>) (V4 0, 0)
      (Connecting 0 ?rq ?p 0 ?r) ?st = Move ph st2" "proxy_rotations st2 = proxy_rotations ?st + 1" by blast
  moreover have "?r \<noteq> Done d" for d using long_host_fails(1) [OF s] by simp
  ultimately have "ph = Selecting 1 None ?rq"
    using \<open>?r \<noteq> Hang\<close> by (cases ?r) (auto simp: result_step_def Let_def max_retries_def)
  with 1 2 show ?thesis by (auto simp: state_new_def)
qed

text \<open>
  The server name of a ClientHello goes into the CONNECT request as it is: one with a line break
  splits the request line, and what follows the break is a header line of the client's choice.
\<close>

lemma lines_of_request: "CHR 10 \<notin> set a \<Longrightarrow> lines_from acc (a @ CHR 10 # b) = strip_cr (rev acc @ a) # lines_from [] b"
  by (induction a arbitrary: acc) auto

theorem server_name_splits_request:
  assumes "CHR 10 \<notin> set a" "hello_ok hdr sid suites comps exts_len es name"
    and "name = bytes_of (a @ crlf @ b)" "length name < 65527" "utf8_ok name"
  shows "sniff (client_hello hdr sid suites comps exts_len es name) = Ret (TlsSni (a @ crlf @ b)) \<and>
    (\<exists>ls. rust_lines (connect_request (a @ crlf @ b) prt) = (''CONNECT '' @ a) # ls)"
proof
  let ?buf = "client_hello hdr sid suites comps exts_len es name"
  have "?buf \<noteq> []" "?buf ! 0 = 0x16"
    using assms(2) by (auto simp: hello_ok_def client_hello_def nth_append)
  then show "sniff ?buf = Ret (TlsSni (a @ crlf @ b))"
    using parse_client_hello [OF assms(2,4), of "[]"] assms(5)
    by (simp add: sniff_def idx_def from_utf8_def assms(3))
  let ?r = "''CONNECT '' @ a @ [CHR 13]"
  have "connect_request (a @ crlf @ b) prt = ?r @ CHR 10 # (b @ '':'' @ show_u16 prt @ '' HTTP/1.1'' @ crlf
      @ ''Host: '' @ host_port (a @ crlf @ b) prt @ crlf @ ''Proxy-Connection: keep-alive'' @ crlf @ crlf)"
    by (simp add: connect_request_def host_port_def crlf_def)
  moreover have "CHR 10 \<notin> set ?r" "strip_cr ?r = ''CONNECT '' @ a"
    using assms(1) by (simp_all add: strip_cr_def butlast_append)
  ultimately show "\<exists>ls. rust_lines (connect_request (a @ crlf @ b) prt) = (''CONNECT '' @ a) # ls"
    using lines_of_request [of ?r "[]"] by (simp add: rust_lines_def del: set_append)
qed

lemma server_name_splits_request_witness:
  "\<exists>ls. rust_lines (connect_request (''a.io'' @ crlf @ ''X: y'') 443) = ''CONNECT a.io'' # ls"
  using server_name_splits_request [of "''a.io''" "[0x16, 3, 1, 0, 0, 0x01] @ replicate 37 0" "[]" "[0x13, 0x01]" "[0]"
      300 "[]" "bytes_of (''a.io'' @ crlf @ ''X: y'')" "''X: y''" 443]
  by (simp add: hello_ok_def other_ext_def exts_bytes_def ext_bytes_def sni_ext_def bytes_of_def crlf_def)

end
