(* ===== verification/Health.thy ===== *)
theory Health
  imports State Upstream
begin

text \<open>
  \<open>src/pool/health_checker.rs\<close>: the three-stage check of a proxy, the probe of a batch and
  the lookup of the country of a verified proxy.  The network is the one of Upstream, one
  per stage; the TLS handshake with certificate validation (rustls) is a parameter, and so
  is the order in which the concurrent checks complete.
\<close>

section \<open>Reading lines through a buffer\<close>

lemma sock_read_shrinks:
  assumes "sock_read k c = (Done bs, c')" "bs \<noteq> []" "0 < k"
  shows "length (flat c') < length (flat c)"
proof (cases "flat c = []")
  case True
  from sock_read_none [OF assms(3) True] assms(1,2) show ?thesis by (auto split: conn_end.splits)
next
  case False
  from sock_read_some [OF assms(3) False] obtain bs' d where
    "sock_read k c = (Done bs', d)" "bs' \<noteq> []" "flat c = bs' @ flat d" by metis
  with assms(1) show ?thesis by simp
qed

text \<open>
  \<open>BufReader\<close> with its 8192 bytes: \<open>left\<close> is what has been read and not consumed.  The
  result is the line with its newline (without one at the end of the stream), and the rest.
\<close>

function read_until_nl :: "u8 list \<Rightarrow> u8 list \<Rightarrow> (u8 list \<times> u8 list) net" where
  "read_until_nl acc left c =
     (if 10 \<in> set left
      then (Done (acc @ takeWhile (\<lambda>b. b \<noteq> 10) left @ [10], tl (dropWhile (\<lambda>b. b \<noteq> 10) left)), c)
      else case sock_read 8192 c of
        (Done bs, c') \<Rightarrow>
          (if bs = [] then (Done (acc @ left, []), c') else read_until_nl (acc @ left) bs c')
      | (Failure e, c') \<Rightarrow> (Failure e, c') | (Hang, c') \<Rightarrow> (Hang, c'))"
  by pat_completeness auto
termination
  by (relation "measure (\<lambda>(acc, left, c). length (flat c))") (auto dest: sock_read_shrinks [OF sym])

declare read_until_nl.simps [simp del]

text \<open>\<open>read_line\<close>: the bytes must be UTF-8.\<close>

definition read_line :: "u8 list \<Rightarrow> (string \<times> u8 list) net" where
  "read_line left c =
     (case read_until_nl [] left c of
        (Done (bs, left'), c') \<Rightarrow>
          (case from_utf8 bs of Some s \<Rightarrow> (Done (s, left'), c') | None \<Rightarrow> (Failure IoError, c'))
      | (Failure e, c') \<Rightarrow> (Failure e, c') | (Hang, c') \<Rightarrow> (Hang, c'))"

text \<open>\<open>tokio::time::timeout\<close> around an operation: \<open>None\<close> when the time is up.\<close>

definition timed :: "nat \<Rightarrow> 'a net \<Rightarrow> conn \<Rightarrow> 'a io option \<times> conn" where
  "timed ms op c =
     (case op c of
        (Hang, c') \<Rightarrow> (None, c')
      | (r, c') \<Rightarrow> if ms < waited c' - waited c then (None, c') else (Some r, c'))"

section \<open>The stages\<close>

definition tls_check_host :: string where "tls_check_host = ''cloudflare.com''"

definition tls_check_port :: u16 where "tls_check_port = 443"

definition connect_check_port :: u16 where "connect_check_port = 80"

datatype check_result = CheckOk f64 | OkNoTls f64 | Dead

text \<open>\<open>timeout(ms, TcpStream::connect(..))\<close>: the time it took and the connection.\<close>

definition dial_within :: "nat \<Rightarrow> network \<Rightarrow> string \<Rightarrow> (nat \<times> conn) option" where
  "dial_within ms dial a =
     (case dial a of Some (t, Some c) \<Rightarrow> if ms < t then None else Some (t, c) | _ \<Rightarrow> None)"

definition check_tcp_connect :: "network \<Rightarrow> proxy \<Rightarrow> nat \<Rightarrow> string \<times> f64 option" where
  "check_tcp_connect dial p ms =
     (proxy_key p, map_option (\<lambda>(t, c). f_of_nat t) (dial_within ms dial (proxy_addr p)))"

definition check_request :: "u16 \<Rightarrow> string" where
  "check_request prt =
     ''CONNECT '' @ host_port tls_check_host prt @ '' HTTP/1.1'' @ [CHR 13, CHR 10]
     @ ''Host: '' @ host_port tls_check_host prt @ [CHR 13, CHR 10, CHR 13, CHR 10]"

definition has_prefix :: "string \<Rightarrow> string \<Rightarrow> bool" where
  "has_prefix p s \<longleftrightarrow> take (length p) s = p"

definition is_200 :: "string \<Rightarrow> bool" where
  "is_200 s \<longleftrightarrow> has_prefix ''HTTP/1.1 200'' s \<or> has_prefix ''HTTP/1.0 200'' s"

definition check_http_connect :: "network \<Rightarrow> proxy \<Rightarrow> nat \<Rightarrow> string \<times> f64 option" where
  "check_http_connect dial p ms =
     (proxy_key p,
      case dial_within ms dial (proxy_addr p) of
        None \<Rightarrow> None
      | Some (t, c) \<Rightarrow>
          (case sock_write (bytes_of (check_request connect_check_port)) c of
             (Done _, c1) \<Rightarrow>
               (case timed ms (read_line []) c1 of
                  (Some (Done (line, left)), c2) \<Rightarrow>
                    if is_200 line then Some (f_of_nat (t + (waited c2 - waited c))) else None
                | _ \<Rightarrow> None)
           | _ \<Rightarrow> None))"

text \<open>Draining the header lines; whatever is left in the buffer is dropped with the reader.\<close>

lemma read_until_nl_shrinks:
  "read_until_nl acc left c = (Done (line, left'), c') \<Longrightarrow>
     length line + length left' + length (flat c') \<le> length acc + length left + length (flat c)"
proof (induction acc left c rule: read_until_nl.induct)
  case (1 acc left c)
  show ?case
  proof (cases "10 \<in> set left")
    case True
    then have "length (takeWhile (\<lambda>b. b \<noteq> 10) left) + length (dropWhile (\<lambda>b. b \<noteq> 10) left) = length left"
      by (metis length_append takeWhile_dropWhile_id)
    moreover have "dropWhile (\<lambda>b. b \<noteq> 10) left \<noteq> []" using True by auto
    then have "1 \<le> length (dropWhile (\<lambda>b. b \<noteq> 10) left)"
      by (cases "dropWhile (\<lambda>b. b \<noteq> 10) left") simp_all
    ultimately show ?thesis using 1(2) True
      by (auto simp: read_until_nl.simps [of acc left c])
  next
    case False
    show ?thesis
    proof (cases "flat c = []")
      case True
      from sock_read_none [of 8192 c] True obtain d where d: "sock_read 8192 c =
          (case ending c of Closed \<Rightarrow> Done [] | Reset \<Rightarrow> Failure IoError | Silent \<Rightarrow> Hang, d)" "alike d c" by auto
      with 1(2) False True show ?thesis
        by (auto simp: read_until_nl.simps [of acc left c] alike_def split: conn_end.splits)
    next
      case nonempty: False
      have "0 < (8192 :: nat)" by simp
      from sock_read_some [OF this nonempty] obtain bs d where
        r: "sock_read 8192 c = (Done bs, d)" "bs \<noteq> []" "flat c = bs @ flat d" by metis
      with 1(2) False have "read_until_nl (acc @ left) bs d = (Done (line, left'), c')"
        by (simp add: read_until_nl.simps [of acc left c])
      from 1(1) [OF False r(1) [symmetric] _ r(2) this] r(3) show ?thesis by simp
    qed
  qed
qed

lemma timed_read_line_shrinks:
  assumes "timed ms (read_line left) c = (Some (Done (s, left')), c')" "s \<noteq> []"
  shows "length left' + length (flat c') < length left + length (flat c)"
proof -
  from assms(1) have "read_line left c = (Done (s, left'), c')"
    by (auto simp: timed_def split: prod.splits io.splits if_splits)
  then obtain bs where bs: "read_until_nl [] left c = (Done (bs, left'), c')" "from_utf8 bs = Some s"
    by (auto simp: read_line_def split: prod.splits io.splits option.splits)
  from bs(2) assms(2) have "bs \<noteq> []" by (auto simp: from_utf8_def str_of_def split: if_splits)
  then have "0 < length bs" by simp
  with read_until_nl_shrinks [OF bs(1)] show ?thesis by (simp del: length_greater_0_conv)
qed

function drain_headers :: "nat \<Rightarrow> u8 list \<Rightarrow> conn \<Rightarrow> conn" where
  "drain_headers ms left c =
     (case timed ms (read_line left) c of
        (Some (Done (s, left')), c') \<Rightarrow>
          (if s = [] then c' else if rust_trim s = [] then c' else drain_headers ms left' c')
      | (_, c') \<Rightarrow> c')"
  by pat_completeness auto
termination
  by (relation "measure (\<lambda>(ms, left, c). length left + length (flat c))")
    (auto dest: timed_read_line_shrinks [OF sym])

declare drain_headers.simps [simp del]

definition tls_check_http_connect :: "conn \<Rightarrow> nat \<Rightarrow> conn option" where
  "tls_check_http_connect c ms =
     (case sock_write (bytes_of (check_request tls_check_port)) c of
        (Done _, c1) \<Rightarrow>
          (case timed ms (read_line []) c1 of
             (Some (Done (line, left)), c2) \<Rightarrow>
               if is_200 line then Some (drain_headers ms left c2) else None
           | _ \<Rightarrow> None)
      | _ \<Rightarrow> None)"

text \<open>
  \<open>timeout(ms, read_exact(&mut buf))\<close> of which only the timeout is looked at: after an error
  the zeroed buffer holds what had arrived.
\<close>

definition read_into :: "nat \<Rightarrow> nat \<Rightarrow> conn \<Rightarrow> u8 list option \<times> conn" where
  "read_into ms k c =
     (case timed ms (read_exact k) c of
        (None, c') \<Rightarrow> (None, c')
      | (Some (Done bs), c') \<Rightarrow> (Some bs, c')
      | (Some _, c') \<Rightarrow> (Some (take k (flat c @ replicate k 0)), c'))"

definition tls_skip_addr :: "nat \<Rightarrow> u8 \<Rightarrow> conn \<Rightarrow> conn option" where
  "tls_skip_addr ms atyp c =
     (if atyp = 0x01 then Some (snd (read_into ms 6 c))
      else if atyp = 0x03 then
        (case read_into ms 1 c of (len, c') \<Rightarrow>
           Some (snd (read_into ms (unat (case len of Some (b # _) \<Rightarrow> b | _ \<Rightarrow> 0) + 2) c')))
      else if atyp = 0x04 then Some (snd (read_into ms 18 c))
      else None)"

definition tls_check_socks5 :: "conn \<Rightarrow> nat \<Rightarrow> conn option" where
  "tls_check_socks5 c ms =
     (case sock_write [0x05, 0x01, 0x00] c of
        (Done _, c1) \<Rightarrow>
          (case read_into ms 2 c1 of
             (None, _) \<Rightarrow> None
           | (Some resp, c2) \<Rightarrow>
               if resp ! 0 \<noteq> 0x05 \<or> resp ! 1 = 0xFF then None
               else (case sock_write (socks_request tls_check_host tls_check_port) c2 of
                       (Done _, c3) \<Rightarrow>
                         (case read_into ms 4 c3 of
                            (None, _) \<Rightarrow> None
                          | (Some hdr, c4) \<Rightarrow>
                              if hdr ! 0 \<noteq> 0x05 \<or> hdr ! 1 \<noteq> 0x00 then None
                              else tls_skip_addr ms (hdr ! 3) c4)
                     | _ \<Rightarrow> None))
      | _ \<Rightarrow> None)"

text \<open>
  \<open>tls host c\<close>: the TLS handshake for the host over the tunnel completes in time with a
  valid certificate.
\<close>

type_synonym tls_client = "string \<Rightarrow> conn \<Rightarrow> bool"

definition check_tls_validity :: "tls_client \<Rightarrow> network \<Rightarrow> proxy \<Rightarrow> nat \<Rightarrow> bool" where
  "check_tls_validity tls dial p ms =
     (case dial_within ms dial (proxy_addr p) of
        None \<Rightarrow> False
      | Some (t, c) \<Rightarrow>
          (case (case protocol p of
                   Socks5 \<Rightarrow> tls_check_socks5 c ms | _ \<Rightarrow> tls_check_http_connect c ms) of
             None \<Rightarrow> False
           | Some c' \<Rightarrow> tls tls_check_host c'))"

text \<open>Each stage opens its own connection: \<open>dial n\<close> is the network at stage \<open>n\<close>.\<close>

definition check_single ::
  "tls_client \<Rightarrow> (nat \<Rightarrow> network) \<Rightarrow> proxy \<Rightarrow> nat \<Rightarrow> string \<times> check_result" where
  "check_single tls dial p ms =
     (let key = proxy_key p in
      case check_tcp_connect (dial 1) p ms of
        (_, None) \<Rightarrow> (key, Dead)
      | (_, Some _) \<Rightarrow>
          (case check_http_connect (dial 2) p ms of
             (_, Some latency) \<Rightarrow>
               if check_tls_validity tls (dial 3) p ms then (key, CheckOk latency)
               else (key, OkNoTls latency)
           | (_, None) \<Rightarrow> (key, Dead)))"

section \<open>Probing a batch\<close>

text \<open>
  The probe's local count of working proxies, the keys whose country is looked up in the
  background, and the state.
\<close>

type_synonym 's probe = "nat \<times> string list \<times> 's shared_state"

definition probe_ok :: "string \<Rightarrow> f64 \<Rightarrow> bool \<Rightarrow> clock \<Rightarrow> 's probe \<Rightarrow> 's probe" where
  "probe_ok key latency clean now acc =
     (case acc of (found, geo, st) \<Rightarrow>
       (let st = set_tls_clean key clean (state_success key latency now st);
            found = found + 1;
            st = (if found = 1 then st\<lparr>first_ready := first_ready st + 1\<rparr> else st)
        in (found, geo @ [key], st)))"

definition probe_result :: "(string \<times> check_result) \<times> clock \<Rightarrow> 's probe \<Rightarrow> 's probe" where
  "probe_result r acc =
     (case r of ((key, res), now) \<Rightarrow>
       (case res of
          CheckOk latency \<Rightarrow> probe_ok key latency True now acc
        | OkNoTls latency \<Rightarrow> probe_ok key latency False now acc
        | Dead \<Rightarrow> (case acc of (found, geo, st) \<Rightarrow> (found, geo, state_fail key now st))))"

text \<open>
  \<open>check\<close> is the outcome of the check of a proxy, \<open>arrival\<close> pairs the outcomes with the
  moments they complete, in that order.
\<close>

definition fast_probe ::
  "(proxy \<Rightarrow> string \<times> check_result) \<Rightarrow>
   ((string \<times> check_result) list \<Rightarrow> ((string \<times> check_result) \<times> clock) list) \<Rightarrow>
   proxy list \<Rightarrow> 's shared_state \<Rightarrow> 's probe" where
  "fast_probe check arrival ps st =
     (if ps = [] then (0, [], st) else fold probe_result (arrival (map check ps)) (0, [], st))"

text \<open>The task that looks up the country of a verified proxy.\<close>

definition geo_task ::
  "(ipaddr \<Rightarrow> api_response option) \<Rightarrow> string \<Rightarrow> 's shared_state \<Rightarrow> 's shared_state" where
  "geo_task fetch key st =
     (case tbl_get (proxies st) key of
        None \<Rightarrow> st
      | Some p \<Rightarrow>
          (case parse_ip (host p) of
             None \<Rightarrow> st
           | Some ip \<Rightarrow>
               (case lookup_country fetch ip (geoip st) of
                  (None, g) \<Rightarrow> st\<lparr>geoip := g\<rparr>
                | (Some c, g) \<Rightarrow>
                    update_geo_index key c
                      (st\<lparr>geoip := g,
                          proxies := tbl_modify key (\<lambda>p. p\<lparr>country := Some c\<rparr>) (proxies st)\<rparr>))))"

text \<open>One tick of the health loop: 100 proxies every 5 seconds and 50 every 30.\<close>

definition fast_limit :: nat where "fast_limit = 100"

definition normal_limit :: nat where "normal_limit = 50"

definition health_tick ::
  "nat \<Rightarrow> (proxy \<Rightarrow> string \<times> check_result) \<Rightarrow>
   ((string \<times> check_result) list \<Rightarrow> ((string \<times> check_result) \<times> clock) list) \<Rightarrow> clock
   \<Rightarrow> 's shared_state \<Rightarrow> 's probe" where
  "health_tick limit check arrival now st =
     (let batch = proxies_needing_check now limit st
      in if batch = [] then (0, [], st) else fast_probe check arrival batch st)"

section \<open>What a line begins with\<close>

lemma read_until_nl_prefix:
  "read_until_nl acc left c = (Done (line, left'), c') \<Longrightarrow> \<exists>r. acc @ left @ flat c = line @ r"
proof (induction acc left c rule: read_until_nl.induct)
  case (1 acc left c)
  show ?case
  proof (cases "10 \<in> set left")
    case True
    then obtain a b where ab: "left = a @ 10 # b" "10 \<notin> set a" by (meson split_list_first)
    then have "takeWhile (\<lambda>b. b \<noteq> 10) left = a"
      by (metis (mono_tags, lifting) takeWhile_eq_all_conv takeWhile_tail)
    with 1(2) True have "line = acc @ a @ [10]" by (auto simp: read_until_nl.simps [of acc left c])
    with ab(1) show ?thesis by simp
  next
    case False
    show ?thesis
    proof (cases "flat c = []")
      case True
      from sock_read_none [of 8192 c] True obtain d where d: "sock_read 8192 c =
          (case ending c of Closed \<Rightarrow> Done [] | Reset \<Rightarrow> Failure IoError | Silent \<Rightarrow> Hang, d)" by auto
      with 1(2) False True show ?thesis
        by (auto simp: read_until_nl.simps [of acc left c] split: conn_end.splits)
    next
      case nonempty: False
      have "0 < (8192 :: nat)" by simp
      from sock_read_some [OF this nonempty] obtain bs d where
        r: "sock_read 8192 c = (Done bs, d)" "bs \<noteq> []" "flat c = bs @ flat d" by metis
      with 1(2) False have "read_until_nl (acc @ left) bs d = (Done (line, left'), c')"
        by (simp add: read_until_nl.simps [of acc left c])
      from 1(1) [OF False r(1) [symmetric] _ r(2) this] r(3) show ?thesis by simp
    qed
  qed
qed

lemma is_200_append: "is_200 s \<Longrightarrow> is_200 (s @ t)"
proof -
  have "has_prefix p (s @ t)" if "has_prefix p s" for p
  proof -
    from that have "length p \<le> length s" by (metis has_prefix_def length_take min.cobounded1)
    with that show ?thesis by (simp add: has_prefix_def)
  qed
  then show "is_200 s \<Longrightarrow> is_200 (s @ t)" by (auto simp: is_200_def)
qed

lemma timed_line_prefix:
  assumes "timed ms (read_line []) c = (Some (Done (line, left)), c')" "is_200 line"
  shows "is_200 (str_of (flat c))"
proof -
  from assms(1) have "read_line [] c = (Done (line, left), c')"
    by (auto simp: timed_def split: prod.splits io.splits if_splits)
  then obtain bs where bs: "read_until_nl [] [] c = (Done (bs, left), c')" "line = str_of bs"
    by (auto simp: read_line_def from_utf8_def split: prod.splits io.splits option.splits if_splits)
  from read_until_nl_prefix [OF bs(1)] obtain r where "flat c = bs @ r" by auto
  with assms(2) bs(2) show ?thesis by (simp add: is_200_append)
qed

lemma sock_write_flat: "sock_write bs c = (Done u, c') \<Longrightarrow> flat c' = flat c"
  by (auto simp: sock_write_def flat_def split: if_splits)

lemma check_http_connect_needs_200:
  assumes "check_http_connect dial p ms = (k, Some l)"
  shows "\<exists>t c. dial (proxy_addr p) = Some (t, Some c) \<and> t \<le> ms \<and> is_200 (str_of (flat c))"
proof -
  from assms obtain t c c1 line left c2 where
    "dial_within ms dial (proxy_addr p) = Some (t, c)" "sock_write (bytes_of (check_request connect_check_port)) c = (Done (), c1)"
    "timed ms (read_line []) c1 = (Some (Done (line, left)), c2)" "is_200 line"
    by (auto simp: check_http_connect_def split: option.splits prod.splits io.splits if_splits)
  with timed_line_prefix [of ms c1 line left c2] sock_write_flat show ?thesis
    by (fastforce simp: dial_within_def split: option.splits if_splits)
qed

section \<open>The accounts of a probe\<close>

definition working :: "((string \<times> check_result) \<times> clock) list \<Rightarrow> nat" where
  "working rs = length (filter (\<lambda>r. snd (fst r) \<noteq> Dead) rs)"

definition failing :: "((string \<times> check_result) \<times> clock) list \<Rightarrow> nat" where
  "failing rs = length (filter (\<lambda>r. snd (fst r) = Dead) rs)"

lemma probe_ok_frame:
  "probe_ok key l clean now (f, g, st) = (f', g', st') \<Longrightarrow>
     f' = f + 1 \<and> first_ready st' = first_ready st + (if f = 0 then 1 else 0)
     \<and> proxy_rotations st' = proxy_rotations st
     \<and> proxies st' = proxies (set_tls_clean key clean (state_success key l now st)) \<and> banned st' = banned st"
  by (auto simp: probe_ok_def Let_def set_tls_clean_def state_success_def split: if_splits)

lemma probe_result_frame:
  "probe_result r (f, g, st) = (f', g', st') \<Longrightarrow>
     f' = f + working [r] \<and> first_ready st' = first_ready st + (if f = 0 \<and> 0 < working [r] then 1 else 0)
     \<and> proxy_rotations st' = proxy_rotations st + of_nat (failing [r])"
  by (auto simp: probe_result_def working_def failing_def state_fail_def dest!: probe_ok_frame
      split: prod.splits check_result.splits)

lemma probe_fold:
  "fold probe_result rs (f, g, st) = (f', g', st') \<Longrightarrow>
     f' = f + working rs \<and> first_ready st' = first_ready st + (if f = 0 \<and> 0 < working rs then 1 else 0)
     \<and> proxy_rotations st' = proxy_rotations st + of_nat (failing rs)"
proof (induction rs arbitrary: f g st)
  case Nil
  then show ?case by (simp add: working_def failing_def)
next
  case (Cons r rs)
  obtain f1 g1 st1 where r: "probe_result r (f, g, st) = (f1, g1, st1)" by (metis surj_pair)
  have "working (r # rs) = working [r] + working rs" "failing (r # rs) = failing [r] + failing rs"
    by (simp_all add: working_def failing_def)
  with probe_result_frame [OF r] Cons.IH [of f1 g1 st1] Cons.prems r show ?case by auto
qed

lemma probe_result_pool_ok:
  assumes "pool_ok (snd (snd acc))" shows "pool_ok (snd (snd (probe_result r acc)))"
proof -
  obtain f g st where acc: "acc = (f, g, st)" by (metis surj_pair)
  obtain k res now where r: "r = ((k, res), now)" by (metis surj_pair)
  have f: "pool_ok (state_fail k now st)" using pool_ops.keeps [of st "PoolFail k now"] assms acc by simp
  have s: "pool_ok (set_tls_clean k b (state_success k l now st))" for b l
    using pool_ops.keeps [of "state_success k l now st" "SetTls k b"]
      pool_ops.keeps [of st "PoolSuccess k l now"] assms acc by simp
  have "pool_ok (snd (snd (probe_ok k l b now (f, g, st))))" for l b
    using s [of b l] by (simp add: probe_ok_def Let_def pool_ok_def)
  with f show ?thesis by (simp add: probe_result_def acc r split: check_result.split)
qed

interpretation probes: keeps "\<lambda>acc. pool_ok (snd (snd acc))" probe_result
  by unfold_locales (rule probe_result_pool_ok)

lemma probe_result_keyed:
  assumes "pool_keyed (snd (snd acc))" shows "pool_keyed (snd (snd (probe_result r acc)))"
proof -
  obtain f g st where acc: "acc = (f, g, st)" by (metis surj_pair)
  obtain k res now where r: "r = ((k, res), now)" by (metis surj_pair)
  have "pool_keyed (snd (snd (probe_ok k l b now (f, g, st))))" for l b
    using assms by (simp add: acc probe_ok_def Let_def pool_keyed_ops)
  with assms show ?thesis by (simp add: probe_result_def acc r pool_keyed_ops split: check_result.split)
qed

interpretation keyed_probes: keeps "\<lambda>acc. pool_keyed (snd (snd acc))" probe_result
  by unfold_locales (rule probe_result_keyed)

section \<open>Properties\<close>

text \<open>
  A proxy whose peer does not answer the HTTP CONNECT of stage two with an HTTP 200 line
  is declared dead whatever its protocol: a SOCKS5 proxy that follows its RFC never passes
  the check.
\<close>

theorem non_http_proxy_is_dead:
  assumes "\<And>t c. dial 2 (proxy_addr p) = Some (t, Some c) \<Longrightarrow> \<not> is_200 (str_of (flat c))"
  shows "check_single tls dial p ms = (proxy_key p, Dead)"
proof -
  have "snd (check_http_connect (dial 2) p ms) = None"
  proof (cases "snd (check_http_connect (dial 2) p ms)")
    case (Some l)
    then have "check_http_connect (dial 2) p ms = (fst (check_http_connect (dial 2) p ms), Some l)"
      by (metis prod.collapse)
    from check_http_connect_needs_200 [OF this] assms show ?thesis by blast
  qed simp
  then show ?thesis by (auto simp: check_single_def Let_def split: prod.splits option.splits)
qed

theorem non_http_proxy_is_dead_witness:
  "check_single (\<lambda>_ _. True) (\<lambda>_ _. Some (1, Some (peer [[5, 0], [5, 0, 0, 1, 9, 9, 9, 9, 0, 80]] Silent)))
     (proxy_new ''s'' 1080 Socks5) 5000 = (host_port ''s'' 1080, Dead)
   \<and> (\<exists>c'. socks5_handshake ''cloudflare.com'' 443
        (peer [[5, 0], [5, 0, 0, 1, 9, 9, 9, 9, 0, 80]] Silent) = (Done (), c'))"
proof
  let ?c = "peer [[5, 0], [5, 0, 0, 1, 9, 9, 9, 9, 0, 80]] Silent"
  have "str_of (flat ?c) = char_of (5 :: nat) # str_of [0, 5, 0, 0, 1, 9, 9, 9, 9, 0, 80]"
    by (simp add: str_of_def)
  moreover have "char_of (5 :: nat) \<noteq> CHR ''H''" by code_simp
  ultimately have "\<not> is_200 (str_of (flat ?c))" by (simp add: is_200_def has_prefix_def)
  then show "check_single (\<lambda>_ _. True) (\<lambda>_ _. Some (1, Some ?c)) (proxy_new ''s'' 1080 Socks5) 5000
      = (host_port ''s'' 1080, Dead)"
    using non_http_proxy_is_dead [of "\<lambda>_ _. Some (1, Some ?c)" "proxy_new ''s'' 1080 Socks5" "\<lambda>_ _. True" 5000]
    by auto
  have "flat ?c = [5, 0] @ [5, 0, 0, 1] @ [9, 9, 9, 9, 0, 80] @ []" "bound_addr 1 [9, 9, 9, 9, 0, 80]"
    by (simp_all add: bound_addr_def)
  from socks5_success [OF this, of "''cloudflare.com''" 443]
  show "\<exists>c'. socks5_handshake ''cloudflare.com'' 443 ?c = (Done (), c')" by auto
qed

text \<open>
  When the proxy answers stages one and two but the connection of stage three cannot be
  opened, nothing is known about its certificates, yet the probe records it as not
  TLS-clean.
\<close>

theorem unreachable_stage3_counts_as_mitm:
  assumes "dial_within ms (dial 1) (proxy_addr p) \<noteq> None" "check_http_connect (dial 2) p ms = (k, Some l)"
    and "dial_within ms (dial 3) (proxy_addr p) = None"
  shows "check_single tls dial p ms = (proxy_key p, OkNoTls l)
    \<and> tbl_get (proxies (snd (snd (probe_result ((proxy_key p, OkNoTls l), now) (n, g, st))))) (proxy_key p) =
        map_option (\<lambda>q. (Proxy.record_success l now q)\<lparr>tls_clean := Some False\<rparr>)
          (tbl_get (proxies st) (proxy_key p))"
proof -
  have "proxies (snd (snd (probe_ok key l False now (n, g, st)))) =
      proxies (set_tls_clean key False (state_success key l now st))" for key
    by (metis prod.collapse probe_ok_frame)
  then show ?thesis using assms
    by (auto simp: check_single_def check_tcp_connect_def check_tls_validity_def Let_def probe_result_def
        set_tls_clean_def state_success_def option.map_comp comp_def)
qed

definition good_peer :: conn where
  "good_peer = peer [bytes_of (''HTTP/1.1 200'' @ [CHR 10])] Silent"

lemma good_peer_passes:
  "check_http_connect (\<lambda>_. Some (1, Some good_peer)) p 5000 = (proxy_key p, Some (f_of_nat 2))"
proof -
  let ?l = "''HTTP/1.1 200'' @ [CHR 10]"
  let ?c = "good_peer\<lparr>sent := bytes_of (check_request connect_check_port)\<rparr>"
  let ?d = "?c\<lparr>inbox := [], waited := 1\<rparr>"
  have b: "bytes_of ?l = bytes_of ''HTTP/1.1 200'' @ [10]" by (simp add: bytes_of_def)
  have n: "\<forall>x \<in> set (bytes_of ''HTTP/1.1 200''). x \<noteq> 10" by (simp add: bytes_of_def)
  have w: "sock_write (bytes_of (check_request connect_check_port)) good_peer = (Done (), ?c)"
    by (simp add: sock_write_def good_peer_def peer_def)
  have r: "sock_read 8192 ?c = (Done (bytes_of ?l), ?d)"
    by (simp add: sock_read_def good_peer_def peer_def bytes_of_def)
  have "read_until_nl [] (bytes_of ?l) ?d = (Done (bytes_of ?l, []), ?d)"
    unfolding b using n by (subst read_until_nl.simps) (auto simp: takeWhile_append2 dropWhile_append2)
  with r b have "read_until_nl [] [] ?c = (Done (bytes_of ?l, []), ?d)"
    by (subst read_until_nl.simps) simp
  moreover have "utf8_ok (bytes_of ?l)" by (rule utf8_ok_ascii) (simp add: bytes_of_def)
  ultimately have "read_line [] ?c = (Done (?l, []), ?d)"
    by (simp add: read_line_def from_utf8_def del: append.simps)
  then have t: "timed 5000 (read_line []) ?c = (Some (Done (?l, [])), ?d)"
    by (simp add: timed_def good_peer_def)
  have "is_200 ?l" by (simp add: is_200_def has_prefix_def)
  with t w show ?thesis by (simp add: check_http_connect_def dial_within_def good_peer_def numeral_2_eq_2)
qed

theorem unreachable_stage3_counts_as_mitm_witness:
  "check_single (\<lambda>_ _. True) (\<lambda>n _. if n = 3 then None else Some (1, Some good_peer)) (proxy_new ''p'' 80 Http) 5000
     = (host_port ''p'' 80, OkNoTls (f_of_nat 2))"
proof -
  let ?dial = "\<lambda>(n :: nat) _. if n = 3 then None else Some (1, Some good_peer) :: (nat \<times> conn option) option"
  have "dial_within 5000 (?dial 1) a \<noteq> None" "dial_within 5000 (?dial 3) a = None" for a
    by (simp_all add: dial_within_def)
  moreover have "check_http_connect (?dial 2) (proxy_new ''p'' 80 Http) 5000 = (host_port ''p'' 80, Some (f_of_nat 2))"
    using good_peer_passes [of "proxy_new ''p'' 80 Http"] by simp
  ultimately show ?thesis
    using unreachable_stage3_counts_as_mitm [where dial = ?dial and tls = "\<lambda>_ _. True"
        and p = "proxy_new ''p'' 80 Http" and ms = 5000] by (metis proxy_key_new)
qed

text \<open>
  The accounts of a probe: it reports the number of proxies that work, signals the
  waiting clients exactly once if there is any, counts one rotation for every dead proxy,
  and keeps the pool well formed.
\<close>

theorem probe_accounts:
  assumes "ps \<noteq> []" "fast_probe check arrival ps st = (found, geo, st')" "pool_ok st"
  shows "found = working (arrival (map check ps))
    \<and> first_ready st' = first_ready st + (if 0 < found then 1 else 0)
    \<and> proxy_rotations st' = proxy_rotations st + of_nat (failing (arrival (map check ps)))
    \<and> pool_ok st'"
proof -
  from assms(1,2) have f: "fold probe_result (arrival (map check ps)) (0, [], st) = (found, geo, st')"
    by (simp add: fast_probe_def)
  have "pool_ok (snd (snd (0 :: nat, [] :: string list, st)))" using assms(3) by simp
  from probes.keeps_fold [OF this, of "arrival (map check ps)"] f have "pool_ok st'" by simp
  with probe_fold [OF f] show ?thesis by auto
qed

theorem probe_accounts_witness:
  "fst (fast_probe (\<lambda>p. (proxy_key p, Dead)) (map (\<lambda>r. (r, \<lparr>inst = 0, utc = 0\<rparr>))) [proxy_new ''a'' 80 Http]
     (state_new :: nat shared_state)) = 0"
proof -
  let ?r = "fast_probe (\<lambda>p. (proxy_key p, Dead)) (map (\<lambda>r. (r, \<lparr>inst = 0, utc = 0\<rparr>))) [proxy_new ''a'' 80 Http]
     (state_new :: nat shared_state)"
  have "pool_ok (state_new :: nat shared_state)" by (simp add: pool_ok_def state_new_def)
  from probe_accounts [OF _ _ this, of "[proxy_new ''a'' 80 Http]" "\<lambda>p. (proxy_key p, Dead)"
      "map (\<lambda>r. (r, \<lparr>inst = 0, utc = 0\<rparr>))" "fst ?r" "fst (snd ?r)" "snd (snd ?r)"]
  show ?thesis by (simp add: working_def)
qed

end
