(* ===== verification/Web.thy ===== *)
theory Web
  imports State
begin

text \<open>
  \<open>src/api/web.rs\<close>: the handlers of the web API over the shared state, and the ones that
  serve files of WireGuard peers.  The routes are in theory \<open>Router\<close>; JSON (serde) is outside
  the model; the file system is a parameter.
\<close>

section \<open>Reports\<close>

record health_response =
  hr_status :: string
  hr_total :: nat
  hr_verified :: nat
  hr_available :: nat

record metrics_response =
  mr_total :: nat
  mr_verified :: nat
  mr_available :: nat
  mr_tls_clean :: nat
  mr_mitm :: nat
  mr_requests :: u64
  mr_active :: u64
  mr_rotations :: u64

definition health :: "clock \<Rightarrow> 's shared_state \<Rightarrow> health_response" where
  "health now st =
     \<lparr>hr_status = (if 0 < available_count now st then ''ok'' else ''no_proxies''),
      hr_total = total_count st, hr_verified = verified_count st,
      hr_available = available_count now st\<rparr>"

definition api_metrics :: "clock \<Rightarrow> 's shared_state \<Rightarrow> metrics_response" where
  "api_metrics now st =
     \<lparr>mr_total = total_count st, mr_verified = verified_count st,
      mr_available = available_count now st, mr_tls_clean = tls_clean_count st,
      mr_mitm = tls_dirty_count st, mr_requests = total_requests st,
      mr_active = active_connections st, mr_rotations = proxy_rotations st\<rparr>"

record proxy_info =
  pi_host :: string
  pi_port :: u16
  pi_protocol :: string
  pi_latency_ms :: f64
  pi_success_count :: u64
  pi_fail_count :: u64
  pi_available :: bool
  pi_country :: "string option"
  pi_tls_clean :: "bool option"

fun show_protocol :: "protocol \<Rightarrow> string" where
  "show_protocol Http = ''http''"
| "show_protocol Socks5 = ''socks5''"
| "show_protocol Https = ''https''"

definition info_of :: "proxy \<Rightarrow> proxy_info" where
  "info_of p =
     \<lparr>pi_host = host p, pi_port = port p, pi_protocol = show_protocol (protocol p),
      pi_latency_ms = latency_ewma p, pi_success_count = success_count p,
      pi_fail_count = fail_count p, pi_available = True, pi_country = country p,
      pi_tls_clean = tls_clean p\<rparr>"

definition list_proxies :: "clock \<Rightarrow> 's shared_state \<Rightarrow> proxy_info list" where
  "list_proxies now st =
     sort_key pi_latency_ms (map info_of (filter (is_available now) (all_proxies st)))"

section \<open>Adding, banning, unbanning\<close>

record api_reply =
  success :: bool
  message :: string

definition reply :: "bool \<Rightarrow> string \<Rightarrow> api_reply" where
  "reply ok msg = \<lparr>success = ok, message = msg\<rparr>"

definition requested_protocol :: "string option \<Rightarrow> protocol" where
  "requested_protocol s = (if s = Some ''socks5'' \<or> s = Some ''socks5 '' then Socks5 else Http)"

definition add_proxy ::
  "string \<Rightarrow> u16 \<Rightarrow> string option \<Rightarrow> 's shared_state \<Rightarrow> api_reply \<times> 's shared_state" where
  "add_proxy h prt proto st =
     (let key = host_port h prt in
      if tbl_has (proxies st) key then (reply False ''Proxy already exists'', st)
      else (reply True (''Proxy '' @ key @ '' added''),
            st\<lparr>proxies := tbl_put key (proxy_new h prt (requested_protocol proto)) (proxies st)\<rparr>))"

definition ban_proxy :: "string \<Rightarrow> 's shared_state \<Rightarrow> api_reply \<times> 's shared_state" where
  "ban_proxy arg st =
     (case split_char (CHR '':'') arg of
        [h, p] \<Rightarrow>
          (if parse_u16 p = None then (reply False ''Invalid port number'', st)
           else (let key = h @ '':'' @ p in
             case tbl_get (proxies st) key of
               Some px \<Rightarrow>
                 (reply True (''Proxy '' @ key @ '' banned''),
                  st\<lparr>proxies := tbl_del key (proxies st), banned := tbl_put key px (banned st)\<rparr>)
             | None \<Rightarrow> (reply False ''Proxy not found'', st)))
      | _ \<Rightarrow> (reply False ''Invalid proxy key format. Use host:port'', st))"

definition unban_proxy :: "string \<Rightarrow> 's shared_state \<Rightarrow> api_reply \<times> 's shared_state" where
  "unban_proxy arg st =
     (case tbl_get (banned st) arg of
        Some px \<Rightarrow>
          (reply True (''Proxy '' @ arg @ '' unbanned''),
           st\<lparr>banned := tbl_del arg (banned st),
              proxies := tbl_put (proxy_key px) px (proxies st)\<rparr>)
      | None \<Rightarrow> (reply False ''Banned proxy not found'', st))"

section \<open>Files of the peers\<close>

text \<open>\<open>read path\<close> is the content of a file, if it can be read.\<close>

type_synonym file_reader = "string \<Rightarrow> string option"

text \<open>An answer of status 200 has the headers that the handler sets, and its body.\<close>

datatype http_response = HttpOk "(string \<times> string) list" string | BadRequest string | NotFound string

definition is_safe_char :: "char \<Rightarrow> bool" where
  "is_safe_char c \<longleftrightarrow>
     (let n = (of_char c :: nat) in
      (48 \<le> n \<and> n \<le> 57) \<or> (65 \<le> n \<and> n \<le> 90) \<or> (97 \<le> n \<and> n \<le> 122))
     \<or> c = CHR ''-'' \<or> c = CHR ''_''"

definition is_safe_peer_name :: "string \<Rightarrow> bool" where
  "is_safe_peer_name name \<longleftrightarrow> name \<noteq> [] \<and> length name \<le> 64 \<and> list_all is_safe_char name"

definition conf_path :: "string \<Rightarrow> string" where
  "conf_path name = ''data/wg/'' @ name @ ''/'' @ name @ ''.conf''"

definition qr_path :: "string \<Rightarrow> string" where
  "qr_path name = ''data/wg/'' @ name @ ''/'' @ name @ ''-qr.png''"

definition peer_config :: "file_reader \<Rightarrow> string \<Rightarrow> http_response" where
  "peer_config read name =
     (if \<not> is_safe_peer_name name then BadRequest ''Invalid peer name''
      else (case read (conf_path name) of
              Some content \<Rightarrow>
                HttpOk [(''content-type'', ''text/plain; charset=utf-8''),
                        (''content-disposition'', ''attachment; filename='' @ [CHR 34] @ name @ ''.conf'' @ [CHR 34])]
                  content
            | None \<Rightarrow> NotFound ''Config not found''))"

definition peer_qr :: "file_reader \<Rightarrow> string \<Rightarrow> http_response" where
  "peer_qr read name =
     (if \<not> is_safe_peer_name name then BadRequest ''Invalid peer name''
      else (case read (qr_path name) of
              Some bytes \<Rightarrow> HttpOk [(''content-type'', ''image/png'')] bytes
            | None \<Rightarrow> NotFound ''QR code not found''))"

definition str_prefix :: "string \<Rightarrow> string \<Rightarrow> bool" where
  "str_prefix p s \<longleftrightarrow> take (length p) s = p"

text \<open>\<open>trim_start_matches(p)\<close> removes the prefix as often as it is there.\<close>

function trim_start_matches :: "string \<Rightarrow> string \<Rightarrow> string" where
  "trim_start_matches p s =
     (if p \<noteq> [] \<and> s \<noteq> [] \<and> str_prefix p s then trim_start_matches p (drop (length p) s) else s)"
  by pat_completeness auto
termination by (relation "measure (\<lambda>(p, s). length s)") auto

declare trim_start_matches.simps [simp del]

definition read_peer_address :: "file_reader \<Rightarrow> string \<Rightarrow> string" where
  "read_peer_address read name =
     (case read (conf_path name) of
        None \<Rightarrow> []
      | Some content \<Rightarrow>
          (case find (str_prefix ''Address = '') (rust_lines content) of
             Some l \<Rightarrow> trim_start_matches ''Address = '' l
           | None \<Rightarrow> []))"

definition read_peer_file :: "file_reader \<Rightarrow> string \<Rightarrow> string \<Rightarrow> string" where
  "read_peer_file read name file =
     (case read (''data/wg/'' @ name @ ''/'' @ file) of Some s \<Rightarrow> rust_trim s | None \<Rightarrow> [])"

record peer_info =
  pe_name :: string
  pe_address :: string
  pe_public_key :: string
  pe_has_lan :: bool
  pe_has_wan :: bool

text \<open>\<open>entries\<close>: the names in the directory of the peers and whether each is a directory.\<close>

definition list_wg_peers ::
  "file_reader \<Rightarrow> (string \<Rightarrow> bool) \<Rightarrow> (string \<times> bool) list option \<Rightarrow> peer_info list" where
  "list_wg_peers read exists_file entries =
     (case entries of
        None \<Rightarrow> []
      | Some es \<Rightarrow>
          map (\<lambda>(name, _).
              \<lparr>pe_name = name, pe_address = read_peer_address read name,
               pe_public_key = read_peer_file read name (''publickey-'' @ name),
               pe_has_lan = exists_file (''data/wg/'' @ name @ ''/'' @ name @ ''-lan.conf''),
               pe_has_wan = exists_file (''data/wg/'' @ name @ ''/'' @ name @ ''-wan.conf'')\<rparr>)
            (filter (\<lambda>(name, is_dir). str_prefix ''peer'' name \<and> is_dir) es))"

record network_info =
  lan_ip :: "string option"
  wan_ip :: "string option"
  upnp_active :: bool
  wg_port :: u16
  peer_count :: nat
  peers :: "string list"

definition network_status ::
  "(string \<Rightarrow> network_info option) \<Rightarrow> file_reader \<Rightarrow> network_info" where
  "network_status decode read =
     (case Option.bind (read ''data/clients/network-status.json'') decode of
        Some info \<Rightarrow> info
      | None \<Rightarrow> \<lparr>lan_ip = None, wan_ip = None, upnp_active = False, wg_port = 51820,
                  peer_count = 0, peers = []\<rparr>)"

section \<open>What the handlers keep\<close>

datatype api_op = ApiAdd string u16 "string option" | ApiBan string | ApiUnban string

fun api_apply :: "api_op \<Rightarrow> 's shared_state \<Rightarrow> 's shared_state" where
  "api_apply (ApiAdd h prt proto) st = snd (add_proxy h prt proto st)"
| "api_apply (ApiBan arg) st = snd (ban_proxy arg st)"
| "api_apply (ApiUnban arg) st = snd (unban_proxy arg st)"

lemma reply_simps [simp]: "success (reply ok msg) = ok" "message (reply ok msg) = msg"
  by (simp_all add: reply_def)

lemma ban_proxy_cases:
  obtains (unchanged) msg where "ban_proxy arg st = (reply False msg, st)"
  | (moved) px msg where "tbl_get (proxies st) arg = Some px"
      "ban_proxy arg st = (reply True msg,
        st\<lparr>proxies := tbl_del arg (proxies st), banned := tbl_put arg px (banned st)\<rparr>)"
proof (cases "\<exists>msg. ban_proxy arg st = (reply False msg, st)")
  case False
  then obtain h p where hp: "split_char (CHR '':'') arg = [h, p]"
    by (auto simp: ban_proxy_def split: list.splits)
  have "arg = h @ '':'' @ p" using split_char_join [of "CHR '':''" arg] hp by simp
  with False hp show thesis
    by (auto simp: ban_proxy_def Let_def split: if_splits option.splits intro: moved)
qed (auto intro: unchanged)

lemma ban_success_moved:
  assumes "ban_proxy arg st = (r, st1)" "success r"
  obtains px where "tbl_get (proxies st) arg = Some px"
    "st1 = st\<lparr>proxies := tbl_del arg (proxies st), banned := tbl_put arg px (banned st)\<rparr>"
proof (cases arg st rule: ban_proxy_cases)
  case (unchanged msg)
  then show ?thesis using assms by auto
next
  case (moved px msg)
  show ?thesis by (rule that [OF moved(1)]) (use moved(2) assms(1) in simp)
qed

interpretation keyed_api: keeps pool_keyed api_apply
proof unfold_locales
  fix s :: "'s shared_state" and op
  assume ok: "pool_keyed s"
  show "pool_keyed (api_apply op s)"
  proof (cases op)
    case (ApiBan arg)
    then show ?thesis using ok
      by (cases arg s rule: ban_proxy_cases) (auto simp: pool_keyed_def dest: own_keys_get)
  next
    case (ApiUnban arg)
    then show ?thesis using ok by (auto simp: unban_proxy_def pool_keyed_def split: option.split)
  qed (use ok in \<open>simp add: add_proxy_def Let_def pool_keyed_def\<close>)
qed

interpretation api_ops: keeps pool_ok api_apply
proof unfold_locales
  fix s :: "'s shared_state" and op
  assume ok: "pool_ok s"
  show "pool_ok (api_apply op s)"
  proof (cases op)
    case (ApiAdd h prt proto)
    then show ?thesis using ok
      by (simp add: add_proxy_def Let_def pool_ok_def)
  next
    case (ApiBan arg)
    then show ?thesis using ok
      by (cases arg s rule: ban_proxy_cases) (auto simp: pool_ok_def dest: well_keyed_get)
  next
    case (ApiUnban arg)
    then show ?thesis using ok
      by (auto simp: unban_proxy_def pool_ok_def dest: well_keyed_get split: option.split)
  qed
qed

section \<open>Bans\<close>

text \<open>The path argument of a ban names a host without colons and its port.\<close>

lemma ban_success_iff:
  "success (fst (ban_proxy (host_port h prt) st)) \<longleftrightarrow>
     CHR '':'' \<notin> set h \<and> tbl_has (proxies st) (host_port h prt)"
proof (cases "CHR '':'' \<in> set h")
  case False
  then have "split_char (CHR '':'') (host_port h prt) = [h, show_u16 prt]"
    by (simp add: host_port_def split_char_append split_char_no_sep colon_not_in_show_u16)
  moreover have "host_port h prt = h @ '':'' @ show_u16 prt" by (simp add: host_port_def)
  ultimately show ?thesis using False
    by (auto simp: ban_proxy_def parse_u16_show_u16 Let_def tbl_has_def split: option.split)
next
  case True
  then obtain a b where h: "h = a @ CHR '':'' # b" "CHR '':'' \<notin> set a"
    using split_list_first by metis
  have "split_char (CHR '':'') (host_port h prt) = a # split_char (CHR '':'') (host_port b prt)"
    using h by (simp add: host_port_def split_char_append)
  moreover obtain u v ws where "split_char (CHR '':'') (host_port b prt) = u # v # ws"
  proof (cases "split_char (CHR '':'') (host_port b prt)")
    case (Cons u vs)
    show thesis
    proof (cases vs)
      case Nil
      then have "CHR '':'' \<notin> set (host_port b prt)"
        using Cons split_char_join [of "CHR '':''" "host_port b prt"]
          split_char_parts [of u "CHR '':''" "host_port b prt"] by simp
      then show thesis by (simp add: host_port_def)
    qed (use Cons in \<open>blast intro: that\<close>)
  qed simp
  ultimately show ?thesis using True by (simp add: ban_proxy_def)
qed

text \<open>
  A ban through the API takes effect exactly for the proxies of the pool whose host has no
  colon: an IPv6 or otherwise colon-bearing host, which \<open>add_proxy\<close> accepts, can never be
  banned, and no other key of the pool is refused.  The entry moves to the list of bans, the
  others stay, and a refused ban changes nothing.
\<close>

theorem ban_takes_effect_iff:
  "(case ban_proxy (host_port h prt) st of (r, st') \<Rightarrow>
      (success r \<longleftrightarrow> CHR '':'' \<notin> set h \<and> tbl_has (proxies st) (host_port h prt)) \<and>
      (if success r
       then tbl_get (banned st') (host_port h prt) = tbl_get (proxies st) (host_port h prt) \<and>
         (\<forall>k. tbl_get (proxies st') k =
            (if k = host_port h prt then None else tbl_get (proxies st) k))
       else st' = st))"
proof (cases "host_port h prt" st rule: ban_proxy_cases)
  case (unchanged msg)
  then show ?thesis using ban_success_iff [of h prt st] by auto
next
  case (moved px msg)
  then show ?thesis using ban_success_iff [of h prt st] by auto
qed

text \<open>
  Unbanning undoes a ban.  After a successful ban the key is gone from the pool and in the
  list of bans; unbanning it succeeds and both tables look up as before, with nothing else
  changed; the number of entries in the two together never changes.
\<close>

theorem ban_unban_roundtrip:
  fixes st :: "'s shared_state"
  assumes "pool_ok st" "tbl_get (banned st) key = None"
    "ban_proxy key st = (r, st1)" "success r" "unban_proxy key st1 = (r', st2)"
  shows "success r' \<and> tbl_get (proxies st1) key = None \<and> tbl_has (banned st1) key
    \<and> tbl_get (proxies st2) = tbl_get (proxies st) \<and> tbl_get (banned st2) = tbl_get (banned st)
    \<and> st2\<lparr>proxies := proxies st, banned := banned st\<rparr> = st
    \<and> tbl_len (proxies st1) + tbl_len (banned st1) = tbl_len (proxies st) + tbl_len (banned st)"
proof -
  obtain px where px: "tbl_get (proxies st) key = Some px"
    and st1: "st1 = st\<lparr>proxies := tbl_del key (proxies st), banned := tbl_put key px (banned st)\<rparr>"
    using assms(3,4) by (rule ban_success_moved)
  have key: "proxy_key px = key" and ok: "keys_ok (proxies st)" "keys_ok (banned st)"
    using assms(1) px by (auto simp: pool_ok_def well_keyed_def dest: tbl_get_in_set)
  have st2: "r' = reply True (''Proxy '' @ key @ '' unbanned'')"
    "st2 = st1\<lparr>banned := tbl_del key (banned st1), proxies := tbl_put key px (proxies st1)\<rparr>"
    using assms(5) key by (simp_all add: unban_proxy_def st1)
  show ?thesis
    using tbl.move_back [OF ok px assms(2)] tbl.move_size [OF ok px assms(2)]
    by (simp add: st1 st2(2)) (simp add: st2(1) tbl_has_def)
qed

definition one_entry :: "nat shared_state" where
  "one_entry = snd (add_proxy ''h'' 80 None state_new)"

lemma ban_unban_roundtrip_witness:
  "success (fst (unban_proxy ''h:80'' (snd (ban_proxy ''h:80'' one_entry))))"
proof -
  have ok: "pool_ok one_entry"
    using api_ops.keeps [of state_new "ApiAdd ''h'' 80 None"]
    by (simp add: one_entry_def pool_ok_def state_new_def)
  have key: "host_port ''h'' 80 = ''h:80''" by (simp add: host_port_def) code_simp
  have "tbl_has (proxies one_entry) ''h:80''" "tbl_get (banned one_entry) ''h:80'' = None"
    by (simp_all add: one_entry_def add_proxy_def key state_new_def tbl_has_def Let_def)
  then have "success (fst (ban_proxy ''h:80'' one_entry))"
    using ban_success_iff [of "''h''" 80 one_entry] key by simp
  from ban_unban_roundtrip [OF ok \<open>tbl_get (banned one_entry) ''h:80'' = None\<close>
      prod.collapse [symmetric] this prod.collapse [symmetric]]
  show ?thesis by (rule conjunct1)
qed

section \<open>The files of a peer\<close>

text \<open>The files the handlers of one peer may touch: directly in its directory.\<close>

definition peer_file :: "string \<Rightarrow> string \<Rightarrow> bool" where
  "peer_file name path \<longleftrightarrow>
     (\<exists>f. split_char (CHR ''/'') path = [''data'', ''wg'', name, f])"

lemma safe_name_chars:
  assumes "is_safe_peer_name name"
  shows "CHR ''/'' \<notin> set name" "CHR ''.'' \<notin> set name" "CHR ''\"'' \<notin> set name"
  using assms by (auto simp: is_safe_peer_name_def list_all_iff is_safe_char_def Let_def)

lemma safe_paths:
  assumes "is_safe_peer_name name"
  shows "peer_file name (conf_path name)" "peer_file name (qr_path name)"
proof -
  have "split_char (CHR ''/'') (''data/wg/'' @ name @ CHR ''/'' # f) = [''data'', ''wg'', name, f]"
    if "CHR ''/'' \<notin> set f" for f
    using that safe_name_chars [OF assms] by (simp add: split_char_append split_char_no_sep)
  then show "peer_file name (conf_path name)" "peer_file name (qr_path name)"
    using safe_name_chars [OF assms] by (simp_all add: peer_file_def conf_path_def qr_path_def)
qed

text \<open>
  The download handlers cannot be led out of the directory of the peers.  Whatever the name
  in the request, the answer depends on no file but those in \<open>data/wg/<name>\<close>, and it depends on
  one only if the name is neither empty, nor \<open>.\<close> or \<open>..\<close>, nor has a slash.
\<close>

theorem peer_downloads_confined:
  assumes "\<And>path. peer_file name path \<Longrightarrow> name \<notin> {[], ''.'', ''..''} \<Longrightarrow> CHR ''/'' \<notin> set name \<Longrightarrow>
    read path = read' path"
  shows "peer_config read name = peer_config read' name \<and> peer_qr read name = peer_qr read' name"
proof (cases "is_safe_peer_name name")
  case True
  then have "name \<notin> {[], ''.'', ''..''}" "CHR ''/'' \<notin> set name"
    using safe_name_chars [OF True] by (auto simp: is_safe_peer_name_def)
  then show ?thesis
    using assms safe_paths [OF True] by (simp add: peer_config_def peer_qr_def)
qed (simp add: peer_config_def peer_qr_def)

lemma peer_downloads_confined_witness:
  "peer_config (\<lambda>path. if path = ''data/state.json'' then Some ''secret'' else None) ''../x'' =
     peer_config (\<lambda>path. None) ''../x''"
  by (rule peer_downloads_confined [THEN conjunct1]) simp

end
