(* ===== verification/Metrics.thy ===== *)
theory Metrics
  imports State
begin

text \<open>
  \<open>src/pool/metrics.rs\<close>: the figures collected from the shared state and their Prometheus
  text.  Sums of doubles are rounded at every step; counters of 64 bits wrap.  A hash map is
  iterated in the order of its table.
\<close>

section \<open>Collecting\<close>

record metrics =
  proxies_total :: nat
  proxies_alive :: nat
  proxies_fast_pool :: nat
  proxies_banned :: nat
  avg_latency_ms :: f64
  connections_active :: nat
  proxies_by_country :: "(string, nat) table"
  success_rate :: f64
  circuit_breaker_trips :: nat
  warm_pool_proxies :: nat
  warm_pool_hits :: u64
  warm_pool_misses :: u64
  sticky_sessions_active :: nat
  avg_uptime_secs :: f64

definition metrics_default :: metrics where
  "metrics_default =
     \<lparr>proxies_total = 0, proxies_alive = 0, proxies_fast_pool = 0, proxies_banned = 0,
      avg_latency_ms = Fin 0, connections_active = 0, proxies_by_country = [],
      success_rate = Fin 0, circuit_breaker_trips = 0, warm_pool_proxies = 0,
      warm_pool_hits = 0, warm_pool_misses = 0, sticky_sessions_active = 0,
      avg_uptime_secs = Fin 0\<rparr>"

definition f_average :: "f64 list \<Rightarrow> f64" where
  "f_average xs = (if xs \<noteq> [] then f_div (f_sum xs) (f_of_nat (length xs)) else Fin 0)"

definition count_country :: "proxy \<Rightarrow> (string, nat) table \<Rightarrow> (string, nat) table" where
  "count_country p m =
     (case country p of
        Some c \<Rightarrow> tbl_put c ((case tbl_get m c of Some n \<Rightarrow> n | None \<Rightarrow> 0) + 1) m
      | None \<Rightarrow> m)"

definition by_country :: "proxy list \<Rightarrow> (string, nat) table" where
  "by_country ps = fold count_country ps []"

definition totals :: "proxy list \<Rightarrow> u64 \<times> u64" where
  "totals ps = foldl (\<lambda>(s, f) p. (s + success_count p, f + fail_count p)) (0, 0) ps"

definition rate_of :: "u64 \<times> u64 \<Rightarrow> f64" where
  "rate_of sf = (case sf of (s, f) \<Rightarrow>
     (if 0 < s + f then f_div (f_of_nat (unat s)) (f_of_nat (unat (s + f))) else Fin 0))"

definition uptimes :: "clock \<Rightarrow> proxy list \<Rightarrow> f64 list" where
  "uptimes now ps =
     map (uptime_of now) (filter (\<lambda>p. is_available now p \<and> 0 < uptime_max_secs p) ps)"

definition collect :: "clock \<Rightarrow> 's shared_state \<Rightarrow> metrics" where
  "collect now st =
     (let ps = all_proxies st;
          alive = filter (is_available now) ps;
          warm = warm_stats (warm_pool st)
      in \<lparr>proxies_total = length ps, proxies_alive = length alive, proxies_fast_pool = 0,
          proxies_banned = tbl_len (banned st),
          avg_latency_ms = f_average (map latency_ewma alive),
          connections_active = unat (active_connections st),
          proxies_by_country = by_country ps, success_rate = rate_of (totals ps),
          circuit_breaker_trips = length (filter (\<lambda>p. circuit_open_until p \<noteq> None) ps),
          warm_pool_proxies = proxies_tracked warm, warm_pool_hits = st_hits warm,
          warm_pool_misses = st_misses warm,
          sticky_sessions_active = sticky_count (sticky_sessions st),
          avg_uptime_secs = f_average (uptimes now ps)\<rparr>)"

section \<open>Printing\<close>

text \<open>\<open>{:.d}\<close>: the exact value rounded to \<open>d\<close> decimals, ties to even.\<close>

definition show_scaled :: "nat \<Rightarrow> nat \<Rightarrow> string" where
  "show_scaled d n =
     (let frac = show_nat (n mod 10 ^ d)
      in if d = 0 then show_nat n
         else show_nat (n div 10 ^ d) @ ''.'' @ replicate (d - length frac) (CHR ''0'') @ frac)"

fun show_fixed :: "nat \<Rightarrow> f64 \<Rightarrow> string" where
  "show_fixed d (Fin x) =
     (if x < 0 then ''-'' else []) @ show_scaled d (nat (round_half_even (\<bar>x\<bar> * 10 ^ d)))"
| "show_fixed d PInf = ''inf''"
| "show_fixed d NInf = ''-inf''"
| "show_fixed d NaN = ''NaN''"

definition metric :: "string \<Rightarrow> string \<Rightarrow> string \<Rightarrow> string list \<Rightarrow> string list" where
  "metric name ty help_txt samples =
     [''# HELP '' @ name @ '' '' @ help_txt, ''# TYPE '' @ name @ '' '' @ ty] @ samples"

definition sample :: "string \<Rightarrow> string \<Rightarrow> string list" where
  "sample name v = [name @ '' '' @ v]"

definition country_sample :: "string \<times> nat \<Rightarrow> string" where
  "country_sample e =
     ''vpn_proxies_by_country{country='' @ CHR 0x22 # fst e @ CHR 0x22 # ''} '' @ show_nat (snd e)"

definition prometheus_lines :: "metrics \<Rightarrow> string list" where
  "prometheus_lines m =
     metric ''vpn_proxies_total'' ''gauge'' ''Total number of proxies''
       (sample ''vpn_proxies_total'' (show_nat (proxies_total m))) @
     metric ''vpn_proxies_alive'' ''gauge'' ''Number of alive proxies''
       (sample ''vpn_proxies_alive'' (show_nat (proxies_alive m))) @
     metric ''vpn_proxies_banned'' ''gauge'' ''Number of banned proxies''
       (sample ''vpn_proxies_banned'' (show_nat (proxies_banned m))) @
     metric ''vpn_avg_latency_ms'' ''gauge'' ''Average proxy latency in milliseconds''
       (sample ''vpn_avg_latency_ms'' (show_fixed 2 (avg_latency_ms m))) @
     metric ''vpn_connections_active'' ''gauge'' ''Active TCP connections''
       (sample ''vpn_connections_active'' (show_nat (connections_active m))) @
     metric ''vpn_success_rate'' ''gauge'' ''Overall success rate''
       (sample ''vpn_success_rate'' (show_fixed 4 (success_rate m))) @
     metric ''vpn_circuit_breaker_trips'' ''gauge'' ''Number of circuit breaker activations''
       (sample ''vpn_circuit_breaker_trips'' (show_nat (circuit_breaker_trips m))) @
     metric ''vpn_proxies_by_country'' ''gauge'' ''Proxies by country''
       (map country_sample (proxies_by_country m)) @
     metric ''vpn_warm_pool_proxies'' ''gauge'' ''Number of proxies with warm connections''
       (sample ''vpn_warm_pool_proxies'' (show_nat (warm_pool_proxies m))) @
     metric ''vpn_warm_pool_hits'' ''counter'' ''Warm pool connection hits''
       (sample ''vpn_warm_pool_hits'' (show_nat (unat (warm_pool_hits m)))) @
     metric ''vpn_warm_pool_misses'' ''counter'' ''Warm pool connection misses''
       (sample ''vpn_warm_pool_misses'' (show_nat (unat (warm_pool_misses m)))) @
     metric ''vpn_sticky_sessions_active'' ''gauge'' ''Active sticky sessions''
       (sample ''vpn_sticky_sessions_active'' (show_nat (sticky_sessions_active m))) @
     metric ''vpn_avg_uptime_secs'' ''gauge'' ''Average proxy uptime in seconds''
       (sample ''vpn_avg_uptime_secs'' (show_fixed 0 (avg_uptime_secs m)))"

fun join_nl :: "string list \<Rightarrow> string" where
  "join_nl [] = []"
| "join_nl [l] = l"
| "join_nl (l # ls) = l @ CHR 0x0A # join_nl ls"

definition format_prometheus :: "metrics \<Rightarrow> string" where
  "format_prometheus m = join_nl (prometheus_lines m)"

section \<open>Averages and rates\<close>

lemma f_sum_snoc: "f_sum (xs @ [x]) = f_add (f_sum xs) x"
  by (simp add: f_sum_def)

lemma f_sum_range:
  assumes "\<And>x. x \<in> set xs \<Longrightarrow> \<exists>a. x = Fin a \<and> 0 \<le> a \<and> a \<le> of_nat bound"
    "bound * length xs \<le> 2 ^ 53"
  shows "\<exists>s. f_sum xs = Fin s \<and> 0 \<le> s \<and> s \<le> of_nat (bound * length xs)"
  using assms
proof (induction xs rule: rev_induct)
  case Nil
  then show ?case by (simp add: f_sum_def)
next
  case (snoc x xs)
  then obtain s a where s: "f_sum xs = Fin s" "0 \<le> s" "s \<le> of_nat (bound * length xs)"
    and a: "x = Fin a" "0 \<le> a" "a \<le> of_nat bound" by fastforce
  have "int (bound * length (xs @ [x])) \<le> int (2 ^ 53)" using snoc.prems(2) of_nat_le_iff by blast
  then have "\<exists>r. f_mk (s + a) = Fin r \<and> of_int 0 \<le> r \<and> r \<le> of_int (int (bound * length (xs @ [x])))"
    using s a by (intro f_mk_between) (auto simp: algebra_simps)
  then show ?case by (auto simp: f_sum_snoc s(1) a(1))
qed

lemma f_average_range:
  assumes "\<And>x. x \<in> set xs \<Longrightarrow> \<exists>a. x = Fin a \<and> 0 \<le> a \<and> a \<le> of_nat bound"
    "bound * length xs \<le> 2 ^ 53" "length xs \<le> 2 ^ 53" "bound \<le> 2 ^ 53"
  shows "\<exists>s. f_average xs = Fin s \<and> 0 \<le> s \<and> s \<le> of_nat bound"
proof (cases "xs = []")
  case False
  obtain s where s: "f_sum xs = Fin s" "0 \<le> s" "s \<le> of_nat (bound * length xs)"
    using f_sum_range [of xs bound] assms(1,2) by auto
  have "s / of_nat (length xs) \<le> of_nat bound"
    using s(3) False by (simp add: divide_le_eq)
  moreover have "int bound \<le> int (2 ^ 53)" using assms(4) by (simp only: of_nat_le_iff)
  ultimately have "\<exists>r. f_mk (s / of_nat (length xs)) = Fin r \<and> of_int 0 \<le> r \<and> r \<le> of_int (int bound)"
    using s(2) by (intro f_mk_between) auto
  then show ?thesis using False s(1) assms(3) by (simp add: f_average_def f_of_nat_exact)
qed (simp add: f_average_def)

lemma ratio_range:
  assumes "s \<le> n" "0 < n" "n < 2 ^ 64"
  shows "\<exists>r. f_div (f_of_nat s) (f_of_nat n) = Fin r \<and> 0 \<le> r \<and> r \<le> 1"
proof -
  have "\<exists>a. f_of_nat k = Fin a \<and> (0 < k \<longrightarrow> 1 \<le> a) \<and> 0 \<le> a" if "k \<le> n" for k
  proof -
    have "f_of_nat 0 \<le> f_of_nat k" "0 < k \<Longrightarrow> f_of_nat 1 \<le> f_of_nat k"
      by (simp_all add: f_of_nat_mono)
    moreover have "f_of_nat k \<noteq> PInf"
    proof -
      have "(of_nat k :: rat) \<le> of_nat (2 ^ 64)" using that assms(3) by (simp only: of_nat_le_iff)
      then have "of_nat k \<le> (2 :: rat) powi 64" by simp
      then have "rnd (of_nat k) \<le> rnd (2 powi 64)" by (rule rnd_mono)
      also have "rnd (2 powi 64) = 2 powi 64" by code_simp
      finally have "rnd (of_nat k) < 2 powi 1024"
        using powi2_less [of 64 1024] by linarith
      then show ?thesis by (simp add: f_of_nat_def f_of_int_def f_mk_def Let_def)
    qed
    ultimately show ?thesis
      using f_of_nat_exact [of 0] f_of_nat_exact [of 1] by (cases "f_of_nat k") auto
  qed
  from this [of s] this [of n] obtain a b where
    ab: "f_of_nat s = Fin a" "0 \<le> a" "f_of_nat n = Fin b" "1 \<le> b"
    using assms by auto
  have "Fin a \<le> Fin b" using f_of_nat_mono [OF assms(1)] ab by simp
  then have "a / b \<le> 1" using ab by simp
  then have "\<exists>r. f_mk (a / b) = Fin r \<and> of_int 0 \<le> r \<and> r \<le> of_int 1"
    using ab by (intro f_mk_between) auto
  then show ?thesis using ab by simp
qed

definition successes :: "proxy list \<Rightarrow> nat" where
  "successes ps = sum_list (map (\<lambda>p. unat (success_count p)) ps)"

definition failures :: "proxy list \<Rightarrow> nat" where
  "failures ps = sum_list (map (\<lambda>p. unat (fail_count p)) ps)"

lemma totals_sums:
  "totals ps = (of_nat (successes ps), of_nat (failures ps))"
proof -
  have "foldl (\<lambda>(s, f) p. (s + success_count p, f + fail_count p)) (s, f) ps =
          (s + of_nat (successes ps), f + of_nat (failures ps))" for s f
    by (induction ps arbitrary: s f) (simp_all add: successes_def failures_def add.assoc)
  then show ?thesis by (simp add: totals_def)
qed

text \<open>
  C35: the reported figures make sense.  In a pool whose proxies have finite scores, of at most
  ten billion entries and with fewer than \<open>2 ^ 64\<close> recorded results in all, the average latency
  is a number between 0 and 60000 and the success rate one between 0 and 1: every rounding of
  the sums and of the divisions included, and also when there is nothing to average.
\<close>

theorem metrics_in_range:
  assumes "pool_ok st" "total_count st \<le> 10000000000"
    "successes (all_proxies st) + failures (all_proxies st) < 2 ^ 64"
  shows "\<exists>a r. avg_latency_ms (collect now st) = Fin a \<and> 0 \<le> a \<and> a \<le> 60000 \<and>
    success_rate (collect now st) = Fin r \<and> 0 \<le> r \<and> r \<le> 1"
proof -
  define alive where "alive = filter (is_available now) (all_proxies st)"
  have "length alive \<le> 10000000000"
    using assms(2) le_trans [OF length_filter_le [of "is_available now" "all_proxies st"]]
    by (simp add: alive_def total_count_def tbl_len_def) (simp add: all_proxies_def tbl_vals_def)
  moreover have "\<exists>a. x = Fin a \<and> 0 \<le> a \<and> a \<le> of_nat 60000" if "x \<in> set (map latency_ewma alive)" for x
    using that assms(1) well_keyed_vals [of "proxies st"]
    by (auto simp: alive_def all_proxies_def pool_ok_def score_ok_def ewma_ok_def)
  ultimately obtain a where a: "f_average (map latency_ewma alive) = Fin a" "0 \<le> a" "a \<le> 60000"
    using f_average_range [of "map latency_ewma alive" 60000] by auto
  let ?s = "successes (all_proxies st)" and ?f = "failures (all_proxies st)"
  have u: "unat (of_nat ?s :: u64) = ?s" "unat (of_nat ?s + of_nat ?f :: u64) = ?s + ?f"
    using assms(3) by (simp_all flip: of_nat_add add: unsigned_of_nat take_bit_eq_mod)
  have "\<exists>r. rate_of (totals (all_proxies st)) = Fin r \<and> 0 \<le> r \<and> r \<le> 1"
    using ratio_range [of ?s "?s + ?f"] assms(3)
    by (cases "?s + ?f = 0") (simp_all add: rate_of_def totals_sums word_less_nat_alt u)
  then obtain r where r: "rate_of (totals (all_proxies st)) = Fin r" "0 \<le> r" "r \<le> 1" by blast
  show ?thesis using a r by (simp add: collect_def Let_def alive_def)
qed

lemma metrics_in_range_witness:
  "\<exists>a r. avg_latency_ms (collect \<lparr>inst = 0, utc = 0\<rparr> demo_state) = Fin a \<and> 0 \<le> a \<and> a \<le> 60000 \<and>
    success_rate (collect \<lparr>inst = 0, utc = 0\<rparr> demo_state) = Fin r \<and> 0 \<le> r \<and> r \<le> 1"
  by (rule metrics_in_range [OF demo_pool_ok])
    (simp_all add: demo_state_def total_count_def all_proxies_def tbl_len_def tbl_vals_def
      successes_def failures_def demo_proxy_def proxy_new_def state_new_def)

section \<open>Countries\<close>

text \<open>
  The count of a country is the number of proxies of the pool, available or not, whose
  country it is; a country is listed exactly if it has a proxy.
\<close>

theorem country_counts_exact:
  "tbl_get (proxies_by_country (collect now st)) c =
     (let n = length (filter (\<lambda>p. country p = Some c) (all_proxies st))
      in if n = 0 then None else Some n)"
proof -
  have step: "keys_ok (count_country p m) \<and> tbl_get (count_country p m) c =
      (if country p = Some c then Some ((case tbl_get m c of Some n \<Rightarrow> n | None \<Rightarrow> 0) + 1)
       else tbl_get m c)" if "keys_ok m" for p and m :: "(string, nat) table"
    using that by (auto simp: count_country_def split: option.split)
  have "keys_ok m \<Longrightarrow> tbl_get (fold count_country ps m) c =
      (let n = length (filter (\<lambda>p. country p = Some c) ps) in
       case tbl_get m c of Some k \<Rightarrow> Some (k + n) | None \<Rightarrow> if n = 0 then None else Some n)"
    for ps and m :: "(string, nat) table"
    by (induction ps arbitrary: m) (auto simp: step Let_def split: option.split)
  from this [of "[]"] show ?thesis
    by (simp add: collect_def Let_def by_country_def)
qed

section \<open>The text\<close>

lemma join_nl_split:
  "ls \<noteq> [] \<Longrightarrow> list_all (\<lambda>l. CHR 0x0A \<notin> set l) ls \<Longrightarrow> split_char (CHR 0x0A) (join_nl ls) = ls"
  by (induction ls rule: join_nl.induct) (simp_all add: split_char_no_sep split_char_append)

lemma show_nat_one_line [simp]: "CHR 0x0A \<notin> set (show_nat n)"
  using show_nat_digits [of "CHR 0x0A" n] by (auto simp: is_digit_def)

lemma show_fixed_one_line [simp]: "CHR 0x0A \<notin> set (show_fixed d x)"
  by (cases x) (simp_all add: show_scaled_def Let_def)

lemma metric_one_line:
  "list_all (\<lambda>l. CHR 0x0A \<notin> set l) (metric n ty h ls) \<longleftrightarrow>
     CHR 0x0A \<notin> set n \<and> CHR 0x0A \<notin> set h \<and> CHR 0x0A \<notin> set ty \<and>
     list_all (\<lambda>l. CHR 0x0A \<notin> set l) ls"
  by (auto simp: metric_def)

text \<open>
  The Prometheus text is made of whole lines.  If no country name has a line feed, cutting
  the text at its line feeds gives back exactly the lines written: for each of the thirteen
  metrics its two comments, and one sample for each metric but the countries, which have one
  for every country counted.  No number prints as more than one line.
\<close>

theorem prometheus_lines_roundtrip:
  assumes "list_all (\<lambda>e. CHR 0x0A \<notin> set (fst e)) (proxies_by_country m)"
  shows "split_char (CHR 0x0A) (format_prometheus m) = prometheus_lines m \<and>
    length (prometheus_lines m) = 26 + 12 + length (proxies_by_country m)"
proof
  have "list_all (\<lambda>l. CHR 0x0A \<notin> set l) (map country_sample (proxies_by_country m))"
    using assms by (auto simp: list_all_iff country_sample_def)
  then have "list_all (\<lambda>l. CHR 0x0A \<notin> set l) (prometheus_lines m)"
    unfolding prometheus_lines_def sample_def by (simp add: metric_one_line)
  moreover have "prometheus_lines m \<noteq> []" by (simp add: prometheus_lines_def metric_def)
  ultimately show "split_char (CHR 0x0A) (format_prometheus m) = prometheus_lines m"
    by (simp add: format_prometheus_def join_nl_split)
  show "length (prometheus_lines m) = 26 + 12 + length (proxies_by_country m)"
    by (simp add: prometheus_lines_def metric_def sample_def)
qed

lemma prometheus_lines_roundtrip_witness:
  "length (split_char (CHR 0x0A) (format_prometheus
     (metrics_default\<lparr>proxies_by_country := [(''DE'', 2), (''US'', 1)]\<rparr>))) = 40"
  using prometheus_lines_roundtrip
    [of "metrics_default\<lparr>proxies_by_country := [(''DE'', 2), (''US'', 1)]\<rparr>"]
  by (simp add: metrics_default_def)

end
