(* ===== verification/Udp.thy ===== *)
theory Udp
  imports Sticky
begin

text \<open>
  \<open>src/proxy/udp.rs\<close>: the UDP relay.  Each datagram is handled by a task of its own; the tasks
  and the clean-up share a session table behind a fair readers-writer lock (requests are
  served in their order; a reader that waits for the upstream keeps the lock).  A task is a
  state machine whose phases are the points where it waits.  The name server is taken to be given
  by its address, so that \<open>send_to\<close> does not wait for a resolution.
\<close>

section \<open>Sessions and tasks\<close>

text \<open>A bound upstream socket is known by a number.\<close>

record udp_session =
  us_upstream :: nat
  us_last_activity :: nat

definition max_udp_tasks :: nat where
  "max_udp_tasks = 1000"

definition detect_upstream :: "u8 list \<Rightarrow> string \<Rightarrow> string" where
  "detect_upstream data dns =
     (if 12 < length data then
        (let flags = (of_nat (be16 (data ! 2) (data ! 3)) :: u16);
             qr = and (drop_bit 15 flags) 1;
             opcode = and (drop_bit 11 flags) 15
         in if qr = 0 \<and> opcode = 0 then dns else dns)
      else dns)"

datatype udp_phase =
  Checking
| Binding
| Inserting nat
| Looking
| Forwarding nat
| Touching
| Ended

record udp_task =
  ut_client :: sockaddr
  ut_data :: "u8 list"
  ut_phase :: udp_phase

text \<open>
  The relay: the sessions, the tasks, the queue of the lock (a task, or \<open>None\<close> for the
  clean-up), the free permits, and what has happened so far: the sockets bound with the client
  they were bound for, the datagrams sent upstream and the replies sent to clients, each with
  the upstream socket it went through.
\<close>

record udp =
  u_sessions :: "(sockaddr, udp_session) table"
  u_tasks :: "udp_task list"
  u_queue :: "nat option list"
  u_permits :: nat
  u_binds :: "(nat \<times> sockaddr) list"
  u_sent :: "(nat \<times> sockaddr \<times> string \<times> u8 list) list"
  u_replied :: "(nat \<times> sockaddr \<times> u8 list) list"

definition udp_start :: udp where
  "udp_start = \<lparr>u_sessions = [], u_tasks = [], u_queue = [], u_permits = max_udp_tasks,
     u_binds = [], u_sent = [], u_replied = []\<rparr>"

section \<open>Steps\<close>

definition udp_receive :: "sockaddr \<Rightarrow> u8 list \<Rightarrow> udp \<Rightarrow> udp" where
  "udp_receive client data u =
     (if 0 < u_permits u
      then u\<lparr>u_tasks := u_tasks u @ [\<lparr>ut_client = client, ut_data = data, ut_phase = Checking\<rparr>],
             u_queue := u_queue u @ [Some (length (u_tasks u))], u_permits := u_permits u - 1\<rparr>
      else u)"

definition set_phase :: "nat \<Rightarrow> udp_phase \<Rightarrow> udp \<Rightarrow> udp" where
  "set_phase i ph u = u\<lparr>u_tasks := (u_tasks u)[i := (u_tasks u ! i)\<lparr>ut_phase := ph\<rparr>]\<rparr>"

text \<open>A task that waits for the lock is at the end of its queue; one that ends frees its permit.\<close>

definition wait_lock :: "nat \<Rightarrow> udp_phase \<Rightarrow> udp \<Rightarrow> udp" where
  "wait_lock i ph u = (set_phase i ph u)\<lparr>u_queue := u_queue u @ [Some i]\<rparr>"

definition end_task :: "nat \<Rightarrow> udp \<Rightarrow> udp" where
  "end_task i u = (set_phase i Ended u)\<lparr>u_permits := u_permits u + 1\<rparr>"

definition forwarding :: "udp \<Rightarrow> bool" where
  "forwarding u \<longleftrightarrow> (\<exists>t \<in> set (u_tasks u). \<exists>s. ut_phase t = Forwarding s)"

definition cleanup_sessions ::
  "nat \<Rightarrow> (sockaddr, udp_session) table \<Rightarrow> (sockaddr, udp_session) table" where
  "cleanup_sessions now m = tbl_retain (\<lambda>_ s. now - us_last_activity s < secs 300) m"

text \<open>
  The critical sections that end before the task waits again, run when the lock is granted to
  the task.  The two writers need the lock for themselves.
\<close>

definition granted :: "nat \<Rightarrow> string \<Rightarrow> bool \<Rightarrow> nat \<Rightarrow> udp \<Rightarrow> udp option" where
  "granted now dns send_ok i u =
     (let t = u_tasks u ! i; c = ut_client t in
      case ut_phase t of
        Checking \<Rightarrow>
          Some (if tbl_has (u_sessions u) c then wait_lock i Looking u else set_phase i Binding u)
      | Inserting s \<Rightarrow>
          (if forwarding u then None
           else Some (wait_lock i Looking (u\<lparr>u_sessions :=
             tbl_put c \<lparr>us_upstream = s, us_last_activity = now\<rparr> (u_sessions u)\<rparr>)))
      | Looking \<Rightarrow>
          (case tbl_get (u_sessions u) c of
             None \<Rightarrow> Some (wait_lock i Touching u)
           | Some ss \<Rightarrow>
               (if send_ok
                then Some (set_phase i (Forwarding (us_upstream ss)) (u\<lparr>u_sent :=
                  u_sent u @ [(us_upstream ss, c, detect_upstream (ut_data t) dns, ut_data t)]\<rparr>))
                else Some (end_task i u)))
      | Touching \<Rightarrow>
          (if forwarding u then None
           else Some (end_task i (u\<lparr>u_sessions :=
             tbl_modify c (\<lambda>s. s\<lparr>us_last_activity := now\<rparr>) (u_sessions u)\<rparr>)))
      | _ \<Rightarrow> None)"

text \<open>
  What ends the wait for the upstream: a reply (which reaches the client or fails to), an
  error, or five seconds.
\<close>

datatype udp_answer = UReply "u8 list" bool | UError | UTimeout

definition answered :: "udp_answer \<Rightarrow> nat \<Rightarrow> nat \<Rightarrow> udp \<Rightarrow> udp" where
  "answered ans s i u =
     (case ans of
        UReply bs sent \<Rightarrow>
          (if sent then wait_lock i Touching (u\<lparr>u_replied :=
             u_replied u @ [(s, ut_client (u_tasks u ! i), bs)]\<rparr>)
           else end_task i u)
      | _ \<Rightarrow> wait_lock i Touching u)"

inductive udp_step :: "string \<Rightarrow> udp \<Rightarrow> udp \<Rightarrow> bool" for dns where
  receive: "udp_step dns u (udp_receive client data u)"
| tick: "udp_step dns u (u\<lparr>u_queue := u_queue u @ [None]\<rparr>)"
| grant: "u_queue u = Some i # q \<Longrightarrow> i < length (u_tasks u)
     \<Longrightarrow> granted now dns send_ok i (u\<lparr>u_queue := q\<rparr>) = Some u' \<Longrightarrow> udp_step dns u u'"
| clean: "u_queue u = None # q \<Longrightarrow> \<not> forwarding u
     \<Longrightarrow> udp_step dns u (u\<lparr>u_queue := q, u_sessions := cleanup_sessions now (u_sessions u)\<rparr>)"
| bind: "i < length (u_tasks u) \<Longrightarrow> ut_phase (u_tasks u ! i) = Binding
     \<Longrightarrow> s \<notin> fst ` set (u_binds u)
     \<Longrightarrow> udp_step dns u (wait_lock i (Inserting s)
           (u\<lparr>u_binds := u_binds u @ [(s, ut_client (u_tasks u ! i))]\<rparr>))"
| bind_fails: "i < length (u_tasks u) \<Longrightarrow> ut_phase (u_tasks u ! i) = Binding
     \<Longrightarrow> udp_step dns u (end_task i u)"
| answer: "i < length (u_tasks u) \<Longrightarrow> ut_phase (u_tasks u ! i) = Forwarding s
     \<Longrightarrow> udp_step dns u (answered ans s i u)"

inductive udp_reachable :: "string \<Rightarrow> udp \<Rightarrow> bool" for dns where
  start: "udp_reachable dns udp_start"
| step: "udp_reachable dns u \<Longrightarrow> udp_step dns u u' \<Longrightarrow> udp_reachable dns u'"

inductive_cases udp_stepE: "udp_step dns u u'"

section \<open>Framing\<close>

abbreviation phase_of :: "udp \<Rightarrow> nat \<Rightarrow> udp_phase" where
  "phase_of u i \<equiv> ut_phase (u_tasks u ! i)"

lemma set_phase_simps [simp]:
  "u_sessions (set_phase i ph u) = u_sessions u" "u_queue (set_phase i ph u) = u_queue u"
  "u_permits (set_phase i ph u) = u_permits u" "u_binds (set_phase i ph u) = u_binds u"
  "u_sent (set_phase i ph u) = u_sent u" "u_replied (set_phase i ph u) = u_replied u"
  "u_tasks (set_phase i ph u) = (u_tasks u)[i := (u_tasks u ! i)\<lparr>ut_phase := ph\<rparr>]"
  by (simp_all add: set_phase_def)

lemma wait_lock_simps [simp]:
  "u_sessions (wait_lock i ph u) = u_sessions u" "u_queue (wait_lock i ph u) = u_queue u @ [Some i]"
  "u_permits (wait_lock i ph u) = u_permits u" "u_binds (wait_lock i ph u) = u_binds u"
  "u_sent (wait_lock i ph u) = u_sent u" "u_replied (wait_lock i ph u) = u_replied u"
  "u_tasks (wait_lock i ph u) = u_tasks (set_phase i ph u)"
  by (simp_all add: wait_lock_def)

lemma end_task_simps [simp]:
  "u_sessions (end_task i u) = u_sessions u" "u_queue (end_task i u) = u_queue u"
  "u_permits (end_task i u) = u_permits u + 1" "u_binds (end_task i u) = u_binds u"
  "u_sent (end_task i u) = u_sent u" "u_replied (end_task i u) = u_replied u"
  "u_tasks (end_task i u) = u_tasks (set_phase i Ended u)"
  by (simp_all add: end_task_def)

lemma phase_of_update:
  "i < length ts \<Longrightarrow> ut_phase (ts[i := (ts ! i)\<lparr>ut_phase := ph\<rparr>] ! j) =
     (if j = i then ph else ut_phase (ts ! j))"
  by simp

section \<open>The invariant\<close>

text \<open>
  Every upstream socket belongs to the client it was bound for: in the sessions, in the tasks
  and in everything sent and received; and while a task waits for its upstream, its session
  is in the table.
\<close>

definition session_ok ::
  "(nat \<times> sockaddr) list \<Rightarrow> (sockaddr, udp_session) table \<Rightarrow> bool" where
  "session_ok bs m \<longleftrightarrow>
     keys_ok m \<and> (\<forall>c s. tbl_get m c = Some s \<longrightarrow> (us_upstream s, c) \<in> set bs)"

lemma session_ok_get: "session_ok bs m \<Longrightarrow> tbl_get m c = Some s \<Longrightarrow> (us_upstream s, c) \<in> set bs"
  by (simp add: session_ok_def del: split_paired_All)

definition task_ok ::
  "(nat \<times> sockaddr) list \<Rightarrow> (sockaddr, udp_session) table \<Rightarrow> udp_task \<Rightarrow> bool" where
  "task_ok bs m t \<longleftrightarrow>
     (case ut_phase t of
        Inserting s \<Rightarrow> (s, ut_client t) \<in> set bs
      | Forwarding s \<Rightarrow> (\<exists>ss. tbl_get m (ut_client t) = Some ss \<and> us_upstream ss = s)
      | _ \<Rightarrow> True)"

lemma task_ok_free [simp]:
  "task_ok bs m (t\<lparr>ut_phase := Touching\<rparr>)" "task_ok bs m (t\<lparr>ut_phase := Ended\<rparr>)"
  "task_ok bs m \<lparr>ut_client = c, ut_data = d, ut_phase = Checking\<rparr>"
  by (simp_all add: task_ok_def)

lemma session_ok_touch:
  "session_ok bs m \<Longrightarrow> session_ok bs (tbl_modify c (\<lambda>s. s\<lparr>us_last_activity := now\<rparr>) m)"
  by (auto simp: session_ok_def tbl_modify_def simp del: split_paired_All split: option.split)

definition udp_ok :: "string \<Rightarrow> udp \<Rightarrow> bool" where
  "udp_ok dns u \<longleftrightarrow> distinct (map fst (u_binds u)) \<and> session_ok (u_binds u) (u_sessions u)
     \<and> (\<forall>t \<in> set (u_tasks u). task_ok (u_binds u) (u_sessions u) t)
     \<and> (\<forall>(s, c, a, d) \<in> set (u_sent u). (s, c) \<in> set (u_binds u) \<and> a = dns)
     \<and> (\<forall>(s, c, d) \<in> set (u_replied u). (s, c) \<in> set (u_binds u))"

lemma udp_ok_frame [simp]:
  "udp_ok dns (u\<lparr>u_queue := q\<rparr>) \<longleftrightarrow> udp_ok dns u"
  "udp_ok dns (u\<lparr>u_permits := n\<rparr>) \<longleftrightarrow> udp_ok dns u"
  by (simp_all add: udp_ok_def)

lemma udp_ok_set_phase:
  assumes "udp_ok dns u" "task_ok (u_binds u) (u_sessions u) ((u_tasks u ! i)\<lparr>ut_phase := ph\<rparr>)"
  shows "udp_ok dns (set_phase i ph u)" "udp_ok dns (wait_lock i ph u)"
proof -
  have "\<forall>t \<in> set ((u_tasks u)[i := (u_tasks u ! i)\<lparr>ut_phase := ph\<rparr>]).
      task_ok (u_binds u) (u_sessions u) t"
    using assms set_update_subset_insert [of "u_tasks u" i "(u_tasks u ! i)\<lparr>ut_phase := ph\<rparr>"]
    by (auto simp: udp_ok_def)
  then show "udp_ok dns (set_phase i ph u)" "udp_ok dns (wait_lock i ph u)"
    using assms(1) by (simp_all add: udp_ok_def)
qed

lemma udp_ok_end_task: "udp_ok dns u \<Longrightarrow> udp_ok dns (end_task i u)"
  using udp_ok_set_phase(1) [of dns u Ended i] by (simp add: end_task_def task_ok_def)

lemma udp_ok_sessions:
  assumes "udp_ok dns u" "\<not> forwarding u" "session_ok (u_binds u) m"
  shows "udp_ok dns (u\<lparr>u_sessions := m\<rparr>)"
proof -
  have "task_ok (u_binds u) m t" if "t \<in> set (u_tasks u)" for t
    using assms(1,2) that by (cases "ut_phase t") (auto simp: udp_ok_def task_ok_def forwarding_def)
  then show ?thesis using assms(1,3) by (simp add: udp_ok_def)
qed

lemma detect_upstream_dns [simp]: "detect_upstream data dns = dns"
  by (simp add: detect_upstream_def Let_def)

lemma granted_ok:
  assumes "udp_ok dns u" "i < length (u_tasks u)" "granted now dns send_ok i u = Some u'"
  shows "udp_ok dns u'"
proof -
  let ?t = "u_tasks u ! i"
  have t: "task_ok (u_binds u) (u_sessions u) ?t" and s: "session_ok (u_binds u) (u_sessions u)"
    using assms(1,2) by (auto simp: udp_ok_def)
  have trivial: "task_ok bs m (?t\<lparr>ut_phase := ph\<rparr>)" if "ph \<in> {Looking, Binding, Touching}" for bs m ph
    using that by (auto simp: task_ok_def)
  show ?thesis
  proof (cases "ut_phase ?t")
    case Checking
    then show ?thesis using assms(3) udp_ok_set_phase [OF assms(1) trivial]
      by (auto simp: granted_def Let_def split: if_splits)
  next
    case (Inserting k)
    define m where "m = tbl_put (ut_client ?t) \<lparr>us_upstream = k, us_last_activity = now\<rparr> (u_sessions u)"
    have "session_ok (u_binds u) m" using s t Inserting by (auto simp: session_ok_def task_ok_def m_def)
    moreover have "\<not> forwarding u" "u' = wait_lock i Looking (u\<lparr>u_sessions := m\<rparr>)"
      using assms(3) Inserting by (auto simp: granted_def Let_def m_def split: if_splits)
    ultimately show ?thesis
      using udp_ok_set_phase(2) [OF udp_ok_sessions [OF assms(1)], of m Looking i]
      by (simp add: task_ok_def)
  next
    case Looking
    show ?thesis
    proof (cases "tbl_get (u_sessions u) (ut_client ?t)")
      case None
      then show ?thesis using Looking assms(3) udp_ok_set_phase(2) [OF assms(1) trivial]
        by (auto simp: granted_def Let_def)
    next
      case (Some ss)
      from s this have "(us_upstream ss, ut_client ?t) \<in> set (u_binds u)" by (rule session_ok_get)
      then have "udp_ok dns (u\<lparr>u_sent := u_sent u @ [(us_upstream ss, ut_client ?t, dns, ut_data ?t)]\<rparr>)"
        using assms(1) by (auto simp: udp_ok_def)
      from udp_ok_set_phase(1) [OF this, of "Forwarding (us_upstream ss)" i]
      show ?thesis using Looking Some assms(1,3)
        by (auto simp: granted_def Let_def task_ok_def udp_ok_end_task split: if_splits)
    qed
  next
    case Touching
    define m where "m = tbl_modify (ut_client ?t) (\<lambda>s. s\<lparr>us_last_activity := now\<rparr>) (u_sessions u)"
    have "session_ok (u_binds u) m"
      unfolding m_def using s by (rule session_ok_touch)
    moreover have "\<not> forwarding u" "u' = end_task i (u\<lparr>u_sessions := m\<rparr>)"
      using assms(3) Touching by (auto simp: granted_def Let_def m_def split: if_splits)
    ultimately show ?thesis using udp_ok_end_task [OF udp_ok_sessions [OF assms(1)]] by simp
  qed (use assms(3) in \<open>simp_all add: granted_def Let_def\<close>)
qed

lemma session_ok_more: "session_ok bs m \<Longrightarrow> session_ok (bs @ bs') m"
  by (auto simp: session_ok_def)

lemma task_ok_more: "task_ok bs m t \<Longrightarrow> task_ok (bs @ bs') m t"
  by (auto simp: task_ok_def split: udp_phase.splits)

lemma session_ok_cleanup: "session_ok bs m \<Longrightarrow> session_ok bs (cleanup_sessions now m)"
proof -
  assume s: "session_ok bs m"
  have "(us_upstream v, c) \<in> set bs" if "tbl_get (cleanup_sessions now m) c = Some v" for c v
  proof -
    from that have "(c, v) \<in> set m"
      using tbl_get_in_set [of "cleanup_sessions now m" c v]
      by (auto simp: cleanup_sessions_def tbl_retain_def)
    then have "tbl_get m c = Some v" using s by (intro in_set_tbl_get) (auto simp: session_ok_def)
    with s show ?thesis by (rule session_ok_get)
  qed
  with s show ?thesis by (simp add: session_ok_def cleanup_sessions_def del: split_paired_All)
qed

lemma udp_ok_step:
  assumes "udp_step dns u u'" "udp_ok dns u" shows "udp_ok dns u'"
  using assms(1)
proof (cases rule: udp_step.cases)
  case (receive client data)
  then show ?thesis using assms(2) by (auto simp: udp_receive_def udp_ok_def)
next
  case (grant i q now send_ok)
  then show ?thesis using granted_ok [of dns "u\<lparr>u_queue := q\<rparr>"] assms(2) by simp
next
  case (clean q now)
  have "session_ok (u_binds u) (u_sessions u)" using assms(2) by (simp add: udp_ok_def)
  from udp_ok_sessions [OF assms(2) clean(3) session_ok_cleanup [OF this, of now]] clean(1)
  show ?thesis by (simp add: udp_ok_def)
next
  case (bind i s)
  let ?c = "ut_client (u_tasks u ! i)"
  have "udp_ok dns (u\<lparr>u_binds := u_binds u @ [(s, ?c)]\<rparr>)"
    using assms(2) bind(4) by (auto simp: udp_ok_def intro: session_ok_more task_ok_more)
  from udp_ok_set_phase(2) [OF this, of "Inserting s" i] bind(1) show ?thesis
    by (simp add: task_ok_def)
next
  case (bind_fails i)
  then show ?thesis using udp_ok_end_task assms(2) by simp
next
  case (answer i s ans)
  have "u_tasks u ! i \<in> set (u_tasks u)" using answer(2) by simp
  then have "task_ok (u_binds u) (u_sessions u) (u_tasks u ! i)" using assms(2) by (simp add: udp_ok_def)
  then obtain ss where "tbl_get (u_sessions u) (ut_client (u_tasks u ! i)) = Some ss" "us_upstream ss = s"
    using answer(3) by (auto simp: task_ok_def)
  then have "(s, ut_client (u_tasks u ! i)) \<in> set (u_binds u)"
    using assms(2) session_ok_get [of "u_binds u" "u_sessions u" "ut_client (u_tasks u ! i)" ss]
    by (simp add: udp_ok_def)
  then have "udp_ok dns (u\<lparr>u_replied := u_replied u @ [(s, ut_client (u_tasks u ! i), bs)]\<rparr>)" for bs
    using assms(2) by (auto simp: udp_ok_def)
  from udp_ok_set_phase(2) [OF this, where ph = Touching and i = i]
  show ?thesis using answer(1) udp_ok_set_phase(2) [OF assms(2), of Touching i] udp_ok_end_task [OF assms(2)]
    by (simp add: answered_def task_ok_def split: udp_answer.split)
qed (use assms(2) in simp_all)

lemma udp_reachable_ok: "udp_reachable dns u \<Longrightarrow> udp_ok dns u"
proof (induction rule: udp_reachable.induct)
  case start
  then show ?case by (simp add: udp_ok_def udp_start_def session_ok_def tbl_get_def)
next
  case (step u u')
  then show ?case by (blast intro: udp_ok_step)
qed

section \<open>Properties\<close>

text \<open>
  C22: the relay keeps its clients apart.  Under every interleaving of the tasks, the clean-up
  and the arriving datagrams, a reply goes to a client only if it came in on a socket that was
  bound for this client and on which no other client's datagram has ever been sent; all
  datagrams go to the configured name server; and while a task waits for its upstream, its
  client's session keeps the socket it waits on.
\<close>

theorem udp_clients_isolated:
  assumes "udp_reachable dns u"
  shows "((s, c, a, d) \<in> set (u_sent u) \<longrightarrow> a = dns \<and>
      ((s, c', d') \<in> set (u_replied u) \<longrightarrow> c' = c)) \<and>
    (t \<in> set (u_tasks u) \<and> ut_phase t = Forwarding s \<longrightarrow>
      (\<exists>ss. tbl_get (u_sessions u) (ut_client t) = Some ss \<and> us_upstream ss = s))"
proof -
  have ok: "udp_ok dns u" using assms by (rule udp_reachable_ok)
  have "a = dns \<and> c' = c" if "(s, c, a, d) \<in> set (u_sent u)" "(s, c', d') \<in> set (u_replied u)"
  proof -
    from ok that have "(s, c) \<in> set (u_binds u)" "(s, c') \<in> set (u_binds u)" "a = dns"
      "distinct (map fst (u_binds u))" by (auto simp: udp_ok_def)
    then show ?thesis using eq_key_imp_eq_value by metis
  qed
  with ok show ?thesis by (auto simp: udp_ok_def task_ok_def)
qed

text \<open>A run: one datagram forwarded, its answer outstanding.\<close>

definition one_query :: udp where
  "one_query = set_phase 0 (Forwarding 7) (udp_start\<lparr>
     u_tasks := [\<lparr>ut_client = (V4 9, 5), ut_data = [1], ut_phase = Looking\<rparr>], u_permits := 999,
     u_binds := [(7, (V4 9, 5))],
     u_sessions := [((V4 9, 5), \<lparr>us_upstream = 7, us_last_activity = 0\<rparr>)],
     u_sent := [(7, (V4 9, 5), ''10.13.13.1:5353'', [1])]\<rparr>)"

lemma one_query_reachable: "udp_reachable ''10.13.13.1:5353'' one_query"
proof -
  let ?d = "''10.13.13.1:5353''" and ?c = "(V4 9, 5) :: sockaddr"
  define t where "t ph = \<lparr>ut_client = ?c, ut_data = [1], ut_phase = ph\<rparr>" for ph
  define base where "base = udp_start\<lparr>u_permits := 999\<rparr>"
  define ss where "ss = [(?c, \<lparr>us_upstream = 7, us_last_activity = 0\<rparr>)]"
  note defs = t_def base_def ss_def udp_start_def max_udp_tasks_def
  have 1: "udp_reachable ?d (base\<lparr>u_tasks := [t Checking], u_queue := [Some 0]\<rparr>)"
    using udp_reachable.step [OF udp_reachable.start udp_step.receive [of ?d _ ?c "[1]"]]
    by (simp add: udp_receive_def defs)
  have "udp_step ?d (base\<lparr>u_tasks := [t Checking], u_queue := [Some 0]\<rparr>) (base\<lparr>u_tasks := [t Binding]\<rparr>)"
    by (rule udp_step.grant [where i = 0 and q = "[]" and now = 0 and send_ok = True])
      (simp_all add: granted_def Let_def defs tbl_has_def tbl_get_def set_phase_def)
  note 2 = udp_reachable.step [OF 1 this]
  have "udp_step ?d (base\<lparr>u_tasks := [t Binding]\<rparr>)
      (base\<lparr>u_tasks := [t (Inserting 7)], u_queue := [Some 0], u_binds := [(7, ?c)]\<rparr>)"
    using udp_step.bind [of 0 "base\<lparr>u_tasks := [t Binding]\<rparr>" 7 ?d]
    by (simp add: defs wait_lock_def set_phase_def)
  note 3 = udp_reachable.step [OF 2 this]
  have "udp_step ?d (base\<lparr>u_tasks := [t (Inserting 7)], u_queue := [Some 0], u_binds := [(7, ?c)]\<rparr>)
      (base\<lparr>u_tasks := [t Looking], u_queue := [Some 0], u_binds := [(7, ?c)], u_sessions := ss\<rparr>)"
    by (rule udp_step.grant [where i = 0 and q = "[]" and now = 0 and send_ok = True])
      (simp_all add: granted_def Let_def defs forwarding_def wait_lock_def set_phase_def tbl_put_def)
  note 4 = udp_reachable.step [OF 3 this]
  have "udp_step ?d
      (base\<lparr>u_tasks := [t Looking], u_queue := [Some 0], u_binds := [(7, ?c)], u_sessions := ss\<rparr>) one_query"
    by (rule udp_step.grant [where i = 0 and q = "[]" and now = 0 and send_ok = True])
      (simp_all add: granted_def Let_def defs one_query_def set_phase_def tbl_get_def)
  from udp_reachable.step [OF 4 this] show ?thesis .
qed

lemma udp_clients_isolated_witness:
  "\<exists>ss. tbl_get (u_sessions one_query) (V4 9, 5) = Some ss \<and> us_upstream ss = 7"
  using udp_clients_isolated [OF one_query_reachable, of 7 _ _ _ _ _ "hd (u_tasks one_query)"]
  by (simp add: one_query_def udp_start_def set_phase_def)

section \<open>One silent upstream holds up every client\<close>

fun phase_rank :: "udp_phase \<Rightarrow> nat" where
  "phase_rank Checking = 0"
| "phase_rank Binding = 1"
| "phase_rank (Inserting _) = 2"
| "phase_rank Looking = 3"
| "phase_rank (Forwarding _) = 4"
| "phase_rank Touching = 5"
| "phase_rank Ended = 6"

lemma granted_rank:
  assumes "granted now dns send_ok k u = Some u'" "k < length (u_tasks u)" "i < length (u_tasks u)"
  shows "phase_rank (phase_of u i) \<le> phase_rank (phase_of u' i) \<and>
    length (u_tasks u') = length (u_tasks u)"
  using assms
  by (cases "phase_of u k")
    (auto simp: granted_def Let_def phase_of_update nth_list_update split: if_splits option.splits)

lemma step_rank:
  assumes "udp_step dns u u'" "i < length (u_tasks u)"
  shows "phase_rank (phase_of u i) \<le> phase_rank (phase_of u' i) \<and>
    length (u_tasks u) \<le> length (u_tasks u')"
  using assms(1)
proof (cases rule: udp_step.cases)
  case (receive client data)
  then show ?thesis using assms(2) by (simp add: udp_receive_def nth_append)
next
  case (grant k q now send_ok)
  then show ?thesis using granted_rank [of now dns send_ok k "u\<lparr>u_queue := q\<rparr>" u' i] assms(2) by simp
next
  case (answer k s ans)
  then show ?thesis using assms(2)
    by (auto simp: answered_def nth_list_update split: udp_answer.split)
qed (use assms(2) in \<open>auto simp: nth_list_update\<close>)

text \<open>The next request for the lock is that of a writer.\<close>

definition writer_next :: "udp \<Rightarrow> bool" where
  "writer_next u \<longleftrightarrow>
     (case u_queue u of
        [] \<Rightarrow> False
      | None # _ \<Rightarrow> True
      | Some j # _ \<Rightarrow> j < length (u_tasks u) \<and> phase_rank (phase_of u j) \<in> {2, 5})"

definition stalled :: "udp \<Rightarrow> udp \<Rightarrow> bool" where
  "stalled u u' \<longleftrightarrow> writer_next u' \<and> (\<exists>q. u_queue u' = u_queue u @ q)
     \<and> u_sessions u' = u_sessions u \<and> u_sent u' = u_sent u"

lemma writer_next_frame:
  assumes "writer_next u" "u_queue u' = u_queue u @ q" "length (u_tasks u) \<le> length (u_tasks u')"
    "\<And>j. j < length (u_tasks u) \<Longrightarrow> phase_rank (phase_of u j) \<in> {2, 5} \<Longrightarrow>
      phase_of u' j = phase_of u j"
  shows "writer_next u'"
proof (cases "u_queue u")
  case (Cons e es)
  then show ?thesis using assms by (cases e) (auto simp: writer_next_def)
qed (use assms in \<open>simp add: writer_next_def\<close>)

lemma stalled_step:
  assumes "udp_step dns u u'" "forwarding u" "writer_next u"
  shows "stalled u u'"
  using assms(1)
proof (cases rule: udp_step.cases)
  case (receive client data)
  then show ?thesis unfolding stalled_def
    using writer_next_frame [OF assms(3), of u'] assms(3) by (auto simp: udp_receive_def nth_append)
next
  case tick
  then show ?thesis unfolding stalled_def
    using writer_next_frame [OF assms(3), of u'] by auto
next
  case (grant j q now send_ok)
  have "phase_rank (phase_of u j) \<in> {2, 5}" using assms(3) grant(1) by (simp add: writer_next_def)
  moreover have "forwarding (u\<lparr>u_queue := q\<rparr>)" using assms(2) by (simp add: forwarding_def)
  ultimately have "granted now dns send_ok j (u\<lparr>u_queue := q\<rparr>) = None"
    by (cases "phase_of u j") (auto simp: granted_def Let_def)
  with grant show ?thesis by simp
next
  case (bind i s)
  have "phase_of u' j = phase_of u j" if "phase_rank (phase_of u j) \<in> {2, 5}" for j
    using that bind(1,3) by (cases "j = i") auto
  then show ?thesis unfolding stalled_def
    using writer_next_frame [OF assms(3), of u' "[Some i]"] bind(1) by auto
next
  case (bind_fails i)
  have "phase_of u' j = phase_of u j" if "phase_rank (phase_of u j) \<in> {2, 5}" for j
    using that bind_fails(1,3) by (cases "j = i") auto
  then show ?thesis unfolding stalled_def
    using writer_next_frame [OF assms(3), of u' "[]"] bind_fails(1) by auto
next
  case (answer i s ans)
  have "phase_of u' j = phase_of u j" if "phase_rank (phase_of u j) \<in> {2, 5}" for j
    using that answer(1,3) by (cases "j = i") (auto simp: answered_def split: udp_answer.split)
  moreover have "\<exists>q. u_queue u' = u_queue u @ q" "length (u_tasks u') = length (u_tasks u)"
    "u_sessions u' = u_sessions u" "u_sent u' = u_sent u"
    using answer(1) by (auto simp: answered_def split: udp_answer.split)
  ultimately show ?thesis unfolding stalled_def
    using writer_next_frame [OF assms(3), of u'] by auto
qed (use assms(2) in simp)

text \<open>
  C27: one name server that does not answer holds up every client.  As long as some task waits
  for its upstream and the next in the queue of the lock is a writer (a new client's session,
  the end of another task, or the clean-up), the whole relay stands still: whatever else
  happens, nobody's datagram is forwarded, no session is created or refreshed, and no request
  for the lock is served.
\<close>

theorem silent_upstream_stalls_relay:
  assumes "(udp_step dns)\<^sup>*\<^sup>* u u'" "i < length (u_tasks u)" "writer_next u"
    "phase_of u i = Forwarding s" "phase_of u' i = Forwarding s'"
  shows "u_sent u' = u_sent u \<and> u_sessions u' = u_sessions u \<and> (\<exists>q. u_queue u' = u_queue u @ q)"
proof -
  have "4 \<le> phase_rank (phase_of u' i) \<and> i < length (u_tasks u') \<and>
      (phase_rank (phase_of u' i) = 4 \<longrightarrow> stalled u u')"
    using assms(1)
  proof (induction rule: rtranclp_induct)
    case base
    then show ?case using assms(2,3,4) by (simp add: stalled_def)
  next
    case (step y z)
    note r = step_rank [OF step.hyps(2), of i]
    have "stalled u z" if "phase_rank (phase_of z i) = 4"
    proof -
      have y: "phase_rank (phase_of y i) = 4" "i < length (u_tasks y)" using r step.IH that by auto
      then have "phase_of y i \<in> ut_phase ` set (u_tasks y)" by simp
      moreover obtain k where "phase_of y i = Forwarding k" using y(1) by (cases "phase_of y i") auto
      ultimately have "forwarding y" by (force simp: forwarding_def)
      moreover have "stalled u y" using step.IH y(1) by blast
      ultimately show ?thesis using stalled_step [OF step.hyps(2)] by (auto simp: stalled_def)
    qed
    with r step.IH show ?case by auto
  qed
  with assms(5) show ?thesis by (auto simp: stalled_def)
qed

lemma silent_upstream_stalls_relay_witness:
  "u_sent (udp_receive (V4 8, 1) [2] (one_query\<lparr>u_queue := [None]\<rparr>)) = u_sent one_query"
proof -
  let ?u = "one_query\<lparr>u_queue := [None]\<rparr>"
  have "(udp_step ''10.13.13.1:5353'')\<^sup>*\<^sup>* ?u (udp_receive (V4 8, 1) [2] ?u)"
    by (rule r_into_rtranclp) (rule udp_step.receive)
  from silent_upstream_stalls_relay [OF this, of 0 7 7] show ?thesis
    by (simp add: one_query_def writer_next_def set_phase_def udp_start_def udp_receive_def)
qed

section \<open>Permits\<close>

definition live_tasks :: "udp \<Rightarrow> nat" where
  "live_tasks u = length (filter (\<lambda>t. ut_phase t \<noteq> Ended) (u_tasks u))"

definition permits_ok :: "udp \<Rightarrow> bool" where
  "permits_ok u \<longleftrightarrow> u_permits u + live_tasks u = max_udp_tasks"

lemma live_update:
  assumes "i < length ts" "ut_phase (ts ! i) \<noteq> Ended"
  shows "length (filter (\<lambda>t. ut_phase t \<noteq> Ended) (ts[i := (ts ! i)\<lparr>ut_phase := ph\<rparr>])) + (if ph = Ended then 1 else 0) =
    length (filter (\<lambda>t. ut_phase t \<noteq> Ended) ts)"
proof -
  have "filter (\<lambda>t. ut_phase t \<noteq> Ended) ts =
      filter (\<lambda>t. ut_phase t \<noteq> Ended) (take i ts @ ts ! i # drop (Suc i) ts)"
    using id_take_nth_drop [OF assms(1)] by simp
  then show ?thesis using assms by (simp add: upd_conv_take_nth_drop)
qed

lemma permits_ok_moves:
  assumes "permits_ok u" "i < length (u_tasks u)" "phase_of u i \<noteq> Ended"
  shows "ph \<noteq> Ended \<Longrightarrow> permits_ok (set_phase i ph u)" "ph \<noteq> Ended \<Longrightarrow> permits_ok (wait_lock i ph u)"
    "permits_ok (end_task i u)"
  using assms live_update [OF assms(2,3), of ph] live_update [OF assms(2,3), of Ended]
  by (simp_all add: permits_ok_def live_tasks_def)

lemma permits_ok_frame [simp]:
  "permits_ok (u\<lparr>u_queue := q\<rparr>) \<longleftrightarrow> permits_ok u" "permits_ok (u\<lparr>u_binds := b\<rparr>) \<longleftrightarrow> permits_ok u"
  "permits_ok (u\<lparr>u_sessions := m\<rparr>) \<longleftrightarrow> permits_ok u" "permits_ok (u\<lparr>u_sent := l\<rparr>) \<longleftrightarrow> permits_ok u"
  "permits_ok (u\<lparr>u_replied := r\<rparr>) \<longleftrightarrow> permits_ok u"
  by (simp_all add: permits_ok_def live_tasks_def)

lemma permits_ok_step:
  assumes "udp_step dns u u'" "permits_ok u" shows "permits_ok u'"
  using assms(1)
proof (cases rule: udp_step.cases)
  case (receive client data)
  then show ?thesis using assms(2) by (auto simp: udp_receive_def permits_ok_def live_tasks_def)
next
  case (grant i q now send_ok)
  then show ?thesis using assms(2)
    by (cases "phase_of u i")
      (auto simp: granted_def Let_def intro!: permits_ok_moves split: if_splits option.splits)
next
  case (answer i s ans)
  then show ?thesis using assms(2)
    by (auto simp: answered_def intro!: permits_ok_moves split: udp_answer.split)
qed (use assms(2) in \<open>auto intro!: permits_ok_moves\<close>)

text \<open>
  At most a thousand datagrams are in flight: in every reachable state the free permits and
  the tasks that have not ended add up to the limit, so no end of a task, early returns on
  errors included, loses a permit or gives one back twice.
\<close>

theorem udp_permits_exact:
  assumes "udp_reachable dns u"
  shows "u_permits u + live_tasks u = max_udp_tasks"
proof -
  from assms have "permits_ok u"
  proof (induction rule: udp_reachable.induct)
    case start
    then show ?case by (simp add: permits_ok_def udp_start_def live_tasks_def)
  next
    case (step u u')
    then show ?case by (blast intro: permits_ok_step)
  qed
  then show ?thesis by (simp add: permits_ok_def)
qed

lemma udp_permits_exact_witness: "u_permits one_query + live_tasks one_query = 1000"
  using udp_permits_exact [OF one_query_reachable] by (simp add: max_udp_tasks_def)

end
