(* ===== verification/Config.thy ===== *)
theory Config
  imports RustStd
begin

text \<open>
  \<open>src/config.rs\<close>: the configuration, its defaults, loading and reloading.  Reading the file
  and parsing JSON are parameters; what serde does with the parsed object, filling in a default
  for every field that is missing, is modelled.
\<close>

section \<open>The configuration\<close>

record config =
  c_gateway_port :: u16
  c_api_port :: u16
  c_udp_port :: u16
  c_max_proxies :: nat
  c_max_connections :: nat
  c_health_check_interval :: u64
  c_source_update_interval :: u64
  c_preferred_countries :: "string list"
  c_exclude_countries :: "string list"
  c_geoip_path :: "string option"
  c_state_path :: string
  c_sources_path :: string
  c_connection_pool_max_idle :: u64
  c_connection_pool_max_per_proxy :: nat
  c_enable_connection_pool :: bool
  c_sticky_session_ttl :: u64
  c_enable_sticky_sessions :: bool
  c_dns_upstream :: string
  c_api_bind :: string
  c_enable_warm_pool :: bool
  c_warm_pool_max_per_proxy :: nat
  c_warm_pool_max_proxies :: nat
  c_warm_pool_refresh_interval :: u64
  c_warm_pool_max_age_secs :: u64

definition config_default :: config where
  "config_default =
     \<lparr>c_gateway_port = 1080,
      c_api_port = 8080,
      c_udp_port = 1081,
      c_max_proxies = 5000,
      c_max_connections = 10000,
      c_health_check_interval = 30,
      c_source_update_interval = 300,
      c_preferred_countries = [],
      c_exclude_countries = [],
      c_geoip_path = None,
      c_state_path = ''data/state.json'',
      c_sources_path = ''config/sources.json'',
      c_connection_pool_max_idle = 60,
      c_connection_pool_max_per_proxy = 10,
      c_enable_connection_pool = False,
      c_sticky_session_ttl = 300,
      c_enable_sticky_sessions = False,
      c_dns_upstream = ''10.13.13.1:5353'',
      c_api_bind = ''10.13.13.1'',
      c_enable_warm_pool = False,
      c_warm_pool_max_per_proxy = 2,
      c_warm_pool_max_proxies = 5,
      c_warm_pool_refresh_interval = 20,
      c_warm_pool_max_age_secs = 45\<rparr>"

text \<open>A parsed configuration object of the right types, with the fields it has.\<close>

record raw_config =
  r_gateway_port :: "u16 option"
  r_api_port :: "u16 option"
  r_udp_port :: "u16 option"
  r_max_proxies :: "nat option"
  r_max_connections :: "nat option"
  r_health_check_interval :: "u64 option"
  r_source_update_interval :: "u64 option"
  r_preferred_countries :: "(string list) option"
  r_exclude_countries :: "(string list) option"
  r_geoip_path :: "(string option) option"
  r_state_path :: "string option"
  r_sources_path :: "string option"
  r_connection_pool_max_idle :: "u64 option"
  r_connection_pool_max_per_proxy :: "nat option"
  r_enable_connection_pool :: "bool option"
  r_sticky_session_ttl :: "u64 option"
  r_enable_sticky_sessions :: "bool option"
  r_dns_upstream :: "string option"
  r_api_bind :: "string option"
  r_enable_warm_pool :: "bool option"
  r_warm_pool_max_per_proxy :: "nat option"
  r_warm_pool_max_proxies :: "nat option"
  r_warm_pool_refresh_interval :: "u64 option"
  r_warm_pool_max_age_secs :: "u64 option"

definition or_default :: "'a option \<Rightarrow> 'a \<Rightarrow> 'a" where
  "or_default v d = (case v of Some x \<Rightarrow> x | None \<Rightarrow> d)"

definition fill_defaults :: "raw_config \<Rightarrow> config" where
  "fill_defaults r =
     \<lparr>c_gateway_port = or_default (r_gateway_port r) 1080,
      c_api_port = or_default (r_api_port r) 8080,
      c_udp_port = or_default (r_udp_port r) 1081,
      c_max_proxies = or_default (r_max_proxies r) 5000,
      c_max_connections = or_default (r_max_connections r) 10000,
      c_health_check_interval = or_default (r_health_check_interval r) 30,
      c_source_update_interval = or_default (r_source_update_interval r) 300,
      c_preferred_countries = or_default (r_preferred_countries r) [],
      c_exclude_countries = or_default (r_exclude_countries r) [],
      c_geoip_path = or_default (r_geoip_path r) None,
      c_state_path = or_default (r_state_path r) ''data/state.json'',
      c_sources_path = or_default (r_sources_path r) ''config/sources.json'',
      c_connection_pool_max_idle = or_default (r_connection_pool_max_idle r) 60,
      c_connection_pool_max_per_proxy = or_default (r_connection_pool_max_per_proxy r) 10,
      c_enable_connection_pool = or_default (r_enable_connection_pool r) False,
      c_sticky_session_ttl = or_default (r_sticky_session_ttl r) 300,
      c_enable_sticky_sessions = or_default (r_enable_sticky_sessions r) False,
      c_dns_upstream = or_default (r_dns_upstream r) ''10.13.13.1:5353'',
      c_api_bind = or_default (r_api_bind r) ''10.13.13.1'',
      c_enable_warm_pool = or_default (r_enable_warm_pool r) False,
      c_warm_pool_max_per_proxy = or_default (r_warm_pool_max_per_proxy r) 2,
      c_warm_pool_max_proxies = or_default (r_warm_pool_max_proxies r) 5,
      c_warm_pool_refresh_interval = or_default (r_warm_pool_refresh_interval r) 20,
      c_warm_pool_max_age_secs = or_default (r_warm_pool_max_age_secs r) 45\<rparr>"

section \<open>Loading\<close>

text \<open>\<open>read path\<close>: the content of a file; \<open>parse\<close>: the object serde finds in a text.\<close>

type_synonym config_env = "(string \<Rightarrow> string option) \<times> (string \<Rightarrow> raw_config option)"

definition load_from_file :: "config_env \<Rightarrow> string \<Rightarrow> config option" where
  "load_from_file env path =
     (case env of (read, parse) \<Rightarrow>
        Option.bind (read path) (\<lambda>content. map_option fill_defaults (parse content)))"

definition load_or_default :: "config_env \<Rightarrow> string \<Rightarrow> config" where
  "load_or_default env path =
     (case load_from_file env path of Some c \<Rightarrow> c | None \<Rightarrow> config_default)"

section \<open>The manager\<close>

record config_manager =
  cm_config :: config
  cm_watch_path :: string

definition config_manager_new :: "config_env \<Rightarrow> string \<Rightarrow> config_manager" where
  "config_manager_new env path =
     \<lparr>cm_config = load_or_default env path, cm_watch_path = path\<rparr>"

definition config_get :: "config_manager \<Rightarrow> config" where
  "config_get m = cm_config m"

definition config_update :: "config \<Rightarrow> config_manager \<Rightarrow> config_manager" where
  "config_update c m = m\<lparr>cm_config := c\<rparr>"

text \<open>Reloading tells whether it succeeded.\<close>

definition config_reload :: "config_env \<Rightarrow> config_manager \<Rightarrow> bool \<times> config_manager" where
  "config_reload env m =
     (case load_from_file env (cm_watch_path m) of
        Some c \<Rightarrow> (True, m\<lparr>cm_config := c\<rparr>)
      | None \<Rightarrow> (False, m))"

section \<open>Facts\<close>

definition raw_empty :: raw_config where
  "raw_empty =
     \<lparr>r_gateway_port = None,
      r_api_port = None,
      r_udp_port = None,
      r_max_proxies = None,
      r_max_connections = None,
      r_health_check_interval = None,
      r_source_update_interval = None,
      r_preferred_countries = None,
      r_exclude_countries = None,
      r_geoip_path = None,
      r_state_path = None,
      r_sources_path = None,
      r_connection_pool_max_idle = None,
      r_connection_pool_max_per_proxy = None,
      r_enable_connection_pool = None,
      r_sticky_session_ttl = None,
      r_enable_sticky_sessions = None,
      r_dns_upstream = None,
      r_api_bind = None,
      r_enable_warm_pool = None,
      r_warm_pool_max_per_proxy = None,
      r_warm_pool_max_proxies = None,
      r_warm_pool_refresh_interval = None,
      r_warm_pool_max_age_secs = None\<rparr>"

text \<open>
  The two sources of defaults, serde's attributes and \<open>Default\<close>, agree: an empty object is the
  default configuration.
\<close>

lemma fill_defaults_empty: "fill_defaults raw_empty = config_default"
  by (simp add: fill_defaults_def raw_empty_def config_default_def or_default_def)

definition raw_of :: "config \<Rightarrow> raw_config" where
  "raw_of c =
     \<lparr>r_gateway_port = Some (c_gateway_port c),
      r_api_port = Some (c_api_port c),
      r_udp_port = Some (c_udp_port c),
      r_max_proxies = Some (c_max_proxies c),
      r_max_connections = Some (c_max_connections c),
      r_health_check_interval = Some (c_health_check_interval c),
      r_source_update_interval = Some (c_source_update_interval c),
      r_preferred_countries = Some (c_preferred_countries c),
      r_exclude_countries = Some (c_exclude_countries c),
      r_geoip_path = Some (c_geoip_path c),
      r_state_path = Some (c_state_path c),
      r_sources_path = Some (c_sources_path c),
      r_connection_pool_max_idle = Some (c_connection_pool_max_idle c),
      r_connection_pool_max_per_proxy = Some (c_connection_pool_max_per_proxy c),
      r_enable_connection_pool = Some (c_enable_connection_pool c),
      r_sticky_session_ttl = Some (c_sticky_session_ttl c),
      r_enable_sticky_sessions = Some (c_enable_sticky_sessions c),
      r_dns_upstream = Some (c_dns_upstream c),
      r_api_bind = Some (c_api_bind c),
      r_enable_warm_pool = Some (c_enable_warm_pool c),
      r_warm_pool_max_per_proxy = Some (c_warm_pool_max_per_proxy c),
      r_warm_pool_max_proxies = Some (c_warm_pool_max_proxies c),
      r_warm_pool_refresh_interval = Some (c_warm_pool_refresh_interval c),
      r_warm_pool_max_age_secs = Some (c_warm_pool_max_age_secs c)\<rparr>"

lemma fill_defaults_raw_of: "fill_defaults (raw_of c) = c"
  by (simp add: fill_defaults_def raw_of_def or_default_def)

end
