(* ===== verification/Sources.thy ===== *)
theory Sources
  imports State
begin

text \<open>
  \<open>src/pool/source_manager.rs\<close>: the fetched of free proxies, the parser of their lines, the
  fetch with its retries and the two ways the fetched enter the pool.  What a request to a
  source answers, the content of the sources file and the order in which the concurrent
  fetches complete are parameters.
\<close>

section \<open>The built-in sources\<close>

definition default_sources :: "(string \<times> protocol) list" where
  "default_sources =
     [
      (''https://api.proxyscrape.com/v2/?request=getproxies&protocol=http&timeout=5000&country=all'',
       Http),
      (''https://raw.githubusercontent.com/TheSpeedX/PROXY-List/master/http.txt'',
       Http),
      (''https://raw.githubusercontent.com/monosans/proxy-list/main/proxies/http.txt'',
       Http),
      (''https://raw.githubusercontent.com/ShiftyTR/Proxy-List/master/http.txt'',
       Http),
      (''https://www.proxy-list.download/api/v1/get?type=http'',
       Http),
      (''https://raw.githubusercontent.com/clarketm/proxy-list/master/proxy-list-raw.txt'',
       Http),
      (''https://raw.githubusercontent.com/mmpx12/proxy-list/master/http.txt'',
       Http),
      (''https://raw.githubusercontent.com/prxchk/proxy-list/main/http.txt'',
       Http),
      (''https://raw.githubusercontent.com/zloi-user/hideip.me/main/http.txt'',
       Http),
      (''https://raw.githubusercontent.com/rdavydov/proxy-list/main/proxies/http.txt'',
       Http),
      (''https://raw.githubusercontent.com/saschazesiger/Free-Proxies/master/proxies/http.txt'',
       Http),
      (''https://raw.githubusercontent.com/UptimerBot/proxy-list/main/proxies/http.txt'',
       Http),
      (''https://raw.githubusercontent.com/MuRongPIG/Proxy-Master/main/http.txt'',
       Http),
      (''https://raw.githubusercontent.com/sunny9577/proxy-scraper/master/generated/http_proxies.txt'',
       Http),
      (''https://raw.githubusercontent.com/ErcinDedeworx/proxy-list/main/proxy-list/data.txt'',
       Http),
      (''https://api.proxyscrape.com/v2/?request=getproxies&protocol=socks5&timeout=5000&country=all'',
       Socks5),
      (''https://raw.githubusercontent.com/TheSpeedX/PROXY-List/master/socks5.txt'',
       Socks5),
      (''https://raw.githubusercontent.com/monosans/proxy-list/main/proxies/socks5.txt'',
       Socks5),
      (''https://raw.githubusercontent.com/ShiftyTR/Proxy-List/master/socks5.txt'',
       Socks5),
      (''https://www.proxy-list.download/api/v1/get?type=socks5'',
       Socks5),
      (''https://raw.githubusercontent.com/mmpx12/proxy-list/master/socks5.txt'',
       Socks5),
      (''https://raw.githubusercontent.com/prxchk/proxy-list/main/socks5.txt'',
       Socks5),
      (''https://raw.githubusercontent.com/zloi-user/hideip.me/main/socks5.txt'',
       Socks5),
      (''https://raw.githubusercontent.com/hookzof/socks5_list/master/proxy.txt'',
       Socks5),
      (''https://raw.githubusercontent.com/rdavydov/proxy-list/main/proxies/socks5.txt'',
       Socks5),
      (''https://raw.githubusercontent.com/saschazesiger/Free-Proxies/master/proxies/socks5.txt'',
       Socks5),
      (''https://raw.githubusercontent.com/UptimerBot/proxy-list/main/proxies/socks5.txt'',
       Socks5)
     ]"

section \<open>Lines\<close>

definition parse_line :: "string \<Rightarrow> protocol \<Rightarrow> proxy option" where
  "parse_line line proto =
     (let line = rust_trim line in
      if line = [] \<or> hd line = CHR ''#'' then None
      else (case splitn2 (CHR '':'') line of
              [h, p] \<Rightarrow>
                (let host_part = rust_trim h in
                 case parse_u16 (rust_trim p) of
                   None \<Rightarrow> None
                 | Some prt \<Rightarrow>
                     if parse_ipv4 host_part = None then None
                     else Some (proxy_new host_part prt proto))
            | _ \<Rightarrow> None))"

section \<open>Fetching\<close>

text \<open>One attempt: the request fails, its body cannot be read, or there is a body.\<close>

datatype fetch_result = SendError | BodyError | Body string

definition parse_body :: "string \<Rightarrow> protocol \<Rightarrow> proxy list" where
  "parse_body txt proto = List.map_filter (\<lambda>l. parse_line l proto) (rust_lines txt)"

text \<open>
  \<open>answers n\<close> is the outcome of attempt \<open>n\<close>; the result also counts the requests made.  Only
  a failed request is tried again.
\<close>

function fetch_from :: "nat \<Rightarrow> (nat \<Rightarrow> fetch_result) \<Rightarrow> protocol \<Rightarrow> proxy list \<times> nat" where
  "fetch_from n answers proto =
     (if n < 3 then
        (case answers n of
           Body txt \<Rightarrow> if txt \<noteq> [] then (parse_body txt proto, n + 1) else ([], n + 1)
         | BodyError \<Rightarrow> ([], n + 1)
         | SendError \<Rightarrow> if n < 2 then fetch_from (n + 1) answers proto else ([], n + 1))
      else ([], n))"
  by pat_completeness auto
termination by (relation "measure (\<lambda>(n, answers, proto). 3 - n)") auto

declare fetch_from.simps [simp del]

type_synonym web = "string \<Rightarrow> nat \<Rightarrow> fetch_result"

definition fetch_source :: "web \<Rightarrow> string \<Rightarrow> protocol \<Rightarrow> proxy list" where
  "fetch_source web url proto = fst (fetch_from 0 (web url) proto)"

section \<open>Filling the pool\<close>

definition insert_counted :: "proxy \<Rightarrow> nat \<times> 's shared_state \<Rightarrow> nat \<times> 's shared_state" where
  "insert_counted p acc =
     (case acc of (n, st) \<Rightarrow> (case insert_if_absent p st of (new, st') \<Rightarrow> (if new then n + 1 else n, st')))"

text \<open>One completed fetch: the first \<open>limit\<close> of its proxies are inserted.\<close>

definition take_batch ::
  "nat \<Rightarrow> proxy list \<Rightarrow> nat \<times> 's shared_state \<Rightarrow> nat \<times> 's shared_state" where
  "take_batch limit ps acc = fold insert_counted (take limit ps) acc"

text \<open>\<open>arrival\<close> permutes the fetched fetched into the order in which they complete.\<close>

type_synonym arrival = "proxy list list \<Rightarrow> proxy list list"

definition fast_bootstrap ::
  "web \<Rightarrow> arrival \<Rightarrow> 's shared_state \<Rightarrow> nat \<times> 's shared_state" where
  "fast_bootstrap web arrival st =
     fold (take_batch 20)
       (arrival (map (\<lambda>(url, proto). fetch_source web url proto) (take 3 default_sources))) (0, st)"

definition max_per_source :: nat where
  "max_per_source = 500"

fun contains_str :: "string \<Rightarrow> string \<Rightarrow> bool" where
  "contains_str p [] \<longleftrightarrow> p = []"
| "contains_str p (c # cs) \<longleftrightarrow> take (length p) (c # cs) = p \<or> contains_str p cs"

definition guess_protocol :: "string \<Rightarrow> protocol" where
  "guess_protocol url = (if contains_str ''socks5'' url then Socks5 else Http)"

text \<open>
  The sources file: \<open>None\<close> when it cannot be read; \<open>parse_json\<close> is what serde makes of its
  content.
\<close>

definition load_sources ::
  "(string \<Rightarrow> string list option) \<Rightarrow> string option \<Rightarrow> string list" where
  "load_sources parse_json content =
     (case content of
        None \<Rightarrow> map fst default_sources
      | Some c \<Rightarrow> (case parse_json c of Some sources \<Rightarrow> sources | None \<Rightarrow> map fst default_sources))"

definition full_refresh ::
  "(string \<Rightarrow> string list option) \<Rightarrow> string option \<Rightarrow> web \<Rightarrow> arrival \<Rightarrow> clock
   \<Rightarrow> 's shared_state \<Rightarrow> nat \<times> 's shared_state" where
  "full_refresh parse_json content web arrival now st =
     (let urls = load_sources parse_json content;
          fetched = map (\<lambda>url. fetch_source web url (guess_protocol url)) urls
      in case fold (take_batch max_per_source) (arrival fetched) (0, st) of
           (added, st') \<Rightarrow> (added, cleanup_stale now st'))"

text \<open>
  The endless loop of refreshes, up to some tick: the first tick, which is immediate, is skipped,
  and every later one refreshes from the sources file as it is then, with the web and the clock
  it finds.  \<open>tokio::time::interval\<close> panics on a zero period.
\<close>

definition interval :: "nat \<Rightarrow> nat comp" where
  "interval period = (if period = 0 then Panic else Ret period)"

record refresh_world =
  rw_files :: "string \<Rightarrow> string option"
  rw_web :: web
  rw_arrival :: arrival
  rw_now :: clock

definition refresh_with ::
  "(string \<Rightarrow> string list option) \<Rightarrow> string \<Rightarrow> refresh_world \<Rightarrow> 's shared_state \<Rightarrow> 's shared_state" where
  "refresh_with parse_json path rw st =
     snd (full_refresh parse_json (rw_files rw path) (rw_web rw) (rw_arrival rw) (rw_now rw) st)"

definition run_source_loop_with_path ::
  "(string \<Rightarrow> string list option) \<Rightarrow> string \<Rightarrow> nat \<Rightarrow> refresh_world list
   \<Rightarrow> 's shared_state \<Rightarrow> 's shared_state comp" where
  "run_source_loop_with_path parse_json path interval_secs ticks st =
     comp_bind (interval interval_secs) (\<lambda>_. Ret (fold (refresh_with parse_json path) (tl ticks) st))"

definition run_source_loop ::
  "(string \<Rightarrow> string list option) \<Rightarrow> nat \<Rightarrow> refresh_world list \<Rightarrow> 's shared_state
   \<Rightarrow> 's shared_state comp" where
  "run_source_loop parse_json = run_source_loop_with_path parse_json ''config/sources.json''"

section \<open>Substrings\<close>

lemma contains_append: "contains_str p (p @ s)"
proof (cases "p @ s")
  case (Cons a as)
  have "take (length p) (p @ s) = p" by simp
  with Cons show ?thesis by simp
qed simp

lemma contains_prefix: "contains_str p s \<Longrightarrow> contains_str p (x @ s)"
  by (induction x) auto

lemma contains_in: "contains_str p (x @ p @ y)"
  by (rule contains_prefix) (rule contains_append)

section \<open>Lines, again\<close>

text \<open>Strings without white space are left alone by \<open>trim\<close>.\<close>

definition plain :: "char \<Rightarrow> bool" where
  "plain c \<longleftrightarrow> 33 \<le> (of_char c :: nat) \<and> (of_char c :: nat) < 128"

lemma ws_at_plain: "plain c \<Longrightarrow> ws_at (codes (c # cs)) = 0"
  by (auto simp: plain_def codes_def split: list.split)

lemma ws_at_end_plain: "plain c \<Longrightarrow> ws_at_end (codes (c # cs)) = 0"
  by (auto simp: plain_def codes_def split: list.split)

lemma rust_trim_plain:
  assumes "\<forall>c \<in> set s. plain c" shows "rust_trim s = s"
proof -
  have "trim_start s = s"
    using assms ws_at_plain by (cases s) (simp_all add: trim_start.simps Let_def)
  moreover have "trim_end_rev (rev s) = rev s"
    using assms ws_at_end_plain by (cases "rev s") (simp_all add: trim_end_rev.simps Let_def flip: set_rev [of s])
  ultimately show ?thesis by (simp add: rust_trim_def)
qed

lemma plain_digit: "is_digit c \<Longrightarrow> plain c"
  by (simp add: is_digit_def plain_def)

lemma plain_dot: "plain (CHR ''.'')"
  by (simp add: plain_def)

lemma set_split_char: "set s \<subseteq> insert c (\<Union> (set ` set (split_char c s)))"
proof (induction s)
  case (Cons a s)
  then show ?case by (cases "split_char c s") auto
qed simp

lemma parse_ipv4_chars:
  assumes "parse_ipv4 h \<noteq> None" shows "h \<noteq> []" and "\<forall>c \<in> set h. is_digit c \<or> c = CHR ''.''"
proof -
  from assms have p: "length (split_char (CHR ''.'') h) = 4"
    "\<forall>w \<in> set (split_char (CHR ''.'') h). \<forall>c \<in> set w. is_digit c"
    by (auto simp: parse_ipv4_def Let_def octet_ok_def list_all_iff split: if_splits)
  from p(1) show "h \<noteq> []" by auto
  from p(2) set_split_char [of h "CHR ''.''"] show "\<forall>c \<in> set h. is_digit c \<or> c = CHR ''.''" by blast
qed

lemma parse_line_host_port:
  assumes "parse_ipv4 h \<noteq> None" shows "parse_line (host_port h p) proto = Some (proxy_new h p proto)"
proof -
  note h = parse_ipv4_chars [OF assms]
  have ph: "\<forall>c \<in> set h. plain c" using h(2) plain_digit plain_dot by auto
  have pp: "\<forall>c \<in> set (show_u16 p). plain c" using show_nat_digits plain_digit by (auto simp: show_u16_def)
  have "plain (CHR '':'')" by (simp add: plain_def)
  with ph pp have t: "rust_trim (host_port h p) = host_port h p"
    by (intro rust_trim_plain) (auto simp: host_port_def)
  have nc: "\<forall>c \<in> set h. c \<noteq> CHR '':''" using h(2) digit_not_special by auto
  then have "splitn2 (CHR '':'') (host_port h p) = [h, show_u16 p]"
    by (simp add: splitn2_def host_port_def takeWhile_append2 dropWhile_append2 Let_def)
  moreover have "hd (host_port h p) \<noteq> CHR ''#''"
    using h digit_not_special by (cases h) (auto simp: host_port_def)
  moreover have "host_port h p \<noteq> []" by (simp add: host_port_def)
  ultimately show ?thesis
    using t rust_trim_plain [OF ph] rust_trim_plain [OF pp] assms parse_u16_show_u16 [of p]
    by (simp add: parse_line_def)
qed

lemma parse_line_sound:
  "parse_line l proto = Some px \<Longrightarrow> \<exists>h p. px = proxy_new h p proto \<and> parse_ipv4 h \<noteq> None"
  by (auto simp: parse_line_def Let_def split: if_splits list.splits option.splits)

lemma parse_line_score_ok: "parse_line l proto = Some px \<Longrightarrow> score_ok px"
  by (auto dest: parse_line_sound)

lemma fetched_score_ok: "p \<in> set (fetch_source web url proto) \<Longrightarrow> score_ok p"
proof -
  have "\<forall>p \<in> set (fst (fetch_from n answers proto)). score_ok p" for n answers
  proof (induction n answers proto rule: fetch_from.induct)
    case (1 n answers proto)
    then show ?case
      by (subst fetch_from.simps)
        (auto split: fetch_result.split simp: parse_body_def List.map_filter_def parse_line_score_ok)
  qed
  then show "p \<in> set (fetch_source web url proto) \<Longrightarrow> score_ok p" by (simp add: fetch_source_def)
qed

section \<open>Retries\<close>

lemma fetch_from_requests: "n \<le> 3 \<Longrightarrow> snd (fetch_from n answers proto) \<le> 3"
  by (induction n answers proto rule: fetch_from.induct)
    (subst fetch_from.simps, auto split: fetch_result.split)

lemma fetch_from_body:
  "k < 3 \<Longrightarrow> n \<le> k \<Longrightarrow> \<forall>i. n \<le> i \<and> i < k \<longrightarrow> answers i = SendError \<Longrightarrow> answers k = Body txt
     \<Longrightarrow> fetch_from n answers proto = (if txt = [] then [] else parse_body txt proto, k + 1)"
proof (induction n answers proto rule: fetch_from.induct)
  case (1 n answers proto)
  show ?case
  proof (cases "n = k")
    case True
    with 1 show ?thesis by (subst fetch_from.simps) simp
  next
    case False
    with 1 have "answers n = SendError" "n < 2" "n < 3" by auto
    with 1 False show ?thesis by (subst fetch_from.simps) simp
  qed
qed

lemma lines_from_plain:
  "\<forall>c \<in> set s. c \<noteq> CHR 10 \<Longrightarrow> s \<noteq> [] \<or> acc \<noteq> [] \<Longrightarrow> lines_from acc s = [rev acc @ s]"
  by (induction s arbitrary: acc) auto

text \<open>A source whose whole answer is the address of one proxy.\<close>

lemma fetch_one_line:
  assumes "parse_ipv4 h \<noteq> None" "w url 0 = Body (host_port h prt)"
  shows "fetch_source w url proto = [proxy_new h prt proto]"
proof -
  have "\<forall>c \<in> set (host_port h prt). c \<noteq> CHR 10"
    using parse_ipv4_chars [OF assms(1)] show_nat_digits [of "CHR 10" "unat prt"]
    by (auto simp: host_port_def show_u16_def is_digit_def)
  moreover have "host_port h prt \<noteq> []" by (simp add: host_port_def)
  ultimately have "rust_lines (host_port h prt) = [host_port h prt]"
    using lines_from_plain [of "host_port h prt" "[]"] by (simp add: rust_lines_def)
  then show ?thesis
    using fetch_from_body [of 0 0 "w url" "host_port h prt" proto] assms(2) parse_line_host_port [OF assms(1)]
      \<open>host_port h prt \<noteq> []\<close>
    by (simp add: fetch_source_def parse_body_def List.map_filter_def)
qed

section \<open>Counting what was inserted\<close>

definition growth :: "'s shared_state \<Rightarrow> nat \<times> 's shared_state \<Rightarrow> bool" where
  "growth st0 acc \<longleftrightarrow> keys_ok (proxies (snd acc)) \<and> max_proxies (snd acc) = max_proxies st0
     \<and> total_count (snd acc) = total_count st0 + fst acc
     \<and> (0 < max_proxies st0 \<longrightarrow> total_count (snd acc) \<le> max (total_count st0) (max_proxies st0))"

lemma growth_step: "growth st0 acc \<Longrightarrow> growth st0 (insert_counted p acc)"
  by (cases acc) (auto simp: growth_def insert_counted_def insert_if_absent_def total_count_def
      tbl_len_put max_def split: if_splits)

interpretation counted: keeps "growth st0" insert_counted for st0 :: "'s shared_state"
  by unfold_locales (rule growth_step)

lemma growth_batch: "growth st0 acc \<Longrightarrow> growth st0 (take_batch n ps acc)"
  unfolding take_batch_def by (rule counted.keeps_fold)

interpretation batches: keeps "growth st0" "take_batch n" for st0 :: "'s shared_state" and n
  by unfold_locales (rule growth_batch)

lemma insert_counted_le: "fst (insert_counted p acc) \<le> fst acc + 1"
  by (cases acc) (simp add: insert_counted_def split: prod.split)

lemma take_batch_le: "fst (take_batch n ps acc) \<le> fst acc + n"
proof -
  have "fst (fold insert_counted qs a) \<le> fst a + length qs" for qs and a :: "nat \<times> 'a shared_state"
  proof (induction qs arbitrary: a)
    case (Cons q qs)
    from Cons [of "insert_counted q a"] insert_counted_le [of q a] show ?case by simp
  qed simp
  from this [of "take n ps" acc] show ?thesis by (simp add: take_batch_def)
qed

lemma batches_le: "fst (fold (take_batch n) fetched acc) \<le> fst acc + n * length fetched"
proof (induction fetched arbitrary: acc)
  case (Cons l fetched)
  from Cons [of "take_batch n l acc"] take_batch_le [of n l acc] show ?case by simp
qed simp

section \<open>Properties\<close>

text \<open>
  Every proxy that a line of a source yields is a fresh proxy with an IPv4 host, and its
  key read as a line yields the same proxy again.
\<close>

theorem source_line_roundtrip:
  assumes "parse_line l proto = Some px"
  shows "parse_ipv4 (host px) \<noteq> None \<and> px = proxy_new (host px) (port px) proto
    \<and> parse_line (proxy_key px) (protocol px) = Some px"
proof -
  from parse_line_sound [OF assms] obtain h p where
    "px = proxy_new h p proto" "parse_ipv4 h \<noteq> None" by blast
  with parse_line_host_port [of h p proto] show ?thesis
    by (simp add: proxy_new_def proxy_key_def)
qed

theorem source_line_roundtrip_witness:
  "parse_line (proxy_key (proxy_new ''1.2.3.4'' 80 Http)) Http = Some (proxy_new ''1.2.3.4'' 80 Http)"
proof -
  have "parse_ipv4 ''1.2.3.4'' \<noteq> None"
    by (simp add: parse_ipv4_def octet_ok_def is_digit_def digits_val_def digit_val_def)
  from source_line_roundtrip [OF parse_line_host_port [OF this, of 80 Http]] show ?thesis
    by (simp add: proxy_new_def proxy_key_def)
qed

text \<open>
  The bootstrap reports exactly the number of proxies it added, at most sixty, and never
  fills the pool beyond its limit, in whatever order the fetches complete.
\<close>

theorem bootstrap_counts:
  assumes "keys_ok (proxies st)" "\<And>xs. length (arrival xs) = length xs"
    and "fast_bootstrap web arrival st = (n, st')"
  shows "total_count st' = total_count st + n \<and> n \<le> 60
    \<and> (0 < max_proxies st \<longrightarrow> total_count st' \<le> max (total_count st) (max_proxies st))"
proof -
  let ?fetched = "arrival (map (\<lambda>(url, proto). fetch_source web url proto) (take 3 default_sources))"
  have "growth st (0, st)" using assms(1) by (simp add: growth_def)
  from batches.keeps_fold [OF this, of 20 ?fetched] assms(3) have "growth st (n, st')"
    by (simp add: fast_bootstrap_def)
  moreover have "length ?fetched = 3" using assms(2) by (simp add: default_sources_def)
  then have "n \<le> 60" using batches_le [of 20 ?fetched "(0, st)"] assms(3) by (simp add: fast_bootstrap_def)
  ultimately show ?thesis unfolding growth_def by auto
qed

theorem bootstrap_counts_witness:
  "fst (fast_bootstrap (\<lambda>_ _. SendError) (\<lambda>xs. xs) (state_new :: nat shared_state)) \<le> 60"
proof -
  let ?r = "fast_bootstrap (\<lambda>_ _. SendError) (\<lambda>xs. xs) (state_new :: nat shared_state)"
  have "keys_ok (proxies (state_new :: nat shared_state))" by (simp add: state_new_def)
  from bootstrap_counts [OF this, of "\<lambda>xs. xs" "\<lambda>_ _. SendError" "fst ?r" "snd ?r"] show ?thesis by simp
qed

text \<open>
  A source is asked at most three times; only a request that fails is repeated, and the
  first answer with a body decides, an empty one included.
\<close>

theorem fetch_decides_on_first_answer:
  assumes "k < 3" "\<forall>i < k. web url i = SendError" "web url k = Body content"
  shows "fetch_source web url proto = (if content = [] then [] else parse_body content proto)
    \<and> snd (fetch_from 0 (web url) proto) = k + 1"
  using fetch_from_body [of k 0 "web url" content proto] assms by (simp add: fetch_source_def)

theorem fetch_decides_on_first_answer_witness:
  "fetch_source (\<lambda>_ n. if n = 0 then SendError else Body []) u Http = []"
  using fetch_decides_on_first_answer [of 1 "\<lambda>_ n. if n = 0 then SendError else Body []" u "[]" Http] by simp

end
