(* ===== verification/Persistence.thy ===== *)
theory Persistence
  imports State
begin

text \<open>
  \<open>src/pool/persistence.rs\<close>: the pool saved to and loaded from a JSON file.  The file system
  is a table of file contents; a save may fail at each of its steps.  The codec (serde on the
  struct \<open>Proxy\<close>) is a parameter: \<open>encode\<close> prints a list of proxies, \<open>decode\<close> reads one.
\<close>

section \<open>Loading\<close>

type_synonym files = "(string, string) table"

definition is_recent :: "clock \<Rightarrow> proxy \<Rightarrow> bool" where
  "is_recent now p =
     (case last_success p of Some t \<Rightarrow> num_hours (utc now - t) < 1 | None \<Rightarrow> False)"

definition restore :: "clock \<Rightarrow> proxy \<Rightarrow> proxy" where
  "restore now p = (if is_recent now p then mark_presumed_alive p else p)"

definition load_one ::
  "clock \<Rightarrow> proxy \<Rightarrow> nat \<times> nat \<times> 's shared_state \<Rightarrow> nat \<times> nat \<times> 's shared_state" where
  "load_one now p acc =
     (case acc of (n_loaded, presumed, st) \<Rightarrow>
        (n_loaded + 1, if is_recent now p then presumed + 1 else presumed,
         snd (insert_if_absent (restore now p) st)))"

definition load_state_from ::
  "(string \<Rightarrow> proxy list option) \<Rightarrow> clock \<Rightarrow> string \<Rightarrow> files \<Rightarrow> 's shared_state
   \<Rightarrow> nat \<times> 's shared_state" where
  "load_state_from decode now path fs st =
     (case tbl_get fs path of
        None \<Rightarrow> (0, st)
      | Some content \<Rightarrow>
          (case decode content of
             None \<Rightarrow> (0, st)
           | Some ps \<Rightarrow>
               (case fold (load_one now) ps (0, 0, st) of
                  (n_loaded, presumed, st') \<Rightarrow>
                    (n_loaded, if 0 < presumed then st'\<lparr>first_ready := first_ready st' + 1\<rparr> else st'))))"

section \<open>Saving\<close>

text \<open>Where a save fails; a failed write may leave any part of the text in the temporary file.\<close>

datatype save_fault = NoFault | MkdirFails | WriteFails string | RenameFails

definition tmp_path :: "string \<Rightarrow> string" where
  "tmp_path path = path @ ''.tmp''"

definition to_save :: "'s shared_state \<Rightarrow> proxy list" where
  "to_save st = filter (\<lambda>p. last_check p \<noteq> None) (all_proxies st)"

definition save_state_to ::
  "(proxy list \<Rightarrow> string option) \<Rightarrow> save_fault \<Rightarrow> string \<Rightarrow> 's shared_state \<Rightarrow> files \<Rightarrow> files" where
  "save_state_to encode fault path st fs =
     (case encode (to_save st) of
        None \<Rightarrow> fs
      | Some json \<Rightarrow>
          (case fault of
             MkdirFails \<Rightarrow> fs
           | WriteFails part \<Rightarrow> tbl_put (tmp_path path) part fs
           | RenameFails \<Rightarrow> tbl_put (tmp_path path) json fs
           | NoFault \<Rightarrow> tbl_put path json (tbl_del (tmp_path path) (tbl_put (tmp_path path) json fs))))"

definition state_file :: string where
  "state_file = ''data/state.json''"

definition load_state ::
  "(string \<Rightarrow> proxy list option) \<Rightarrow> clock \<Rightarrow> files \<Rightarrow> 's shared_state \<Rightarrow> nat \<times> 's shared_state"
where
  "load_state decode now fs st = load_state_from decode now state_file fs st"

definition save_state ::
  "(proxy list \<Rightarrow> string option) \<Rightarrow> save_fault \<Rightarrow> 's shared_state \<Rightarrow> files \<Rightarrow> files" where
  "save_state encode fault st fs = save_state_to encode fault state_file st fs"

text \<open>The loop that saves at every tick; each tick finds its own state and may fail.\<close>

definition persistence_loop ::
  "(proxy list \<Rightarrow> string option) \<Rightarrow> (save_fault \<times> 's shared_state) list \<Rightarrow> files \<Rightarrow> files" where
  "persistence_loop encode ticks fs = fold (\<lambda>(fault, st). save_state encode fault st) ticks fs"

section \<open>Loading into a pool\<close>

lemma load_fold:
  "fold (load_one now) ps (l, k, st) =
     (l + length ps, k + length (filter (is_recent now) ps),
      fold (\<lambda>p st. snd (insert_if_absent p st)) (map (restore now) ps) st)"
  by (induction ps arbitrary: l k st) (simp_all add: load_one_def)

lemma proxy_key_restore [simp]: "proxy_key (restore now p) = proxy_key p"
  by (simp add: restore_def)

lemma fold_insert_get:
  assumes "distinct (map proxy_key ps)" "\<forall>p \<in> set ps. \<not> tbl_has (proxies st) (proxy_key p)"
    and "max_proxies st = 0 \<or> total_count st + length ps \<le> max_proxies st"
  shows "tbl_get (proxies (fold (\<lambda>p st. snd (insert_if_absent p st)) ps st)) k =
     (case find (\<lambda>p. proxy_key p = k) ps of Some p \<Rightarrow> Some p | None \<Rightarrow> tbl_get (proxies st) k)"
  using assms
proof (induction ps arbitrary: st)
  case (Cons p ps)
  let ?st = "snd (insert_if_absent p st)"
  have st: "proxies ?st = tbl_put (proxy_key p) p (proxies st)" "max_proxies ?st = max_proxies st"
    using Cons.prems by (auto simp: insert_if_absent_def total_count_def)
  moreover have "total_count ?st = total_count st + 1"
    using Cons.prems(2) st(1) by (simp add: total_count_def tbl_len_put)
  moreover have "\<forall>q \<in> set ps. proxy_key q \<noteq> proxy_key p" using Cons.prems(1) by (simp add: image_iff) metis
  ultimately have "tbl_get (proxies (fold (\<lambda>p st. snd (insert_if_absent p st)) ps ?st)) k =
      (case find (\<lambda>p. proxy_key p = k) ps of Some p \<Rightarrow> Some p | None \<Rightarrow> tbl_get (proxies ?st) k)"
    using Cons.prems by (intro Cons.IH) auto
  moreover have "find (\<lambda>q. proxy_key q = k) ps = None" if "proxy_key p = k"
    using Cons.prems(1) that by (simp add: find_None_iff image_iff) metis
  ultimately show ?case using st(1) by (auto split: option.split)
qed simp

lemma find_map_key:
  "find (\<lambda>p. proxy_key p = k) (map f ps) = map_option f (find (\<lambda>p. proxy_key p = k) ps)"
  if "\<And>p. proxy_key (f p) = proxy_key p"
  by (induction ps) (auto simp: that)

lemma keys_of_vals: "well_keyed m \<Longrightarrow> map proxy_key (tbl_vals m) = map fst m"
  by (auto simp: well_keyed_def tbl_vals_def)

lemma find_vals:
  assumes "well_keyed m"
  shows "find (\<lambda>p. proxy_key p = k) (filter P (tbl_vals m)) =
     (case tbl_get m k of Some p \<Rightarrow> if P p then Some p else None | None \<Rightarrow> None)"
  using assms
proof (induction m)
  case (Cons e m)
  obtain k' p where e: "e = (k', p)" by fastforce
  have w: "well_keyed m" "proxy_key p = k'" "k' \<notin> fst ` set m"
    using Cons.prems by (auto simp: well_keyed_def keys_ok_def e)
  have none: "tbl_get m k' = None" using w(3) by (simp add: tbl_get_def map_of_eq_None_iff)
  have "tbl_vals (e # m) = p # tbl_vals m" "tbl_get (e # m) k = (if k = k' then Some p else tbl_get m k)"
    by (simp_all add: tbl_vals_def tbl_get_def e)
  with Cons.IH [OF w(1)] w(2) none show ?case by auto
qed (simp add: tbl_vals_def)

section \<open>Properties\<close>

definition codec_ok ::
  "(f64 \<Rightarrow> f64) \<Rightarrow> (proxy list \<Rightarrow> string option) \<Rightarrow> (string \<Rightarrow> proxy list option) \<Rightarrow>
   proxy list \<Rightarrow> bool" where
  "codec_ok fp encode decode ps \<longleftrightarrow>
     (case encode ps of Some js \<Rightarrow> decode js = Some (map (reload fp) ps) | None \<Rightarrow> False)"

lemma load_after_save:
  assumes "codec_ok fp encode decode (to_save st)" "well_keyed (proxies st)" "proxies fresh = []"
    and "max_proxies fresh = 0 \<or> total_count st \<le> max_proxies fresh"
  shows "tbl_get (proxies (snd (load_state_from decode now path
        (save_state_to encode NoFault path st fs) fresh))) k =
     (case tbl_get (proxies st) k of
        Some p \<Rightarrow> if last_check p \<noteq> None then Some (restore now (reload fp p)) else None
      | None \<Rightarrow> None)"
proof -
  let ?ps = "to_save st" and ?f = "\<lambda>p. restore now (reload fp p)"
  from assms(1) obtain js where js: "encode ?ps = Some js" "decode js = Some (map (reload fp) ?ps)"
    by (auto simp: codec_ok_def split: option.splits)
  let ?ins = "fold (\<lambda>p st. snd (insert_if_absent p st)) (map ?f ?ps) fresh"
  have "proxies (snd (load_state_from decode now path (save_state_to encode NoFault path st fs) fresh)) = proxies ?ins"
    using js by (simp add: load_state_from_def save_state_to_def load_fold comp_def)
  moreover have "distinct (map proxy_key (map ?f ?ps))"
  proof -
    have "distinct (map proxy_key (tbl_vals (proxies st)))"
      using assms(2) by (simp add: keys_of_vals) (simp add: well_keyed_def keys_ok_def)
    then show ?thesis by (simp add: to_save_def all_proxies_def comp_def distinct_map_filter)
  qed
  moreover have "length ?ps \<le> total_count st"
    by (simp add: to_save_def all_proxies_def total_count_def tbl_len_def tbl_vals_def
        order_trans [OF length_filter_le])
  then have "max_proxies fresh = 0 \<or> total_count fresh + length (map ?f ?ps) \<le> max_proxies fresh"
    using assms(3,4) by (auto simp: total_count_def tbl_len_def)
  ultimately have "tbl_get (proxies (snd (load_state_from decode now path
        (save_state_to encode NoFault path st fs) fresh))) k =
      (case find (\<lambda>p. proxy_key p = k) (map ?f ?ps) of Some p \<Rightarrow> Some p | None \<Rightarrow> None)"
    using fold_insert_get [of "map ?f ?ps" fresh k] assms(3)
    by (simp add: tbl_has_def split: option.split)
  also have "\<dots> = map_option ?f (find (\<lambda>p. proxy_key p = k) ?ps)"
    by (subst find_map_key) (auto split: option.split)
  also have "find (\<lambda>p. proxy_key p = k) ?ps =
      (case tbl_get (proxies st) k of Some p \<Rightarrow> if last_check p \<noteq> None then Some p else None | None \<Rightarrow> None)"
    unfolding to_save_def all_proxies_def by (rule find_vals [OF assms(2)])
  finally show ?thesis by (auto split: option.splits)
qed

text \<open>
  What is loaded after a save is, for every key, the saved proxy as serde returns it,
  presumed alive when it succeeded within the last hour; proxies that were never checked are
  the only ones missing.  The codec is assumed to read back what it printed, up to the
  skipped fields and the rounding \<open>fp\<close> of numbers.
\<close>

theorem save_load_roundtrip:
  assumes "codec_ok fp encode decode (to_save st)" "pool_ok st" "proxies fresh = []"
    and "max_proxies fresh = 0 \<or> total_count st \<le> max_proxies fresh"
  shows "tbl_get (proxies (snd (load_state decode now (save_state encode NoFault st fs) fresh))) k =
     (case tbl_get (proxies st) k of
        Some p \<Rightarrow> if last_check p \<noteq> None then Some (restore now (reload fp p)) else None
      | None \<Rightarrow> None)"
  unfolding load_state_def save_state_def
  using assms by (intro load_after_save) (simp_all add: pool_ok_def)

theorem save_load_roundtrip_witness:
  "tbl_get (proxies (snd (load_state (\<lambda>_. Some [reload (\<lambda>x. x) (Proxy.record_success (Fin 5) \<lparr>inst = 0, utc = 0\<rparr> (proxy_new ''a'' 80 Http))])
      \<lparr>inst = 0, utc = 5\<rparr> (save_state (\<lambda>_. Some ''json'') NoFault
        (state_new\<lparr>proxies := [(proxy_key (proxy_new ''a'' 80 Http),
            Proxy.record_success (Fin 5) \<lparr>inst = 0, utc = 0\<rparr> (proxy_new ''a'' 80 Http))]\<rparr> :: nat shared_state) [])
      (state_new :: nat shared_state)))) (proxy_key (proxy_new ''a'' 80 Http)) \<noteq> None"
proof -
  let ?p = "Proxy.record_success (Fin 5) \<lparr>inst = 0, utc = 0\<rparr> (proxy_new ''a'' 80 Http)"
  let ?k = "proxy_key (proxy_new ''a'' 80 Http)"
  let ?st = "state_new\<lparr>proxies := [(?k, ?p)]\<rparr> :: nat shared_state"
  let ?enc = "\<lambda>_ :: proxy list. Some ''json''" and ?dec = "\<lambda>_ :: string. Some [reload (\<lambda>x. x) ?p]"
  have sv: "to_save ?st = [?p]" by (simp add: to_save_def all_proxies_def tbl_vals_def)
  have c: "codec_ok (\<lambda>x. x) ?enc ?dec (to_save ?st)" unfolding sv by (simp add: codec_ok_def)
  have w: "pool_ok ?st"
    by (simp add: pool_ok_def well_keyed_def keys_ok_def state_new_def score_ok_success)
  have "proxies (state_new :: nat shared_state) = []" "max_proxies (state_new :: nat shared_state) = 0
      \<or> total_count ?st \<le> max_proxies (state_new :: nat shared_state)"
    by (simp_all add: state_new_def total_count_def tbl_len_def)
  from save_load_roundtrip [OF c w this, of "\<lparr>inst = 0, utc = 5\<rparr>" "[]" ?k]
  show ?thesis by (simp add: tbl_get_def)
qed

text \<open>
  A save that fails at any step leaves the state file as it was, and a save that
  succeeds replaces it by the complete new text: no reader ever sees a partial file.
\<close>

theorem save_is_atomic:
  "tbl_get (save_state_to encode fault path st fs) path =
     (case encode (to_save st) of
        Some json \<Rightarrow> if fault = NoFault then Some json else tbl_get fs path
      | None \<Rightarrow> tbl_get fs path)"
  by (auto simp: save_state_to_def tmp_path_def split: option.split save_fault.split)

text \<open>
  The number that a load reports counts every proxy of the file, also those that the
  pool refused because it was full or knew them already; and every proxy it inserts is
  available, whatever its circuit breaker was when it was saved.
\<close>

theorem load_overcounts:
  assumes "tbl_get fs path = Some content" "decode content = Some (map (reload fp) ps)"
    and "keys_ok (proxies st)" "0 < max_proxies st" "total_count st \<le> max_proxies st"
  shows "fst (load_state_from decode now path fs st) = length ps
    \<and> total_count (snd (load_state_from decode now path fs st)) \<le> max_proxies st
    \<and> is_available now (restore now (reload fp p))"
proof -
  let ?ps = "map (restore now) (map (reload fp) ps)"
  have r: "load_state_from decode now path fs st =
      (length ps, snd (load_state_from decode now path fs st))"
    using assms(1,2) by (simp add: load_state_from_def load_fold)
  have "proxies (snd (load_state_from decode now path fs st)) = proxies (insert_all ?ps st)"
    using assms(1,2) by (simp add: load_state_from_def load_fold insert_all_def)
  then have "total_count (snd (load_state_from decode now path fs st)) = total_count (insert_all ?ps st)"
    by (simp add: total_count_def)
  moreover have "total_count (insert_all ?ps st) \<le> max_proxies st"
    using insert_all_bound [OF assms(3-5)] by blast
  moreover have "is_available now (restore now (reload fp p))"
    by (simp add: restore_def is_available_def mark_presumed_alive_def reload_def)
  ultimately show ?thesis using r by (metis fst_conv)
qed

theorem load_overcounts_witness:
  "fst (load_state_from (\<lambda>_. Some (map (reload (\<lambda>x. x)) [proxy_new ''a'' 80 Http, proxy_new ''b'' 80 Http]))
     \<lparr>inst = 0, utc = 0\<rparr> ''f'' [(''f'', ''x'')] (with_config None 300 1 [] 2 5 45 :: nat shared_state)) = 2"
  using load_overcounts [of "[(''f'', ''x'')]" "''f''" "''x''"
      "\<lambda>_. Some (map (reload (\<lambda>x. x)) [proxy_new ''a'' 80 Http, proxy_new ''b'' 80 Http])" "\<lambda>x. x"
      "[proxy_new ''a'' 80 Http, proxy_new ''b'' 80 Http]"
      "with_config None 300 1 [] 2 5 45 :: nat shared_state" "\<lparr>inst = 0, utc = 0\<rparr>"]
  by (simp add: with_config_def total_count_def tbl_len_def tbl_get_def)

end
