(* ===== verification/Startup.thy ===== *)
theory Startup
  imports Config Sources Persistence
begin

text \<open>
  \<open>src/main.rs\<close>: how the gateway comes up, what its background loops do to the shared state at
  each tick, what a change of the configuration file does, and how it shuts down.
\<close>

section \<open>Coming up\<close>

text \<open>
  What the start finds outside: the saved state and its codec, the sources on the web, the
  order in which their fetches complete, the clock, and which GeoIP databases exist.
\<close>

record outside =
  o_decode :: "string \<Rightarrow> proxy list option"
  o_files :: files
  o_web :: web
  o_arrival :: arrival
  o_now :: clock
  o_exists :: "string \<Rightarrow> bool"

definition new_state :: "(string \<Rightarrow> bool) \<Rightarrow> config \<Rightarrow> 's shared_state" where
  "new_state exists_file c =
     (let st = with_config (c_geoip_path c) (c_sticky_session_ttl c) (c_max_proxies c)
                 (c_exclude_countries c) (c_warm_pool_max_per_proxy c) (c_warm_pool_max_proxies c)
                 (unat (c_warm_pool_max_age_secs c))
      in if c_geoip_path c \<noteq> None then st\<lparr>geoip := geo_load exists_file (geoip st)\<rparr> else st)"

text \<open>Levels 0 and 1: the state and the batch of the fast probe, with the two reported counts.\<close>

definition boot :: "outside \<Rightarrow> config \<Rightarrow> (nat \<times> nat) \<times> proxy list \<times> 's shared_state" where
  "boot out c =
     (case load_state (o_decode out) (o_now out) (o_files out) (new_state (o_exists out) c) of
        (n_loaded, st1) \<Rightarrow>
          (case fast_bootstrap (o_web out) (o_arrival out) st1 of
             (n_boot, st2) \<Rightarrow> ((n_loaded, n_boot), proxies_needing_check (o_now out) 60 st2, st2)))"

section \<open>Background ticks\<close>

definition pool_cleanup_tick :: "clock \<Rightarrow> 's shared_state \<Rightarrow> 's shared_state" where
  "pool_cleanup_tick now st = st\<lparr>connection_pool := conn_cleanup now (connection_pool st)\<rparr>"

definition sticky_tick :: "chrono_limits \<Rightarrow> clock \<Rightarrow> 's shared_state \<Rightarrow> 's shared_state comp" where
  "sticky_tick cl now st =
     comp_bind (sticky_cleanup cl now (sticky_sessions st)) (\<lambda>m. Ret (st\<lparr>sticky_sessions := m\<rparr>))"

definition warm_tick ::
  "(string \<Rightarrow> nat \<Rightarrow> ('s \<times> nat) option) \<Rightarrow> (string \<Rightarrow> clock) \<Rightarrow> clock \<Rightarrow> config
   \<Rightarrow> 's shared_state \<Rightarrow> 's shared_state" where
  "warm_tick dial clk now c st =
     (let tops = top_stable_proxies now (c_warm_pool_max_proxies c) st
      in st\<lparr>warm_pool := warm_refresh dial clk tops (warm_pool st)\<rparr>)"

section \<open>Reloading and shutting down\<close>

definition apply_config :: "config \<Rightarrow> 's shared_state \<Rightarrow> 's shared_state" where
  "apply_config c st =
     st\<lparr>sticky_sessions := set_ttl (c_sticky_session_ttl c) (sticky_sessions st),
        exclude_countries := map_option (\<lambda>_. c_exclude_countries c) (exclude_countries st)\<rparr>"

definition reload_tick ::
  "config_env \<Rightarrow> config_manager \<Rightarrow> 's shared_state \<Rightarrow> config_manager \<times> 's shared_state" where
  "reload_tick env m st =
     (case config_reload env m of (ok, m') \<Rightarrow> (m', apply_config (config_get m') st))"

definition shutdown ::
  "(proxy list \<Rightarrow> string option) \<Rightarrow> save_fault \<Rightarrow> config \<Rightarrow> 's shared_state \<Rightarrow> files
   \<Rightarrow> files \<times> 's shared_state" where
  "shutdown encode fault c st fs =
     (let st = (if c_enable_connection_pool c
                then st\<lparr>connection_pool := conn_clear (connection_pool st)\<rparr> else st);
          st = st\<lparr>sticky_sessions := sticky_clear (sticky_sessions st)\<rparr>
      in (save_state encode fault st fs, st))"

section \<open>The pool at the start\<close>

lemma new_state_simps [simp]:
  "proxies (new_state ex c) = []" "banned (new_state ex c) = []"
  "max_proxies (new_state ex c) = c_max_proxies c"
  by (simp_all add: new_state_def with_config_def Let_def)

lemma pool_ok_insert: "pool_ok st \<Longrightarrow> score_ok p \<Longrightarrow> pool_ok (snd (insert_if_absent p st))"
  by (simp add: insert_if_absent_def pool_ok_def)

lemma score_ok_restore: "score_ok p \<Longrightarrow> score_ok (restore now p)"
  by (simp add: restore_def)

text \<open>What the loading and the bootstrap keep: a good pool within its limit, and its entries.\<close>

definition pool_within :: "nat \<Rightarrow> 's shared_state \<Rightarrow> bool" where
  "pool_within n st \<longleftrightarrow> pool_ok st \<and> max_proxies st = n \<and> (0 < n \<longrightarrow> total_count st \<le> n)"

lemma pool_within_insert:
  assumes "pool_within n st" "score_ok p" shows "pool_within n (snd (insert_if_absent p st))"
proof -
  have "keys_ok (proxies st)" using assms(1) by (simp add: pool_within_def pool_ok_def well_keyed_def)
  then show ?thesis
    using assms insert_if_absent_bound [of st p] by (auto simp: pool_within_def pool_ok_insert)
qed

lemma pool_within_insert_all:
  "pool_within n st \<Longrightarrow> \<forall>p \<in> set ps. score_ok p \<Longrightarrow>
     pool_within n (fold (\<lambda>p st. snd (insert_if_absent p st)) ps st)"
  by (induction ps arbitrary: st) (auto intro: pool_within_insert)

lemma pool_within_frame [simp]: "pool_within n (st\<lparr>first_ready := k\<rparr>) \<longleftrightarrow> pool_within n st"
  by (simp add: pool_within_def pool_ok_def total_count_def)

text \<open>The proxies of the saved file, if there is one that decodes.\<close>

definition saved_proxies :: "(string \<Rightarrow> proxy list option) \<Rightarrow> files \<Rightarrow> proxy list" where
  "saved_proxies decode fs =
     (case Option.bind (tbl_get fs state_file) decode of Some ps \<Rightarrow> ps | None \<Rightarrow> [])"

lemma load_state_snd:
  "snd (load_state decode now fs st) = st \<or>
   snd (load_state decode now fs st) =
     (fold (\<lambda>p st. snd (insert_if_absent p st)) (map (restore now) (saved_proxies decode fs)) st) \<or>
   (\<exists>n. snd (load_state decode now fs st) =
     (fold (\<lambda>p st. snd (insert_if_absent p st)) (map (restore now) (saved_proxies decode fs)) st)\<lparr>first_ready := n\<rparr>)"
  by (auto simp: load_state_def load_state_from_def load_fold saved_proxies_def split: option.split)

lemma pool_within_load:
  assumes "pool_within n st" "\<forall>p \<in> set (saved_proxies decode fs). score_ok p"
  shows "pool_within n (snd (load_state decode now fs st))"
proof -
  have "pool_within n (fold (\<lambda>p st. snd (insert_if_absent p st)) (map (restore now) (saved_proxies decode fs)) st)"
    using assms(2) by (intro pool_within_insert_all assms(1)) (auto simp: score_ok_restore)
  then show ?thesis using assms(1) load_state_snd [of decode now fs st] by auto
qed

lemma insert_counted_snd: "snd (insert_counted p acc) = snd (insert_if_absent p (snd acc))"
  by (cases acc) (simp add: insert_counted_def split: prod.split)

lemma fold_counted_snd:
  "snd (fold insert_counted ps acc) = fold (\<lambda>p st. snd (insert_if_absent p st)) ps (snd acc)"
  by (induction ps arbitrary: acc) (simp_all add: insert_counted_snd)

lemma batches_snd:
  "snd (fold (take_batch n) fetched acc) =
     fold (\<lambda>p st. snd (insert_if_absent p st)) (concat (map (take n) fetched)) (snd acc)"
  by (induction fetched arbitrary: acc) (simp_all add: take_batch_def fold_counted_snd)

text \<open>The order in which fetches complete: the same results, rearranged.\<close>

definition arrival_ok :: "arrival \<Rightarrow> bool" where
  "arrival_ok arrival \<longleftrightarrow> (\<forall>xs. mset (arrival xs) = mset xs)"

definition boot_batch :: "outside \<Rightarrow> proxy list" where
  "boot_batch out = concat (map (take 20) (o_arrival out
     (map (\<lambda>(url, proto). fetch_source (o_web out) url proto) (take 3 default_sources))))"

lemma bootstrap_snd:
  "snd (fast_bootstrap (o_web out) (o_arrival out) st) =
     fold (\<lambda>p st. snd (insert_if_absent p st)) (boot_batch out) st"
  by (simp add: fast_bootstrap_def batches_snd boot_batch_def)

lemma boot_batch_score_ok:
  assumes "arrival_ok (o_arrival out)" "p \<in> set (boot_batch out)" shows "score_ok p"
proof -
  let ?xs = "map (\<lambda>(url, proto). fetch_source (o_web out) url proto) (take 3 default_sources)"
  obtain l where l: "l \<in> set (o_arrival out ?xs)" "p \<in> set l"
    using assms(2) in_set_takeD by (fastforce simp: boot_batch_def)
  have "set (o_arrival out ?xs) = set ?xs" using assms(1) by (metis arrival_ok_def mset_eq_setD)
  with l show ?thesis using fetched_score_ok by (auto split: prod.splits)
qed

lemma boot_eq:
  "boot out c = (lb, batch, st) \<Longrightarrow>
     st = fold (\<lambda>p st. snd (insert_if_absent p st)) (boot_batch out)
       (snd (load_state (o_decode out) (o_now out) (o_files out) (new_state (o_exists out) c))) \<and>
     batch = proxies_needing_check (o_now out) 60 st"
  by (auto simp: boot_def simp flip: bootstrap_snd split: prod.splits)

lemma fold_insert_keeps:
  "tbl_get (proxies st) k = Some q \<Longrightarrow>
     tbl_get (proxies (fold (\<lambda>p st. snd (insert_if_absent p st)) ps st)) k = Some q"
  by (induction ps arbitrary: st) (auto intro: insert_if_absent_keeps)

lemma fold_insert_banned [simp]:
  "banned (fold (\<lambda>p st. snd (insert_if_absent p st)) ps st) = banned st"
  by (induction ps arbitrary: st) (auto simp: insert_if_absent_def)

lemma load_banned [simp]: "banned (snd (load_state decode now fs st)) = banned st"
  by (auto simp: load_state_def load_state_from_def load_fold split: option.split)

lemma fold_insert_keyed:
  "pool_keyed st \<Longrightarrow> pool_keyed (fold (\<lambda>p st. snd (insert_if_absent p st)) ps st)"
  by (induction ps arbitrary: st) (simp_all add: pool_keyed_ops)

lemma boot_pool_keyed:
  fixes st :: "'s shared_state"
  assumes "boot out c = (reported, batch, st)" shows "pool_keyed st"
proof -
  let ?new = "new_state (o_exists out) c :: 's shared_state"
  have new: "pool_keyed ?new" by (simp add: pool_keyed_def)
  have "pool_keyed (snd (load_state (o_decode out) (o_now out) (o_files out) ?new))"
    using load_state_snd [of "o_decode out" "o_now out" "o_files out" ?new]
      new fold_insert_keyed [OF new] by auto
  from fold_insert_keyed [OF this] boot_eq [OF assms] show ?thesis by simp
qed

lemma boot_pool_within:
  assumes "boot out c = (reported, batch, st)" "arrival_ok (o_arrival out)"
    and "\<forall>p \<in> set (saved_proxies (o_decode out) (o_files out)). score_ok p"
  shows "pool_within (c_max_proxies c) st"
proof -
  note b = boot_eq [OF assms(1)]
  have "pool_within (c_max_proxies c) (new_state (o_exists out) c)"
    by (simp add: pool_within_def pool_ok_def total_count_def tbl_len_def)
  then have "pool_within (c_max_proxies c)
      (snd (load_state (o_decode out) (o_now out) (o_files out) (new_state (o_exists out) c)))"
    using assms(3) by (rule pool_within_load)
  then show ?thesis
    using b boot_batch_score_ok [OF assms(2)] by (auto intro: pool_within_insert_all)
qed

section \<open>Properties\<close>

text \<open>
  The gateway comes up with a sound pool.  If the numbers in the saved file are in range, whatever
  else it and the sources hold, in whatever order the sources answer, every proxy stands once and under its
  own key, the configured limit is respected, and the first probe checks at most sixty proxies,
  all of the pool.
\<close>

theorem startup_pool_sound:
  assumes "boot out c = (reported, batch, st)" "arrival_ok (o_arrival out)"
    and "\<forall>p \<in> set (saved_proxies (o_decode out) (o_files out)). score_ok p"
  shows "pool_ok st \<and> (0 < c_max_proxies c \<longrightarrow> total_count st \<le> c_max_proxies c)
    \<and> length batch \<le> 60 \<and> set batch \<subseteq> set (all_proxies st)"
proof -
  note b = boot_eq [OF assms(1)]
  have "pool_within (c_max_proxies c) st" using assms by (rule boot_pool_within)
  moreover have "length batch \<le> 60 \<and> set batch \<subseteq> set (all_proxies st)"
    using b by (auto simp: proxies_needing_check_def all_proxies_def dest: in_set_takeD)
  ultimately show ?thesis by (simp add: pool_within_def)
qed

definition quiet_outside :: outside where
  "quiet_outside = \<lparr>o_decode = (\<lambda>_. None), o_files = [], o_web = (\<lambda>_ _. SendError),
     o_arrival = (\<lambda>xs. xs), o_now = \<lparr>inst = 0, utc = 0\<rparr>, o_exists = (\<lambda>_. False)\<rparr>"

lemma startup_pool_sound_witness:
  "pool_ok (snd (snd (boot quiet_outside config_default)) :: nat shared_state)"
proof -
  obtain r bt and st :: "nat shared_state" where b: "boot quiet_outside config_default = (r, bt, st)"
    using prod_cases3 by blast
  have "arrival_ok (o_arrival quiet_outside)" by (simp add: quiet_outside_def arrival_ok_def)
  from startup_pool_sound [OF b this] b show ?thesis by (simp add: quiet_outside_def saved_proxies_def)
qed

text \<open>What of the saved proxies the limit lets in: the first ones, in the order of the file.\<close>

definition restorable :: "nat \<Rightarrow> 's shared_state \<Rightarrow> proxy list" where
  "restorable limit st = (if limit = 0 then to_save st else take limit (to_save st))"

lemma load_restores:
  assumes "codec_ok fp encode decode (to_save st)" "pool_ok st" "proxies fresh = []"
    and "p \<in> set (restorable (max_proxies fresh) st)"
  shows "tbl_get (proxies (snd (load_state decode now (save_state encode NoFault st fs) fresh))) (proxy_key p) =
    Some (restore now (reload fp p))"
proof -
  let ?ps = "to_save st" and ?f = "\<lambda>p. restore now (reload fp p)"
  let ?ins = "\<lambda>ps. fold (\<lambda>p st. snd (insert_if_absent p st)) (map ?f ps)"
  define kept where "kept = restorable (max_proxies fresh) st"
  define left where "left = (if max_proxies fresh = 0 then [] else drop (max_proxies fresh) ?ps)"
  have ps: "?ps = kept @ left" by (simp add: kept_def left_def restorable_def)
  from assms(1) obtain js where js: "encode ?ps = Some js" "decode js = Some (map (reload fp) ?ps)"
    by (auto simp: codec_ok_def split: option.splits)
  have "proxies (snd (load_state decode now (save_state encode NoFault st fs) fresh)) = proxies (?ins ?ps fresh)"
    using js by (simp add: load_state_def save_state_def load_state_from_def save_state_to_def load_fold comp_def)
  moreover have "distinct (map proxy_key ?ps)"
  proof -
    have "distinct (map proxy_key (tbl_vals (proxies st)))"
      using assms(2) keys_of_vals [of "proxies st"] by (simp add: pool_ok_def) (simp add: well_keyed_def keys_ok_def)
    then show ?thesis by (simp add: to_save_def all_proxies_def distinct_map_filter)
  qed
  then have d: "distinct (map proxy_key (map ?f kept))" by (simp add: ps comp_def)
  moreover have "max_proxies fresh = 0 \<or> total_count fresh + length (map ?f kept) \<le> max_proxies fresh"
    using assms(3) by (simp add: kept_def restorable_def total_count_def tbl_len_def)
  ultimately have "tbl_get (proxies (?ins kept fresh)) (proxy_key p) =
      (case find (\<lambda>q. proxy_key q = proxy_key p) (map ?f kept) of Some q \<Rightarrow> Some q | None \<Rightarrow> None)"
    using fold_insert_get [of "map ?f kept" fresh "proxy_key p"] assms(3)
    by (simp add: tbl_has_def split: option.split)
  also have "find (\<lambda>q. proxy_key q = proxy_key p) (map ?f kept) = Some (?f p)"
  proof -
    have "?f p \<in> set (map ?f kept)" using assms(4) by (simp add: kept_def)
    moreover have "find (\<lambda>q. proxy_key q = proxy_key x) xs = Some x"
      if "x \<in> set xs" "distinct (map proxy_key xs)" for x and xs :: "proxy list"
      using that by (induction xs) (auto simp: image_iff)
    ultimately show ?thesis using d proxy_key_restore [of now "reload fp p"] by (metis proxy_key_reload)
  qed
  finally have "tbl_get (proxies (?ins kept fresh)) (proxy_key p) = Some (?f p)" by simp
  from fold_insert_keeps [OF this, of "map ?f left"]
  have "tbl_get (proxies (?ins ?ps fresh)) (proxy_key p) = Some (?f p)" by (simp add: ps)
  with \<open>proxies (snd (load_state decode now (save_state encode NoFault st fs) fresh)) = proxies (?ins ?ps fresh)\<close>
  show ?thesis by simp
qed

text \<open>
  C23: what a restart keeps.  After a clean shutdown and a start on the saved file, the proxies that
  were ever checked are in the pool again, as serde returns them and presumed alive if they
  succeeded within the hour, in front of anything the sources add: all of them if the pool was
  within the configured limit or has none, and otherwise the first ones of the file, as many as
  the limit lets in.  Every ban is forgotten.
\<close>

theorem restart_keeps_checked:
  assumes "codec_ok fp encode (o_decode out) (to_save st)" "pool_ok st"
    and "o_files out = fst (shutdown encode NoFault c st fs)" "boot out c = (reported, batch, st')"
  shows "(\<forall>p \<in> set (restorable (c_max_proxies c) st).
      tbl_get (proxies st') (proxy_key p) = Some (restore (o_now out) (reload fp p)))
    \<and> (c_max_proxies c = 0 \<or> total_count st \<le> c_max_proxies c \<longrightarrow>
        (\<forall>k p. tbl_get (proxies st) k = Some p \<and> last_check p \<noteq> None \<longrightarrow>
          tbl_get (proxies st') k = Some (restore (o_now out) (reload fp p))))
    \<and> banned st' = []"
proof -
  have frame: "to_save (st\<lparr>sticky_sessions := m\<rparr>) = to_save st"
    "to_save (st\<lparr>connection_pool := cp, sticky_sessions := m\<rparr>) = to_save st" for m cp
    by (simp_all add: to_save_def all_proxies_def)
  have file_eq: "o_files out = save_state encode NoFault st fs"
    unfolding assms(3) by (simp add: shutdown_def save_state_def save_state_to_def Let_def frame)
  have returns: "tbl_get (proxies st') (proxy_key p) = Some (restore (o_now out) (reload fp p))"
    if "p \<in> set (restorable (c_max_proxies c) st)" for p
  proof -
    have "tbl_get (proxies (snd (load_state (o_decode out) (o_now out) (o_files out)
        (new_state (o_exists out) c)))) (proxy_key p) = Some (restore (o_now out) (reload fp p))"
      unfolding file_eq by (rule load_restores [OF assms(1,2)]) (use that in simp_all)
    from fold_insert_keeps [OF this, of "boot_batch out"] boot_eq [OF assms(4)] show ?thesis by simp
  qed
  have "length (to_save st) \<le> total_count st"
    by (simp add: to_save_def all_proxies_def total_count_def tbl_len_def tbl_vals_def
        order_trans [OF length_filter_le])
  then have fits: "restorable (c_max_proxies c) st = to_save st"
    if "c_max_proxies c = 0 \<or> total_count st \<le> c_max_proxies c"
    using that by (auto simp: restorable_def)
  have "p \<in> set (to_save st) \<and> proxy_key p = k" if "tbl_get (proxies st) k = Some p" "last_check p \<noteq> None" for k p
    using that assms(2) well_keyed_get [of "proxies st" k p]
    by (auto simp: to_save_def all_proxies_def in_tbl_vals pool_ok_def dest: tbl_get_in_set)
  with returns fits boot_eq [OF assms(4)] show ?thesis by fastforce
qed

definition checked :: proxy where
  "checked = record_fail \<lparr>inst = 0, utc = 0\<rparr> (proxy_new ''1.2.3.4'' 80 Http)"

definition saved_pool :: "nat shared_state" where
  "saved_pool = state_new\<lparr>proxies := [(proxy_key checked, checked)]\<rparr>"

definition encode_any :: "proxy list \<Rightarrow> string option" where
  "encode_any ps = Some ''[...]''"

definition restart :: outside where
  "restart = quiet_outside\<lparr>o_decode := \<lambda>_. Some [reload (\<lambda>x. x) checked],
    o_files := fst (shutdown encode_any NoFault config_default saved_pool [])\<rparr>"

lemma restart_keeps_checked_witness:
  "tbl_get (proxies (snd (snd (boot restart config_default)) :: nat shared_state)) (proxy_key checked)
    = Some (restore \<lparr>inst = 0, utc = 0\<rparr> (reload (\<lambda>x. x) checked))"
proof -
  obtain r bt and st :: "nat shared_state" where b: "boot restart config_default = (r, bt, st)"
    using prod_cases3 by blast
  have v: "to_save saved_pool = [checked]"
    by (simp add: saved_pool_def to_save_def all_proxies_def tbl_vals_def checked_def record_fail_def
        disable_secs_def Let_def proxy_new_def)
  then have 1: "codec_ok (\<lambda>x. x) encode_any (o_decode restart) (to_save saved_pool)"
    by (simp add: codec_ok_def encode_any_def restart_def)
  have 2: "pool_ok saved_pool"
    by (simp add: pool_ok_def saved_pool_def state_new_def well_keyed_def keys_ok_def checked_def)
  have 4: "o_files restart = fst (shutdown encode_any NoFault config_default saved_pool [])"
    by (simp add: restart_def)
  have "restorable (c_max_proxies config_default) saved_pool = [checked]"
    by (simp add: restorable_def v config_default_def)
  with restart_keeps_checked [OF 1 2 4 b] b show ?thesis
    by (simp add: restart_def quiet_outside_def)
qed

text \<open>
  What a reload of the configuration file changes.  A file that cannot be read or parsed
  leaves the configuration in force; otherwise the new one replaces it.  Of the running
  gateway only the lifetime of the sticky sessions and the excluded countries follow it: the
  sessions themselves and every other part of the state (limits, warm pool, GeoIP) stay; and
  the new exclusion holds from the next selection on.
\<close>

theorem reload_effects:
  assumes "reload_tick env m st = (m', st')" "exclude_countries st \<noteq> None"
  shows "cm_config m' = (case load_from_file env (cm_watch_path m) of Some c \<Rightarrow> c | None \<Rightarrow> cm_config m)
    \<and> ttl_secs (sticky_sessions st') = c_sticky_session_ttl (cm_config m')
    \<and> sessions (sticky_sessions st') = sessions (sticky_sessions st)
    \<and> st'\<lparr>sticky_sessions := sticky_sessions st, exclude_countries := exclude_countries st\<rparr> = st
    \<and> (select_best rng now st' = Ret (Some p) \<longrightarrow>
        (\<forall>ct \<in> set (c_exclude_countries (cm_config m')). country p \<noteq> Some ct))"
proof -
  have m': "cm_config m' = (case load_from_file env (cm_watch_path m) of Some c \<Rightarrow> c | None \<Rightarrow> cm_config m)"
    and st': "st' = apply_config (cm_config m') st"
    using assms(1) by (auto simp: reload_tick_def config_reload_def config_get_def split: option.splits)
  have "country p \<noteq> Some ct"
    if "select_best rng now st' = Ret (Some p)" "ct \<in> set (c_exclude_countries (cm_config m'))" for ct
  proof -
    have "candidate now st' (status p) p"
      using that(1) by (cases rule: select_best_cases)
        (auto dest: verified_top_candidate simp: candidate_def)
    then show ?thesis using that(2) assms(2)
      by (auto simp: candidate_def country_excluded_iff excluded_def st' apply_config_def)
  qed
  then show ?thesis using m' by (simp add: st' apply_config_def set_ttl_def)
qed

lemma reload_effects_witness:
  "ttl_secs (sticky_sessions (snd (reload_tick (\<lambda>_. Some ''{}'', \<lambda>_. Some raw_empty)
     (config_manager_new (\<lambda>_. None, \<lambda>_. None) ''config/gateway.json'') (state_new :: nat shared_state)))) = 300"
proof -
  let ?r = "reload_tick (\<lambda>_. Some ''{}'', \<lambda>_. Some raw_empty)
     (config_manager_new (\<lambda>_. None, \<lambda>_. None) ''config/gateway.json'') (state_new :: nat shared_state)"
  have "exclude_countries (state_new :: nat shared_state) \<noteq> None" by (simp add: state_new_def)
  from reload_effects [OF prod.collapse [symmetric] this, of "(\<lambda>_. Some ''{}'', \<lambda>_. Some raw_empty)"]
  show ?thesis by (simp add: load_from_file_def fill_defaults_empty) (simp add: config_default_def)
qed

end
