(* ===== verification/Gateway.thy ===== *)
theory Gateway
  imports Transparent Health Web Metrics Udp Startup
begin

text \<open>
  \<open>src/main.rs\<close> as a whole: what the running gateway does to its shared state, which task does
  it, and when the tasks run: from the loading of the state over the first probe and the running
  gateway to the interruption and the final save.
\<close>

section \<open>Everything that happens to the shared state\<close>

datatype activity =
  Refresh "string \<Rightarrow> string list option" "string option" web arrival clock
| Check nat "proxy \<Rightarrow> string \<times> check_result"
    "(string \<times> check_result) list \<Rightarrow> ((string \<times> check_result) \<times> clock) list" clock
| Geo "ipaddr \<Rightarrow> api_response option" string
| Api api_op
| Handle input sockaddr phase
| Reload config
| StickyTick chrono_limits clock
| PoolTick clock
| WarmTick "string \<Rightarrow> nat \<Rightarrow> (conn \<times> nat) option" "string \<Rightarrow> clock" clock config

fun act :: "activity \<Rightarrow> gstate \<Rightarrow> gstate" where
  "act (Refresh parse content w arrival now) st = snd (full_refresh parse content w arrival now st)"
| "act (Check limit chk arrival now) st = snd (snd (health_tick limit chk arrival now st))"
| "act (Geo fetch key) st = geo_task fetch key st"
| "act (Api op) st = api_apply op st"
| "act (Handle inp client ph) st =
     (case handler_step inp client ph st of Move ph' st' \<Rightarrow> st' | _ \<Rightarrow> st)"
| "act (Reload c) st = apply_config c st"
| "act (StickyTick cl now) st = (case sticky_tick cl now st of Ret st' \<Rightarrow> st' | Panic \<Rightarrow> st)"
| "act (PoolTick now) st = pool_cleanup_tick now st"
| "act (WarmTick dial clk now c) st = warm_tick dial clk now c st"

text \<open>The fetches of a refresh complete in some order; nothing else is asked of an activity.\<close>

fun act_ok :: "activity \<Rightarrow> bool" where
  "act_ok (Refresh parse content w arrival now) \<longleftrightarrow> arrival_ok arrival"
| "act_ok _ \<longleftrightarrow> True"

lemma refresh_pool:
  assumes "arrival_ok arrival"
  shows "\<exists>ps. (\<forall>p \<in> set ps. score_ok p) \<and> snd (full_refresh parse content w arrival now st) =
    cleanup_stale now (fold (\<lambda>p st. snd (insert_if_absent p st)) ps st)"
proof -
  define fetched where
    "fetched = map (\<lambda>url. fetch_source w url (guess_protocol url)) (load_sources parse content)"
  define ps where "ps = concat (map (take max_per_source) (arrival fetched))"
  have "set (arrival fetched) = set fetched" using assms by (metis arrival_ok_def mset_eq_setD)
  then have "\<forall>p \<in> set ps. score_ok p"
    using fetched_score_ok by (fastforce simp: ps_def fetched_def dest: in_set_takeD)
  moreover have "snd (full_refresh parse content w arrival now st) =
      cleanup_stale now (fold (\<lambda>p st. snd (insert_if_absent p st)) ps st)"
    unfolding ps_def
    by (subst batches_snd [of max_per_source "arrival fetched" "(0, st)", simplified, symmetric])
      (simp add: full_refresh_def Let_def fetched_def split: prod.split)
  ultimately show ?thesis by blast
qed

lemma fold_insert_pool_ok:
  "pool_ok st \<Longrightarrow> \<forall>p \<in> set ps. score_ok p \<Longrightarrow>
     pool_ok (fold (\<lambda>p st. snd (insert_if_absent p st)) ps st)"
  by (induction ps arbitrary: st) (auto intro: pool_ok_insert)

lemma health_pool_ok: "pool_ok st \<Longrightarrow> pool_ok (snd (snd (health_tick limit chk arrival now st)))"
  using probes.keeps_fold [of "(0, [], st)"]
  by (simp add: health_tick_def fast_probe_def Let_def)

lemma geo_pool_ok: "pool_ok st \<Longrightarrow> pool_ok (geo_task fetch key st)"
  by (auto simp: geo_task_def update_geo_index_def pool_ok_def split: option.splits prod.split)

lemma handler_pool_ok:
  "pool_ok st \<Longrightarrow> handler_step inp client ph st = Move ph' st' \<Longrightarrow> pool_ok st'"
  by (cases "(inp, client, ph, st)" rule: handler_step.cases)
    (auto simp: step_defs accept_request_def Let_def success_pool_ok fail_pool_ok
       split: comp.splits option.splits if_splits io.splits prod.splits)

lemma act_pool_ok: "pool_ok st \<Longrightarrow> act_ok a \<Longrightarrow> pool_ok (act a st)"
proof (cases a)
  case (Refresh parse content w arrival now)
  assume st: "pool_ok st" and a: "act_ok a"
  from a Refresh obtain ps where "\<forall>p \<in> set ps. score_ok p"
    "act a st = cleanup_stale now (fold (\<lambda>p st. snd (insert_if_absent p st)) ps st)"
    using refresh_pool [of arrival parse content w now st] by auto
  with st show ?thesis by (simp add: cleanup_pool_ok fold_insert_pool_ok)
next
  case (StickyTick cl now)
  then show "pool_ok st \<Longrightarrow> ?thesis"
    by (cases "sticky_cleanup cl now (sticky_sessions st)") (simp_all add: sticky_tick_def)
qed (auto simp: health_pool_ok geo_pool_ok api_ops.keeps apply_config_def pool_cleanup_tick_def
    warm_tick_def Let_def handler_pool_ok split: move.split)

text \<open>The keys stay right whatever the numbers of the proxies are.\<close>

lemma geo_keyed: "pool_keyed st \<Longrightarrow> pool_keyed (geo_task fetch key st)"
  by (auto simp: geo_task_def update_geo_index_def pool_keyed_def split: option.splits prod.split)

lemma handler_keyed:
  "pool_keyed st \<Longrightarrow> handler_step inp client ph st = Move ph' st' \<Longrightarrow> pool_keyed st'"
  by (cases "(inp, client, ph, st)" rule: handler_step.cases)
    (auto simp: step_defs accept_request_def Let_def pool_keyed_ops
       split: comp.splits option.splits if_splits io.splits prod.splits)

lemma act_keyed: "pool_keyed st \<Longrightarrow> act_ok a \<Longrightarrow> pool_keyed (act a st)"
proof (cases a)
  case (Refresh parse content w arrival now)
  assume st: "pool_keyed st" and a: "act_ok a"
  from a Refresh obtain ps where
    "act a st = cleanup_stale now (fold (\<lambda>p st. snd (insert_if_absent p st)) ps st)"
    using refresh_pool [of arrival parse content w now st] by auto
  with fold_insert_keyed [OF st] show ?thesis by (simp add: pool_keyed_ops)
next
  case (Check limit chk arrival now)
  then show "pool_keyed st \<Longrightarrow> ?thesis"
    using keyed_probes.keeps_fold [of "(0, [], st)"]
    by (simp add: health_tick_def fast_probe_def Let_def)
next
  case (StickyTick cl now)
  then show "pool_keyed st \<Longrightarrow> ?thesis"
    by (cases "sticky_cleanup cl now (sticky_sessions st)") (simp_all add: sticky_tick_def)
qed (auto simp: geo_keyed keyed_api.keeps apply_config_def pool_cleanup_tick_def
    warm_tick_def Let_def handler_keyed split: move.split)

section \<open>The life of the process\<close>

text \<open>The tasks whose handles \<open>main\<close> keeps, in the order in which it spawns them.\<close>

datatype service =
  TransparentProxy | UdpRelay | WebApi | SourceRefresh | HealthLoop | PersistenceLoop
| PoolCleanup | StickyCleanup | WarmRefresh | ConfigReload

definition first_services :: "service list" where
  "first_services = [TransparentProxy, UdpRelay, WebApi]"

definition background_services :: "config \<Rightarrow> service list" where
  "background_services c =
     [SourceRefresh, HealthLoop, PersistenceLoop]
     @ (if c_enable_connection_pool c then [PoolCleanup] else []) @ [StickyCleanup]
     @ (if c_enable_warm_pool c then [WarmRefresh] else []) @ [ConfigReload]"

definition services :: "config \<Rightarrow> service list" where
  "services c = first_services @ background_services c"

text \<open>
  The task that does an activity.  The handlers of clients, the API on the loopback address and
  the country look-ups run in tasks of their own, whose handles nobody keeps.
\<close>

fun service_of :: "activity \<Rightarrow> service option" where
  "service_of (Refresh parse content w arrival now) = Some SourceRefresh"
| "service_of (Check limit chk arrival now) = Some HealthLoop"
| "service_of (Reload c) = Some ConfigReload"
| "service_of (StickyTick cl now) = Some StickyCleanup"
| "service_of (PoolTick now) = Some PoolCleanup"
| "service_of (WarmTick dial clk now c) = Some WarmRefresh"
| "service_of (Geo fetch key) = None"
| "service_of (Api op) = None"
| "service_of (Handle inp client ph) = None"

fun crashes :: "activity \<Rightarrow> gstate \<Rightarrow> bool" where
  "crashes (Handle inp client ph) st \<longleftrightarrow> (\<exists>st'. handler_step inp client ph st = Crash st')"
| "crashes (StickyTick cl now) st \<longleftrightarrow> sticky_tick cl now st = Panic"
| "crashes _ st \<longleftrightarrow> False"

text \<open>
  The timers that a task of \<open>main\<close> or the loop in it makes.  \<open>tokio::time::interval\<close> panics on a
  period of zero; the task of the sources makes its timer after a first refresh, that of the warm
  pool after fifteen seconds.
\<close>

fun start_timers :: "config \<Rightarrow> service \<Rightarrow> nat list comp" where
  "start_timers c SourceRefresh = comp_bind (interval (unat (c_source_update_interval c))) (\<lambda>t. Ret [t])"
| "start_timers c HealthLoop = comp_bind (interval 5) (\<lambda>t. comp_bind (interval 30) (\<lambda>u. Ret [t, u]))"
| "start_timers c PersistenceLoop = comp_bind (interval 300) (\<lambda>t. Ret [t])"
| "start_timers c PoolCleanup = comp_bind (interval 60) (\<lambda>t. Ret [t])"
| "start_timers c StickyCleanup = comp_bind (interval 60) (\<lambda>t. Ret [t])"
| "start_timers c WarmRefresh = comp_bind (interval (unat (c_warm_pool_refresh_interval c))) (\<lambda>t. Ret [t])"
| "start_timers c _ = Ret []"

text \<open>
  A listener whose socket cannot be bound, or whose \<open>accept\<close> or \<open>recv_from\<close> fails, returns the
  error; its task logs it and ends (\<open>listener_fails\<close> below).  \<open>Probing\<close> carries the proxies of the fast probe still being checked and the working ones found
  so far; \<open>Stopping\<close> is between the interruption and the final save.  \<open>m_refreshed\<close>: the task of
  the sources has done its first refresh.
\<close>

datatype main_phase = Probing "proxy list" nat | Running | Stopping | Stopped | Aborted

record main =
  m_phase :: main_phase
  m_state :: gstate
  m_services :: "service list"
  m_files :: files
  m_refreshed :: bool

definition main_start :: "outside \<Rightarrow> config \<Rightarrow> main" where
  "main_start out c =
     (case boot out c of
        (reported, batch, st) \<Rightarrow>
          \<lparr>m_phase = Probing batch 0, m_state = st, m_services = first_services,
           m_files = o_files out, m_refreshed = False\<rparr>)"

text \<open>
  A task of \<open>main\<close> has its timers before it does anything, but for the first refresh of the sources.
\<close>

definition before_timers :: "main \<Rightarrow> service \<Rightarrow> bool" where
  "before_timers m s \<longleftrightarrow> s = SourceRefresh \<and> \<not> m_refreshed m"

definition may_act :: "config \<Rightarrow> main \<Rightarrow> activity \<Rightarrow> bool" where
  "may_act c m a \<longleftrightarrow> m_phase m \<noteq> Stopped \<and> m_phase m \<noteq> Aborted \<and>
     (case service_of a of
        None \<Rightarrow> True
      | Some s \<Rightarrow> s \<in> set (m_services m) \<and> (start_timers c s \<noteq> Panic \<or> before_timers m s))"

inductive main_step ::
  "(proxy list \<Rightarrow> string option) \<Rightarrow> config \<Rightarrow> main \<Rightarrow> main \<Rightarrow> bool"
  for encode :: "proxy list \<Rightarrow> string option" and c :: config
where
  work: "may_act c m a \<Longrightarrow> act_ok a \<Longrightarrow> \<not> crashes a (m_state m) \<Longrightarrow>
    main_step encode c m
      (m\<lparr>m_state := act a (m_state m), m_refreshed := m_refreshed m \<or> service_of a = Some SourceRefresh\<rparr>)"
| crash: "may_act c m a \<Longrightarrow> crashes a (m_state m) \<Longrightarrow>
    main_step encode c m (m\<lparr>m_phase := Aborted, m_services := []\<rparr>)"
| probe: "m_phase m = Probing left_over found \<Longrightarrow> p \<in> set left_over \<Longrightarrow>
    probe_result ((proxy_key p, res), now) (found, [], m_state m) = (found', geo, st') \<Longrightarrow>
    main_step encode c m (m\<lparr>m_phase := Probing (remove1 p left_over) found', m_state := st'\<rparr>)"
| probed: "m_phase m = Probing [] found \<Longrightarrow>
    main_step encode c m (m\<lparr>m_phase := Running, m_services := m_services m @ background_services c\<rparr>)"
| listener_fails: "s \<in> set first_services \<Longrightarrow>
    main_step encode c m (m\<lparr>m_services := removeAll s (m_services m)\<rparr>)"
| zero_period: "s \<in> set (m_services m) \<Longrightarrow> start_timers c s = Panic \<Longrightarrow> \<not> before_timers m s \<Longrightarrow>
    main_step encode c m (m\<lparr>m_phase := Aborted, m_services := []\<rparr>)"
| persist: "PersistenceLoop \<in> set (m_services m) \<Longrightarrow>
    main_step encode c m (m\<lparr>m_files := save_state encode fault (m_state m) (m_files m)\<rparr>)"
| interrupt: "m_phase m = Running \<Longrightarrow>
    main_step encode c m (m\<lparr>m_phase := Stopping, m_services := []\<rparr>)"
| save: "m_phase m = Stopping \<Longrightarrow> shutdown encode fault c (m_state m) (m_files m) = (fs', st') \<Longrightarrow>
    main_step encode c m (m\<lparr>m_phase := Stopped, m_state := st', m_files := fs'\<rparr>)"

inductive main_reachable ::
  "(proxy list \<Rightarrow> string option) \<Rightarrow> outside \<Rightarrow> config \<Rightarrow> main \<Rightarrow> bool"
  for encode out c
where
  start: "main_reachable encode out c (main_start out c)"
| step: "main_reachable encode out c m \<Longrightarrow> main_step encode c m m' \<Longrightarrow> main_reachable encode out c m'"

inductive_cases main_stepE: "main_step encode c m m'"

text \<open>The configuration comes from the file that \<open>CONFIG_PATH\<close> names, if that is set.\<close>

definition config_path :: "(string \<Rightarrow> string option) \<Rightarrow> string" where
  "config_path var =
     (case var ''CONFIG_PATH'' of Some path \<Rightarrow> path | None \<Rightarrow> ''config/gateway.json'')"

definition main_run :: "(string \<Rightarrow> string option) \<Rightarrow> config_env \<Rightarrow> outside \<Rightarrow> config \<times> main" where
  "main_run var env out =
     (let c = config_get (config_manager_new env (config_path var)) in (c, main_start out c))"

section \<open>Idle connections\<close>

text \<open>No idle connection in the connection pool and, if the warm pool is off, none in that.\<close>

definition no_idle :: "bool \<Rightarrow> gstate \<Rightarrow> bool" where
  "no_idle warm_off st \<longleftrightarrow>
     pools (connection_pool st) = [] \<and> (warm_off \<longrightarrow> connections (warm_pool st) = [])"

lemma no_idle_frame [simp]:
  "no_idle b (st\<lparr>proxies := ps\<rparr>) = no_idle b st" "no_idle b (st\<lparr>banned := bs\<rparr>) = no_idle b st"
  "no_idle b (st\<lparr>first_ready := a\<rparr>) = no_idle b st" "no_idle b (st\<lparr>total_requests := x\<rparr>) = no_idle b st"
  "no_idle b (st\<lparr>active_connections := x\<rparr>) = no_idle b st" "no_idle b (st\<lparr>sticky_sessions := m\<rparr>) = no_idle b st"
  "no_idle b (st\<lparr>geoip := g\<rparr>) = no_idle b st" "no_idle b (st\<lparr>exclude_countries := e\<rparr>) = no_idle b st"
  "no_idle b (st\<lparr>geo_index := i\<rparr>) = no_idle b st" "no_idle b (st\<lparr>proxy_rotations := n\<rparr>) = no_idle b st"
  by (simp_all add: no_idle_def)

lemma no_idle_ops [simp]:
  "no_idle b (state_success k l now st) = no_idle b st" "no_idle b (state_fail k now st) = no_idle b st"
  "no_idle b (set_tls_clean k clean st) = no_idle b st" "no_idle b (cleanup_stale now st) = no_idle b st"
  "no_idle b (snd (insert_if_absent p st)) = no_idle b st"
  by (simp_all add: state_success_def state_fail_def set_tls_clean_def cleanup_stale_def
      insert_if_absent_def)

lemma no_idle_inserts [simp]: "no_idle b (fold (\<lambda>p st. snd (insert_if_absent p st)) ps st) = no_idle b st"
  by (induction ps arbitrary: st) simp_all

lemma no_idle_probe: "no_idle b (snd (snd (probe_result r acc))) = no_idle b (snd (snd acc))"
proof -
  obtain k res now f geo st where "r = ((k, res), now)" "acc = (f, geo, st)" by (metis surj_pair)
  then show ?thesis by (cases res) (simp_all add: probe_result_def probe_ok_def Let_def)
qed

interpretation idle_probes: keeps "\<lambda>acc. no_idle b (snd (snd acc))" probe_result for b
  by unfold_locales (simp add: no_idle_probe)

lemma warm_take_empty: "connections wp = [] \<Longrightarrow> connections (snd (warm_take pk now k wp)) = []"
  by (simp add: warm_take_def tbl_get_def)

lemma no_idle_dial:
  assumes "no_idle b st" "dial_step pk dial now n rq p st = Move ph' st'"
  shows "no_idle b st'"
proof -
  obtain r wp where w: "warm_take pk now (proxy_key p) (warm_pool st) = (r, wp)" by fastforce
  then have "st' = st\<lparr>warm_pool := wp\<rparr>"
    using assms(2) by (auto simp: dial_step_def split: option.splits)
  then show ?thesis
    using assms(1) w warm_take_empty [of "warm_pool st" pk now "proxy_key p"] by (auto simp: no_idle_def)
qed

lemma no_idle_handler:
  "no_idle b st \<Longrightarrow> handler_step inp client ph st = Move ph' st' \<Longrightarrow> no_idle b st'"
  by (cases "(inp, client, ph, st)" rule: handler_step.cases)
    (auto simp: select_step_def wake_step_def result_step_def finish_def accept_request_def Let_def
       dest: no_idle_dial split: comp.splits option.splits if_splits io.splits)

lemma no_idle_act:
  assumes "no_idle b st" "act_ok a" "b \<longrightarrow> service_of a \<noteq> Some WarmRefresh"
  shows "no_idle b (act a st)"
proof (cases a)
  case (Refresh parse content w arrival now)
  obtain ps where "snd (full_refresh parse content w arrival now st) =
      cleanup_stale now (fold (\<lambda>p st. snd (insert_if_absent p st)) ps st)"
    using refresh_pool [of arrival parse content w now st] assms(2) Refresh by auto
  with Refresh assms(1) show ?thesis by simp
next
  case (Check limit chk arrival now)
  then show ?thesis
    using idle_probes.keeps_fold [of b "(0, [], st)"] assms(1)
    by (simp add: health_tick_def fast_probe_def Let_def)
next
  case (Geo fetch key)
  then show ?thesis
    using assms(1) by (auto simp: geo_task_def update_geo_index_def split: option.splits prod.split)
next
  case (Api op)
  then show ?thesis
    using assms(1)
    by (cases op) (auto simp: add_proxy_def ban_proxy_def unban_proxy_def Let_def split: option.split list.split)
next
  case (Handle inp client ph)
  then show ?thesis using assms(1) no_idle_handler [of b st inp client ph] by (auto split: move.split)
next
  case (StickyTick cl now)
  then show ?thesis
    using assms(1) by (cases "sticky_cleanup cl now (sticky_sessions st)") (simp_all add: sticky_tick_def)
next
  case (PoolTick now)
  then show ?thesis
    using assms(1) by (simp add: pool_cleanup_tick_def conn_cleanup_def no_idle_def)
next
  case (WarmTick dial clk now c)
  then show ?thesis using assms(1,3) by (auto simp: warm_tick_def Let_def no_idle_def)
qed (use assms(1) in \<open>simp add: apply_config_def\<close>)

section \<open>What every reachable state has\<close>

lemma boot_no_idle: "boot out c = (reported, batch, st) \<Longrightarrow> no_idle b st"
proof -
  assume "boot out c = (reported, batch, st)"
  then have st: "st = fold (\<lambda>p st. snd (insert_if_absent p st)) (boot_batch out)
      (snd (load_state (o_decode out) (o_now out) (o_files out) (new_state (o_exists out) c)))"
    using boot_eq by blast
  have new: "no_idle b (new_state (o_exists out) c)"
    by (simp add: new_state_def with_config_def Let_def no_idle_def conn_pool_new_def
        conn_pool_with_config_def warm_pool_new_def)
  have "no_idle b (snd (load_state dec now fs (new_state (o_exists out) c)))" for dec now fs
    using new by (auto simp: load_state_def load_state_from_def load_fold split: option.split)
  with st show ?thesis by simp
qed

lemma shutdown_state:
  "shutdown encode fault c st fs = (fs', st') \<Longrightarrow>
     (pool_ok st' = pool_ok st) \<and> (pool_keyed st' = pool_keyed st) \<and> (no_idle b st \<longrightarrow> no_idle b st') \<and> to_save st' = to_save st \<and>
     fs' = save_state encode fault st fs"
  by (cases "c_enable_connection_pool c")
    (auto simp: shutdown_def Let_def no_idle_def conn_clear_def save_state_def save_state_to_def
      to_save_def all_proxies_def pool_ok_def pool_keyed_def)

text \<open>What is spawned when: only the first tasks while probing, then at most the configured ones.\<close>

definition services_ok :: "config \<Rightarrow> main \<Rightarrow> bool" where
  "services_ok c m \<longleftrightarrow> set (m_services m) \<subseteq> set (services c) \<and>
     (\<forall>left_over found. m_phase m = Probing left_over found \<longrightarrow> set (m_services m) \<subseteq> set first_services)"

lemma main_services: "main_reachable encode out c m \<Longrightarrow> services_ok c m"
proof (induction rule: main_reachable.induct)
  case start
  then show ?case by (simp add: main_start_def services_ok_def services_def split: prod.split)
next
  case (step m m')
  from step(2,3) show ?case
    by (cases rule: main_stepE) (auto simp: services_ok_def services_def)
qed

lemma failed_listener_step:
  "main_step encode c m m' \<Longrightarrow> s \<in> set first_services \<Longrightarrow> s \<notin> set (m_services m) \<Longrightarrow> s \<notin> set (m_services m')"
  by (cases rule: main_step.cases) (auto simp: background_services_def first_services_def split: if_splits)

lemma warm_refresh_needs_warm_pool:
  "\<not> c_enable_warm_pool c \<Longrightarrow> main_reachable encode out c m \<Longrightarrow> WarmRefresh \<notin> set (m_services m)"
  using main_services [of encode out c m]
  by (auto simp: services_ok_def services_def background_services_def first_services_def)

text \<open>
  A listener that failed stays down.  Once the transparent proxy, the UDP relay or the API has
  ended with an error, be it a single failed \<open>accept\<close>, no step of the process starts it again,
  while the other tasks go on as if it were there.
\<close>

theorem failed_listener_stays_down:
  assumes "(main_step encode c)\<^sup>*\<^sup>* m m'" "s \<in> set first_services" "s \<notin> set (m_services m)"
  shows "s \<notin> set (m_services m')"
  using assms by (induction rule: rtranclp_induct) (auto dest: failed_listener_step)

lemma failed_listener_stays_down_witness:
  "TransparentProxy \<notin> set (m_services (main_start quiet_outside config_default
     \<lparr>m_services := [UdpRelay, WebApi]\<rparr>))"
  by (rule failed_listener_stays_down [OF rtranclp.rtrancl_refl]) (simp_all add: first_services_def)

text \<open>
  A configured period of zero seconds, for the source updates or for an enabled warm pool, lets
  the process abort while it runs, and nothing else of the configuration does: the sources are
  refreshed once, the warm pool never.
\<close>

lemma zero_period_iff:
  "start_timers c s = Panic \<longleftrightarrow>
     s = SourceRefresh \<and> c_source_update_interval c = 0 \<or> s = WarmRefresh \<and> c_warm_pool_refresh_interval c = 0"
  by (cases s) (auto simp: interval_def unat_eq_zero)

theorem zero_period_aborts:
  assumes "s \<in> set (m_services m)" "\<not> before_timers m s"
    and "s = SourceRefresh \<and> c_source_update_interval c = 0 \<or> s = WarmRefresh \<and> c_warm_pool_refresh_interval c = 0"
  shows "main_step encode c m (m\<lparr>m_phase := Aborted, m_services := []\<rparr>)
    \<and> (\<forall>a. service_of a = Some s \<longrightarrow> \<not> may_act c m a)"
  using main_step.zero_period [OF assms(1), of c encode] assms(2,3) zero_period_iff [of c s]
  by (auto simp: may_act_def)

lemma zero_period_aborts_witness:
  "main_step encode (config_default\<lparr>c_enable_warm_pool := True, c_warm_pool_refresh_interval := 0\<rparr>)
     (main_start quiet_outside config_default\<lparr>m_phase := Running, m_services := [WarmRefresh]\<rparr>)
     (main_start quiet_outside config_default\<lparr>m_phase := Aborted, m_services := []\<rparr>)"
  using zero_period_aborts [of WarmRefresh "main_start quiet_outside config_default\<lparr>m_phase := Running, m_services := [WarmRefresh]\<rparr>"
      "config_default\<lparr>c_enable_warm_pool := True, c_warm_pool_refresh_interval := 0\<rparr>" encode]
  by (simp add: before_timers_def)

text \<open>An invariant of the shared state that every step of the process keeps.\<close>

lemma main_invariant:
  assumes "main_reachable encode out c m" "I (m_state (main_start out c))"
    and work: "\<And>m a. main_reachable encode out c m \<Longrightarrow> may_act c m a \<Longrightarrow> act_ok a \<Longrightarrow> I (m_state m) \<Longrightarrow>
      I (act a (m_state m))"
    and probe: "\<And>r acc. I (snd (snd acc)) \<Longrightarrow> I (snd (snd (probe_result r acc)))"
    and save: "\<And>fault st fs fs' st'. shutdown encode fault c st fs = (fs', st') \<Longrightarrow> I st \<Longrightarrow> I st'"
  shows "I (m_state m)"
  using assms(1)
proof (induction rule: main_reachable.induct)
  case start
  show ?case by (rule assms(2))
next
  case (step m m')
  from step(2) show ?case
  proof (cases rule: main_step.cases)
    case (work a)
    then show ?thesis using assms(3) [OF step(1) work(2,3) step(3)] by simp
  next
    case (probe left_over found p res now found' geo st')
    then show ?thesis using assms(4) [of "(found, [], m_state m)" "((proxy_key p, res), now)"] step(3) by simp
  next
    case (save fault fs' st')
    then show ?thesis using assms(5) [OF save(3) step(3)] by simp
  qed (use step(3) in simp_all)
qed

section \<open>The source loop\<close>

lemma pool_within_cleanup: "pool_within n st \<Longrightarrow> pool_within n (cleanup_stale now st)"
proof -
  assume st: "pool_within n st"
  have "total_count (cleanup_stale now st) \<le> total_count st"
    by (simp add: total_count_def cleanup_stale_def tbl_len_def tbl_retain_def)
  moreover have "max_proxies (cleanup_stale now st) = max_proxies st" by (simp add: cleanup_stale_def)
  ultimately show ?thesis using st cleanup_pool_ok [of st now] by (auto simp: pool_within_def)
qed

text \<open>
  However long the source loop runs, with any sources file, any answers of the sources and any
  order of completion at every tick, the pool stays sound and within its limit; the loop starts
  exactly if its period is not zero, and its first tick refreshes nothing.
\<close>

theorem source_loop_stays_within_limit:
  assumes "pool_within n st" "list_all (\<lambda>rw. arrival_ok (rw_arrival rw)) ticks"
  shows "case run_source_loop_with_path parse path period ticks st of
      Ret st' \<Rightarrow> period \<noteq> 0 \<and> pool_within n st' \<and> (length ticks \<le> 1 \<longrightarrow> st' = st)
    | Panic \<Rightarrow> period = 0"
proof -
  have refresh: "pool_within n (refresh_with parse path rw st)"
    if ok: "pool_within n st" "arrival_ok (rw_arrival rw)" for rw and st :: "'a shared_state"
  proof -
    obtain ps where "\<forall>p \<in> set ps. score_ok p"
      "refresh_with parse path rw st = cleanup_stale (rw_now rw) (fold (\<lambda>p st. snd (insert_if_absent p st)) ps st)"
      using refresh_pool [OF ok(2), of parse "rw_files rw path" "rw_web rw" "rw_now rw" st]
      by (auto simp: refresh_with_def)
    then show ?thesis using ok(1) by (simp add: pool_within_cleanup pool_within_insert_all)
  qed
  have "pool_within n (fold (refresh_with parse path) rws st)"
    if "list_all (\<lambda>rw. arrival_ok (rw_arrival rw)) rws" "pool_within n st" for rws and st :: "'a shared_state"
    using that by (induction rws arbitrary: st) (simp_all add: refresh)
  moreover have "list_all (\<lambda>rw. arrival_ok (rw_arrival rw)) (tl ticks)" using assms(2) by (cases ticks) auto
  moreover have "length ticks \<le> 1 \<Longrightarrow> tl ticks = []" by (cases ticks) auto
  ultimately show ?thesis using assms(1) by (simp add: run_source_loop_with_path_def interval_def)
qed

lemma source_loop_stays_within_limit_witness:
  "\<exists>st'. run_source_loop_with_path (\<lambda>_. Some [''u'']) ''s.json'' 300
      [\<lparr>rw_files = (\<lambda>_. Some []), rw_web = (\<lambda>_ _. Body ''1.2.3.4:80''), rw_arrival = rev, rw_now = \<lparr>inst = 0, utc = 0\<rparr>\<rparr>]
      (state_new :: nat shared_state) = Ret st' \<and> pool_within 5000 st'"
proof -
  have "pool_within 5000 (state_new :: nat shared_state)"
    by (simp add: pool_within_def pool_ok_def state_new_def total_count_def tbl_len_def)
  from source_loop_stays_within_limit [OF this, where period = 300 and path = "''s.json''" and parse = "\<lambda>_. Some [''u'']"
      and ticks = "[\<lparr>rw_files = (\<lambda>_. Some []), rw_web = (\<lambda>_ _. Body ''1.2.3.4:80''), rw_arrival = rev, rw_now = \<lparr>inst = 0, utc = 0\<rparr>\<rparr>]"]
  show ?thesis by (auto simp: arrival_ok_def split: comp.splits)
qed

end
