(* ===== verification/Tasks.thy ===== *)
theory Tasks
  imports Sources Health Web
begin

text \<open>
  The tasks of the gateway at the grain of their atomic operations.  \<open>SharedState\<close> has no lock
  of its own: what is atomic is one operation on one of its \<open>DashMap\<close>s or counters, and between
  two of them any other task may run.  A task is the tree of its atomic operations, where what it
  does next depends on what it saw.  The theories of the components describe every task as if it
  ran alone; here that is shown to be the run of its operations without interruption, and
  properties are proved for every interleaving.
\<close>

section \<open>Tasks and schedules\<close>

datatype 's task = is_halt: Halt | Step "'s \<Rightarrow> 's" "'s \<Rightarrow> 's task"

text \<open>Running alone to the end: the continuation depends on the state before the operation.\<close>

primrec run :: "'s task \<Rightarrow> 's \<Rightarrow> 's" where
  "run Halt s = s"
| "run (Step f k) s = run (k s) (f s)"

abbreviation look :: "('s \<Rightarrow> 'a) \<Rightarrow> ('a \<Rightarrow> 's task) \<Rightarrow> 's task" where
  "look g k \<equiv> Step (\<lambda>s. s) (\<lambda>s. k (g s))"

abbreviation upd :: "('s \<Rightarrow> 's) \<Rightarrow> 's task \<Rightarrow> 's task" where
  "upd f t \<equiv> Step f (\<lambda>_. t)"

text \<open>A schedule names the task that moves next; a finished task or a wrong index does nothing.\<close>

fun sched_step :: "nat \<Rightarrow> 's task list \<times> 's \<Rightarrow> 's task list \<times> 's" where
  "sched_step i (ts, s) =
     (if i < length ts
      then (case ts ! i of Halt \<Rightarrow> (ts, s) | Step f k \<Rightarrow> (ts[i := k s], f s))
      else (ts, s))"

definition interleave :: "nat list \<Rightarrow> 's task list \<times> 's \<Rightarrow> 's task list \<times> 's" where
  "interleave sch c = fold sched_step sch c"

text \<open>A task that keeps an invariant with each of its operations, whatever runs in between.\<close>

primrec keeping :: "('s \<Rightarrow> bool) \<Rightarrow> 's task \<Rightarrow> bool" where
  "keeping I Halt \<longleftrightarrow> True"
| "keeping I (Step f k) \<longleftrightarrow> (\<forall>s. I s \<longrightarrow> I (f s) \<and> keeping I (k s))"

interpretation sched: keeps "\<lambda>(ts, s). list_all (keeping I) ts \<and> I s" sched_step
  for I :: "'s \<Rightarrow> bool"
proof unfold_locales
  fix i and c :: "'s task list \<times> 's"
  assume "case c of (ts, s) \<Rightarrow> list_all (keeping I) ts \<and> I s"
  then show "case sched_step i c of (ts, s) \<Rightarrow> list_all (keeping I) ts \<and> I s"
  proof (cases c)
    case (Pair ts s)
    assume "case c of (ts, s) \<Rightarrow> list_all (keeping I) ts \<and> I s"
    with Pair have c: "list_all (keeping I) ts" "I s" by simp_all
    show ?thesis
    proof (cases "i < length ts")
      case True
      with c have "keeping I (ts ! i)" by (simp add: list_all_length)
      with c True Pair show ?thesis
        by (auto simp: list_all_length nth_list_update split: task.split)
    qed (use c Pair in auto)
  qed
qed

lemma interleave_keeps:
  "list_all (keeping I) ts \<Longrightarrow> I s \<Longrightarrow> I (snd (interleave sch (ts, s)))"
  using sched.keeps_fold [of I "(ts, s)" sch] by (auto simp: interleave_def split: prod.splits)

text \<open>A schedule that lets one task run alone: enough turns, and it ends as \<open>run\<close> says.\<close>

lemma alone: "\<exists>n. interleave (replicate n 0) ([t], s) = ([Halt], run t s)"
proof (induction t arbitrary: s)
  case Halt
  have "interleave (replicate 0 0) ([Halt], s) = ([Halt], run Halt s)" by (simp add: interleave_def)
  then show ?case by blast
next
  case (Step f k)
  from Step.IH [OF rangeI, of s "f s"] obtain n where
    "interleave (replicate n 0) ([k s], f s) = ([Halt], run (k s) (f s))" by blast
  then have "interleave (replicate (Suc n) 0) ([Step f k], s) = ([Halt], run (Step f k) s)"
    by (simp add: interleave_def)
  then show ?case by blast
qed

section \<open>The tasks of the gateway\<close>

text \<open>\<open>insert_if_absent\<close> reads the size of the pool, then inserts through the entry of the key.\<close>

definition insert_entry :: "proxy \<Rightarrow> 's shared_state \<Rightarrow> 's shared_state" where
  "insert_entry p st =
     (if tbl_has (proxies st) (proxy_key p) then st
      else st\<lparr>proxies := tbl_put (proxy_key p) p (proxies st)\<rparr>)"

definition pool_full :: "'s shared_state \<Rightarrow> bool" where
  "pool_full st \<longleftrightarrow> 0 < max_proxies st \<and> max_proxies st \<le> tbl_len (proxies st)"

definition insert_task ::
  "proxy \<Rightarrow> (bool \<Rightarrow> 's shared_state task) \<Rightarrow> 's shared_state task" where
  "insert_task p k =
     look pool_full (\<lambda>full.
       if full then k False
       else Step (insert_entry p) (\<lambda>st. k (\<not> tbl_has (proxies st) (proxy_key p))))"

primrec insert_all_task ::
  "proxy list \<Rightarrow> nat \<Rightarrow> (nat \<Rightarrow> 's shared_state task) \<Rightarrow> 's shared_state task" where
  "insert_all_task [] n k = k n"
| "insert_all_task (p # ps) n k =
     insert_task p (\<lambda>new. insert_all_task ps (if new then n + 1 else n) k)"

text \<open>\<open>DashMap::retain\<close> holds the lock of one shard at a time; \<open>shard\<close> is the shard of a key.\<close>

definition retain_shard ::
  "(string \<Rightarrow> nat) \<Rightarrow> clock \<Rightarrow> nat \<Rightarrow> 's shared_state \<Rightarrow> 's shared_state" where
  "retain_shard shard now i st =
     st\<lparr>proxies := tbl_retain (\<lambda>k p. shard k = i \<longrightarrow> not_stale now p) (proxies st)\<rparr>"

primrec cleanup_task ::
  "(string \<Rightarrow> nat) \<Rightarrow> clock \<Rightarrow> nat list \<Rightarrow> 's shared_state task" where
  "cleanup_task shard now [] = Halt"
| "cleanup_task shard now (i # is) = upd (retain_shard shard now i) (cleanup_task shard now is)"

text \<open>A refresh of the sources: the fetches \<open>batches\<close> in the order in which they complete.\<close>

definition refresh_task ::
  "(string \<Rightarrow> nat) \<Rightarrow> nat \<Rightarrow> clock \<Rightarrow> proxy list list \<Rightarrow> 's shared_state task" where
  "refresh_task shard n now batches =
     insert_all_task (concat (map (take max_per_source) batches)) 0
       (\<lambda>_. cleanup_task shard now [0..<n])"

text \<open>The requests to the API: a check or a removal, then an insertion.\<close>

definition add_task :: "string \<Rightarrow> u16 \<Rightarrow> string option \<Rightarrow> 's shared_state task" where
  "add_task h prt proto =
     look (\<lambda>st. tbl_has (proxies st) (host_port h prt)) (\<lambda>there.
       if there then Halt
       else upd (\<lambda>st. st\<lparr>proxies := tbl_put (host_port h prt)
              (proxy_new h prt (requested_protocol proto)) (proxies st)\<rparr>) Halt)"

definition ban_task :: "string \<Rightarrow> 's shared_state task" where
  "ban_task arg =
     (case split_char (CHR '':'') arg of
        [h, p] \<Rightarrow>
          (if parse_u16 p = None then Halt
           else Step (\<lambda>st. st\<lparr>proxies := tbl_del (h @ '':'' @ p) (proxies st)\<rparr>) (\<lambda>st.
             case tbl_get (proxies st) (h @ '':'' @ p) of
               Some px \<Rightarrow> upd (\<lambda>st. st\<lparr>banned := tbl_put (h @ '':'' @ p) px (banned st)\<rparr>) Halt
             | None \<Rightarrow> Halt))
      | _ \<Rightarrow> Halt)"

definition unban_task :: "string \<Rightarrow> 's shared_state task" where
  "unban_task arg =
     Step (\<lambda>st. st\<lparr>banned := tbl_del arg (banned st)\<rparr>) (\<lambda>st.
       case tbl_get (banned st) arg of
         Some px \<Rightarrow> upd (\<lambda>st. st\<lparr>proxies := tbl_put (proxy_key px) px (proxies st)\<rparr>) Halt
       | None \<Rightarrow> Halt)"

text \<open>
  The results of a probe as they arrive; \<open>found\<close> is its local count.  A failure updates the
  proxy and then counts a rotation.  The handlers of clients record the same operations.
\<close>

definition success_then ::
  "string \<Rightarrow> f64 \<Rightarrow> clock \<Rightarrow> 's shared_state task \<Rightarrow> 's shared_state task" where
  "success_then key l now t = upd (state_success key l now) t"

definition fail_then :: "string \<Rightarrow> clock \<Rightarrow> 's shared_state task \<Rightarrow> 's shared_state task" where
  "fail_then key now t =
     upd (\<lambda>st. st\<lparr>proxies := tbl_modify key (Proxy.record_fail now) (proxies st)\<rparr>)
       (upd (\<lambda>st. st\<lparr>proxy_rotations := proxy_rotations st + 1\<rparr>) t)"

definition working_then ::
  "string \<Rightarrow> f64 \<Rightarrow> bool \<Rightarrow> clock \<Rightarrow> nat \<Rightarrow> 's shared_state task \<Rightarrow> 's shared_state task" where
  "working_then key l clean now found t =
     success_then key l now (upd (set_tls_clean key clean)
       (if found = 0 then upd (\<lambda>st. st\<lparr>first_ready := first_ready st + 1\<rparr>) t else t))"

fun probe_task :: "((string \<times> check_result) \<times> clock) list \<Rightarrow> nat \<Rightarrow> 's shared_state task" where
  "probe_task [] found = Halt"
| "probe_task (((key, CheckOk l), now) # rs) found =
     working_then key l True now found (probe_task rs (found + 1))"
| "probe_task (((key, OkNoTls l), now) # rs) found =
     working_then key l False now found (probe_task rs (found + 1))"
| "probe_task (((key, Dead), now) # rs) found = fail_then key now (probe_task rs found)"

text \<open>The look-up of a country, between whose operations the answer of the service is awaited.\<close>

definition country_then :: "string \<Rightarrow> string option \<Rightarrow> 's shared_state task" where
  "country_then key c =
     (case c of
        None \<Rightarrow> Halt
      | Some c \<Rightarrow>
          upd (\<lambda>st. st\<lparr>proxies := tbl_modify key (\<lambda>p. p\<lparr>country := Some c\<rparr>) (proxies st)\<rparr>)
            (upd (update_geo_index key c) Halt))"

definition geo_then ::
  "(ipaddr \<Rightarrow> api_response option) \<Rightarrow> string \<Rightarrow> ipaddr \<Rightarrow> 's shared_state task" where
  "geo_then fetch key ip =
     look (\<lambda>st. tbl_get (cache (geoip st)) ip) (\<lambda>cached.
       case cached of
         Some info \<Rightarrow> country_then key (country_code info)
       | None \<Rightarrow>
           (case fetch ip of
              None \<Rightarrow> Halt
            | Some data \<Rightarrow>
                upd (\<lambda>st. st\<lparr>geoip := (geoip st)\<lparr>cache := tbl_put ip
                       \<lparr>country_code = ar_country_code data, country_name = ar_country data,
                        city = ar_city data\<rparr> (cache (geoip st))\<rparr>\<rparr>)
                  (country_then key (ar_country_code data))))"

definition lookup_task ::
  "(ipaddr \<Rightarrow> api_response option) \<Rightarrow> string \<Rightarrow> 's shared_state task" where
  "lookup_task fetch key =
     look (\<lambda>st. tbl_get (proxies st) key) (\<lambda>entry.
       case entry of
         None \<Rightarrow> Halt
       | Some p \<Rightarrow> (case parse_ip (host p) of None \<Rightarrow> Halt | Some ip \<Rightarrow> geo_then fetch key ip))"

section \<open>Alone, a task is the operation\<close>

lemma run_insert: "run (insert_task p k) st = (case insert_if_absent p st of (new, st') \<Rightarrow> run (k new) st')"
  by (simp add: insert_task_def insert_entry_def insert_if_absent_def pool_full_def)

lemma run_insert_all:
  "run (insert_all_task ps n k) st = (case fold insert_counted ps (n, st) of (m, st') \<Rightarrow> run (k m) st')"
  by (induction ps arbitrary: n st) (auto simp: run_insert insert_counted_def split: prod.splits)

lemma fold_batches: "fold (take_batch m) bs acc = fold insert_counted (concat (map (take m) bs)) acc"
  by (induction bs arbitrary: acc) (simp_all add: take_batch_def)

lemma tbl_retain_retain:
  "tbl_retain P (tbl_retain Q m) = tbl_retain (\<lambda>k v. Q k v \<and> P k v) m"
  by (auto simp: tbl_retain_def intro: filter_cong)

lemma run_cleanup:
  "run (cleanup_task shard now is) st =
     st\<lparr>proxies := tbl_retain (\<lambda>k p. shard k \<in> set is \<longrightarrow> not_stale now p) (proxies st)\<rparr>"
proof (induction "is" arbitrary: st)
  case Nil
  have "tbl_retain (\<lambda>k p. True) m = m" for m :: "(string, proxy) table" by (simp add: tbl_retain_def)
  then show ?case by simp
next
  case (Cons i "is")
  have "(\<lambda>k p. (shard k = i \<longrightarrow> not_stale now p) \<and> (shard k \<in> set is \<longrightarrow> not_stale now p)) =
      (\<lambda>k p. shard k \<in> set (i # is) \<longrightarrow> not_stale now p)" by (intro ext) auto
  then show ?case by (simp add: Cons retain_shard_def tbl_retain_retain)
qed

lemma run_refresh:
  assumes "\<And>k. shard k < n"
  shows "run (refresh_task shard n now bs) st = cleanup_stale now (snd (fold (take_batch max_per_source) bs (0, st)))"
  using assms by (simp add: refresh_task_def run_insert_all run_cleanup cleanup_stale_def fold_batches
      split: prod.split)

lemma tbl_del_absent: "tbl_get m k = None \<Longrightarrow> tbl_del k m = m"
  by (auto simp: tbl_del_def tbl_get_def map_of_eq_None_iff intro!: filter_True)

lemma run_ban: "run (ban_task arg) st = snd (ban_proxy arg st)"
  by (auto simp: ban_task_def ban_proxy_def Let_def tbl_del_absent split: list.split option.split)

lemma run_unban: "run (unban_task arg) st = snd (unban_proxy arg st)"
  by (auto simp: unban_task_def unban_proxy_def tbl_del_absent split: option.split)

lemma run_add: "run (add_task h prt proto) st = snd (add_proxy h prt proto st)"
  by (simp add: add_task_def add_proxy_def Let_def)

lemma run_probe: "run (probe_task rs found) st = snd (snd (fold probe_result rs (found, geo, st)))"
  by (induction rs found arbitrary: geo st rule: probe_task.induct)
    (simp_all add: probe_result_def probe_ok_def working_then_def success_then_def fail_then_def
      state_fail_def Let_def)

lemma run_lookup: "run (lookup_task fetch key) st = geo_task fetch key st"
  by (auto simp: lookup_task_def geo_then_def country_then_def geo_task_def lookup_country_def
      geo_lookup_def Let_def update_geo_index_def split: option.split)

section \<open>Jobs and their atomic operations\<close>

text \<open>
  What may run at the same time: source refreshes (each fetch with the web as it found it, in the
  order of completion), requests to the API, probes with the results as they arrive, look-ups.
\<close>

datatype job =
  is_refresh: JRefresh nat clock "(web \<times> string) list"
| JAdd string u16 "string option"
| JBan string
| JUnban string
| JProbe "((string \<times> check_result) \<times> clock) list"
| JLookup "ipaddr \<Rightarrow> api_response option" string

definition fetched_batches :: "(web \<times> string) list \<Rightarrow> proxy list list" where
  "fetched_batches fs = map (\<lambda>(w, url). fetch_source w url (guess_protocol url)) fs"

fun job_task :: "(string \<Rightarrow> nat) \<Rightarrow> job \<Rightarrow> 's shared_state task" where
  "job_task shard (JRefresh n now fs) = refresh_task shard n now (fetched_batches fs)"
| "job_task shard (JAdd h prt proto) = add_task h prt proto"
| "job_task shard (JBan arg) = ban_task arg"
| "job_task shard (JUnban arg) = unban_task arg"
| "job_task shard (JProbe rs) = probe_task rs 0"
| "job_task shard (JLookup fetch key) = lookup_task fetch key"

lemma keeping_insert:
  assumes "score_ok p" "\<And>b. keeping pool_ok (k b)"
  shows "keeping pool_ok (insert_task p k)"
  using assms by (simp add: insert_task_def insert_entry_def pool_ok_def)

lemma keeping_insert_all:
  "\<forall>p \<in> set ps. score_ok p \<Longrightarrow> (\<And>n. keeping pool_ok (k n)) \<Longrightarrow> keeping pool_ok (insert_all_task ps n k)"
  by (induction ps arbitrary: n) (simp_all add: keeping_insert)

lemma keeping_cleanup: "keeping pool_ok (cleanup_task shard now is)"
  by (induction "is") (simp_all add: retain_shard_def pool_ok_def)

lemma pool_ok_record_fail:
  "pool_ok st \<Longrightarrow> pool_ok (st\<lparr>proxies := tbl_modify k (Proxy.record_fail now) (proxies st)\<rparr>)"
  by (simp add: pool_ok_def)

lemma pool_ok_country:
  "pool_ok st \<Longrightarrow> pool_ok (st\<lparr>proxies := tbl_modify k (\<lambda>p. p\<lparr>country := c\<rparr>) (proxies st)\<rparr>)"
  by (simp add: pool_ok_def)

lemma fetched_batches_ok: "p \<in> set (concat (map (take m) (fetched_batches fs))) \<Longrightarrow> score_ok p"
  by (auto simp: fetched_batches_def fetched_score_ok dest!: in_set_takeD)

lemma keeping_probe: "keeping pool_ok (probe_task rs found)"
  by (induction rs found rule: probe_task.induct)
    (auto simp: working_then_def success_then_def fail_then_def success_pool_ok tls_pool_ok
      pool_ok_record_fail)

lemma keeping_country: "keeping pool_ok (country_then key c)"
  by (cases c) (simp_all add: country_then_def update_geo_index_def pool_ok_country)

lemma keeping_lookup: "keeping pool_ok (lookup_task fetch key)"
proof -
  have "keeping pool_ok (geo_then fetch key ip)" for ip
    by (auto simp: geo_then_def keeping_country split: option.split)
  then show ?thesis by (auto simp: lookup_task_def split: option.split)
qed

lemma keeping_job: "keeping pool_ok (job_task shard j)"
proof (cases j)
  case (JRefresh n now fs)
  have "keeping pool_ok (refresh_task shard n now (fetched_batches fs))"
    unfolding refresh_task_def
    by (rule keeping_insert_all) (use fetched_batches_ok in blast, simp add: keeping_cleanup)
  then show ?thesis by (simp add: JRefresh)
next
  case (JBan arg)
  then show ?thesis
    by (auto simp: ban_task_def pool_ok_def dest: well_keyed_get split: list.split option.split)
next
  case (JUnban arg)
  then show ?thesis
    by (auto simp: unban_task_def pool_ok_def dest: well_keyed_get split: option.split)
qed (simp_all add: keeping_probe keeping_lookup, simp add: add_task_def pool_ok_def)

text \<open>
  C7: the pool stays sound under every interleaving.  Any number of refreshes, API requests, probes
  and country look-ups run at once, switching between any two atomic operations, with any answers
  of the network: every proxy of the pool and of the list of bans stands once, under its own key,
  with a finite score.
\<close>

theorem interleaving_keeps_pool:
  assumes "pool_ok st"
  shows "pool_ok (snd (interleave sch (map (job_task shard) jobs, st)))"
  using assms by (rule interleave_keeps [where I = pool_ok, rotated]) (simp add: list_all_length keeping_job)

lemma interleaving_keeps_pool_witness:
  "pool_ok (snd (interleave [0, 1, 0, 1, 2] (map (job_task length)
     [JAdd ''h'' 80 None, JBan ''h:80'', JUnban ''h:80''], state_new)))"
  by (rule interleaving_keeps_pool) (simp add: pool_ok_def state_new_def)

text \<open>
  The operations of the components are what their tasks do when nothing comes between: adding,
  banning and unbanning a proxy, inserting one, a probe, a country look-up, and a whole refresh,
  whose clean-up goes through the pool shard by shard.
\<close>

theorem operations_are_uninterrupted_tasks:
  assumes "\<And>k. shard k < n"
    and "arrival (map (\<lambda>url. fetch_source w url (guess_protocol url)) (load_sources parse content)) = fetched_batches fs"
    and "rs = order (map chk ps)" "ps \<noteq> []"
  shows "run (job_task shard (JAdd h prt proto)) st = snd (add_proxy h prt proto st)
    \<and> run (job_task shard (JBan arg)) st = snd (ban_proxy arg st)
    \<and> run (job_task shard (JUnban arg)) st = snd (unban_proxy arg st)
    \<and> run (insert_task p (\<lambda>_. Halt)) st = snd (insert_if_absent p st)
    \<and> run (job_task shard (JProbe rs)) st = snd (snd (fast_probe chk order ps st))
    \<and> run (job_task shard (JLookup fetch key)) st = geo_task fetch key st
    \<and> run (job_task shard (JRefresh n now fs)) st = snd (full_refresh parse content w arrival now st)"
  using assms
  by (simp add: run_add run_ban run_unban run_insert run_lookup run_refresh full_refresh_def Let_def
      fast_probe_def run_probe [where geo = "[]"] split: prod.split)

lemma operations_are_uninterrupted_tasks_witness:
  "run (job_task (\<lambda>_. 0) (JRefresh 1 \<lparr>inst = 0, utc = 0\<rparr> [(\<lambda>_ _. Body ''1.2.3.4:80'', ''u'')]))
     (state_new :: nat shared_state)
   = snd (full_refresh (\<lambda>_. Some [''u'']) (Some []) (\<lambda>_ _. Body ''1.2.3.4:80'') (\<lambda>xs. xs)
       \<lparr>inst = 0, utc = 0\<rparr> state_new)"
proof -
  have *: "\<And>k :: string. (\<lambda>_. 0) k < (1 :: nat)" by simp
  have "proxy_new [] 1 Http # [] \<noteq> []" by simp
  note u = operations_are_uninterrupted_tasks [OF * _ refl this, where arrival = "\<lambda>xs. xs"]
  show ?thesis
    by (rule u [THEN conjunct2, THEN conjunct2, THEN conjunct2, THEN conjunct2, THEN conjunct2,
          THEN conjunct2]) (simp add: fetched_batches_def load_sources_def)
qed

section \<open>The limit of the pool\<close>

text \<open>
  \<open>may_grow m t n\<close>: a task that may add at most \<open>n\<close> proxies, whatever the pool holds.
  \<open>checks_limit m t b\<close>: one that adds a proxy only after it saw fewer than \<open>m\<close>, once for
  each time it looked; \<open>b\<close> says that it has looked and not yet added.
\<close>

definition sized :: "nat \<Rightarrow> 's shared_state \<Rightarrow> bool" where
  "sized m st \<longleftrightarrow> keys_ok (proxies st) \<and> max_proxies st = m"

primrec may_grow :: "nat \<Rightarrow> 's shared_state task \<Rightarrow> nat \<Rightarrow> bool" where
  "may_grow m Halt = (\<lambda>n. True)"
| "may_grow m (Step f k) = (\<lambda>n. \<forall>s. sized m s \<longrightarrow> sized m (f s) \<and>
     (total_count (f s) \<le> total_count s \<and> may_grow m (k s) n
      \<or> 0 < n \<and> total_count (f s) \<le> total_count s + 1 \<and> may_grow m (k s) (n - 1)))"

primrec checks_limit :: "nat \<Rightarrow> 's shared_state task \<Rightarrow> bool \<Rightarrow> bool" where
  "checks_limit m Halt = (\<lambda>b. True)"
| "checks_limit m (Step f k) = (\<lambda>b. \<forall>s. sized m s \<longrightarrow> sized m (f s) \<and>
     (total_count (f s) \<le> total_count s \<and> checks_limit m (k s) (total_count s < m)
      \<or> b \<and> total_count (f s) \<le> total_count s + 1 \<and> checks_limit m (k s) False))"

lemma checks_limit_mono: "checks_limit m t False \<Longrightarrow> checks_limit m t b"
  by (cases t) auto

lemma sized_put: "sized m st \<Longrightarrow> sized m (st\<lparr>proxies := tbl_put k p (proxies st)\<rparr>)"
  by (simp add: sized_def)

lemma sized_put_count:
  "sized m st \<Longrightarrow> total_count (st\<lparr>proxies := tbl_put k p (proxies st)\<rparr>) \<le> total_count st + 1"
  by (simp add: sized_def total_count_def tbl_len_put)

lemma checks_limit_look:
  "checks_limit m (Step (\<lambda>s. s) k) False \<longleftrightarrow>
     (\<forall>s. sized m s \<longrightarrow> checks_limit m (k s) (total_count s < m))"
  by simp

lemma checks_limit_insert:
  assumes "0 < m" "\<And>b. checks_limit m (k b) False"
  shows "checks_limit m (insert_task p k) False"
proof -
  have entry: "checks_limit m (Step (insert_entry p) (\<lambda>st. k (\<not> tbl_has (proxies st) (proxy_key p)))) True"
    using assms sized_put_count [of m] by (auto simp: insert_entry_def sized_put checks_limit_mono)
  have full: "pool_full s \<longleftrightarrow> \<not> total_count s < m" if "sized m s" for s :: "'a shared_state"
    using that assms(1) by (auto simp: pool_full_def sized_def total_count_def)
  show ?thesis
    unfolding insert_task_def checks_limit_look
    using entry assms(2) by (auto simp: full checks_limit_mono simp del: checks_limit.simps(2))
qed

lemma checks_limit_insert_all:
  assumes "0 < m" "\<And>n. checks_limit m (k n) False"
  shows "checks_limit m (insert_all_task ps n k) False"
  by (induction ps arbitrary: n) (simp_all add: assms checks_limit_insert)

lemma checks_limit_cleanup: "checks_limit m (cleanup_task shard now is) b"
  by (induction "is" arbitrary: b)
    (auto simp: retain_shard_def sized_def total_count_def tbl_len_def tbl_retain_def
      keys_ok_retain [unfolded tbl_retain_def])

lemma checks_limit_refresh: "0 < m \<Longrightarrow> checks_limit m (refresh_task shard n now bs) False"
  by (simp add: refresh_task_def checks_limit_insert_all checks_limit_cleanup)

lemma sized_frame:
  "sized m (st\<lparr>banned := x\<rparr>) = sized m st" "sized m (st\<lparr>geo_index := i\<rparr>) = sized m st"
  "sized m (st\<lparr>first_ready := n\<rparr>) = sized m st" "sized m (st\<lparr>geoip := g\<rparr>) = sized m st"
  "sized m (st\<lparr>proxy_rotations := r\<rparr>) = sized m st"
  "total_count (st\<lparr>banned := x\<rparr>) = total_count st" "total_count (st\<lparr>geo_index := i\<rparr>) = total_count st"
  "total_count (st\<lparr>first_ready := n\<rparr>) = total_count st" "total_count (st\<lparr>geoip := g\<rparr>) = total_count st"
  "total_count (st\<lparr>proxy_rotations := r\<rparr>) = total_count st"
  by (simp_all add: sized_def total_count_def)

lemma sized_modify:
  "sized m st \<Longrightarrow> sized m (st\<lparr>proxies := tbl_modify k f (proxies st)\<rparr>)"
  "sized m st \<Longrightarrow> total_count (st\<lparr>proxies := tbl_modify k f (proxies st)\<rparr>) = total_count st"
  by (simp_all add: sized_def total_count_def)

lemma sized_del:
  "sized m st \<Longrightarrow> sized m (st\<lparr>proxies := tbl_del k (proxies st)\<rparr>)"
  "sized m st \<Longrightarrow> total_count (st\<lparr>proxies := tbl_del k (proxies st)\<rparr>) \<le> total_count st"
  by (simp_all add: sized_def total_count_def tbl_len_del)

lemmas sized_rules = sized_frame sized_modify sized_del sized_put sized_put_count

lemma may_grow_probe: "may_grow m (probe_task rs found) n"
  by (induction rs found rule: probe_task.induct)
    (auto simp: working_then_def success_then_def fail_then_def state_success_def
      set_tls_clean_def sized_rules)

lemma may_grow_lookup: "may_grow m (lookup_task fetch key) n"
proof -
  have country: "may_grow m (country_then key c) n" for c
    by (cases c) (simp_all add: country_then_def update_geo_index_def sized_rules)
  have "may_grow m (geo_then fetch key ip) n" for ip
    by (auto simp: geo_then_def country sized_rules split: option.split)
  then show ?thesis by (auto simp: lookup_task_def split: option.split)
qed

text \<open>The requests that insert without looking at the limit.\<close>

fun inserts :: "job \<Rightarrow> bool" where
  "inserts (JAdd h prt proto) \<longleftrightarrow> True"
| "inserts (JUnban arg) \<longleftrightarrow> True"
| "inserts _ \<longleftrightarrow> False"

lemma may_grow_job:
  "\<not> is_refresh j \<Longrightarrow> may_grow m (job_task shard j) (if inserts j then 1 else 0)"
proof (cases j)
  case (JAdd h prt proto)
  then show ?thesis by (auto simp: add_task_def sized_put sized_put_count [simplified])
next
  case (JBan arg)
  then show ?thesis by (auto simp: ban_task_def sized_rules split: list.split option.split)
next
  case (JUnban arg)
  then show ?thesis
    by (auto simp: unban_task_def sized_frame sized_put sized_put_count [simplified] split: option.split)
qed (simp_all add: may_grow_probe may_grow_lookup)

definition within_limit :: "nat \<Rightarrow> nat \<Rightarrow> 's shared_state task list \<times> 's shared_state \<Rightarrow> bool" where
  "within_limit m a c \<longleftrightarrow>
     (\<exists>r ts b ns st. c = (r # ts, st) \<and> checks_limit m r b \<and> list_all2 (may_grow m) ts ns \<and> sized m st
        \<and> total_count st + (if b then 1 else 0) + sum_list ns \<le> m + a \<and> sum_list ns \<le> a)"

lemma within_limitI:
  "checks_limit m r b \<Longrightarrow> list_all2 (may_grow m) ts ns \<Longrightarrow> sized m st \<Longrightarrow>
     total_count st + (if b then 1 else 0) + sum_list ns \<le> m + a \<Longrightarrow> sum_list ns \<le> a \<Longrightarrow>
     within_limit m a (r # ts, st)"
  unfolding within_limit_def by blast

interpretation limited: keeps "within_limit m a" sched_step for m a
proof unfold_locales
  fix i and c :: "'a shared_state task list \<times> 'a shared_state"
  assume "within_limit m a c"
  then obtain r ts b ns st where c: "c = (r # ts, st)"
    and r: "checks_limit m r b" and ts: "list_all2 (may_grow m) ts ns" and st: "sized m st"
    and le: "total_count st + (if b then 1 else 0) + sum_list ns \<le> m + a" "sum_list ns \<le> a"
    by (auto simp: within_limit_def)
  show "within_limit m a (sched_step i c)"
  proof (cases i)
    case 0
    show ?thesis
    proof (cases r)
      case (Step f k)
      with r st have f: "sized m (f st)"
        "total_count (f st) \<le> total_count st \<and> checks_limit m (k st) (total_count st < m)
          \<or> b \<and> total_count (f st) \<le> total_count st + 1 \<and> checks_limit m (k st) False" by auto
      from f(2) obtain b' where "checks_limit m (k st) b'"
        "total_count (f st) + (if b' then 1 else 0) + sum_list ns \<le> m + a"
        using le by (cases "total_count st < m") fastforce+
      then have "within_limit m a (k st # ts, f st)" using f(1) ts le(2) by (intro within_limitI)
      then show ?thesis by (simp add: c 0 Step)
    qed (use c 0 \<open>within_limit m a c\<close> in simp)
  next
    case (Suc j)
    show ?thesis
    proof (cases "j < length ts \<and> ts ! j \<noteq> Halt")
      case True
      then obtain f k where s: "ts ! j = Step f k" by (cases "ts ! j") auto
      with True ts have "may_grow m (Step f k) (ns ! j)" by (metis list_all2_nthD)
      with st have f: "sized m (f st)" and alt:
        "total_count (f st) \<le> total_count st \<and> may_grow m (k st) (ns ! j)
          \<or> 0 < ns ! j \<and> total_count (f st) \<le> total_count st + 1 \<and> may_grow m (k st) (ns ! j - 1)"
        by auto
      have j: "j < length ns" using True ts by (simp add: list_all2_lengthD)
      from alt obtain n where n: "may_grow m (k st) n" "n \<le> ns ! j"
        "total_count (f st) + n \<le> total_count st + ns ! j" by fastforce
      have "sum_list (ns[j := n]) = sum_list ns + n - ns ! j" using j by (rule sum_list_update)
      moreover have "ns ! j \<le> sum_list ns" using j by (simp add: elem_le_sum_list)
      moreover have "list_all2 (may_grow m) (ts[j := k st]) (ns[j := n])"
        using ts n(1) by (rule list_all2_update_cong)
      ultimately have "within_limit m a (r # ts[j := k st], f st)"
        using f n(2,3) le r by (intro within_limitI [of m r b _ "ns[j := n]"]) auto
      then show ?thesis using True s by (simp add: c Suc)
    next
      case False
      then have "sched_step i c = c" by (auto simp: c Suc split: task.split)
      with \<open>within_limit m a c\<close> show ?thesis by simp
    qed
  qed
qed

text \<open>
  C21: the limit of the pool is exceeded only by requests to the API.  While one task refreshes the
  sources and any number of bans, probes and look-ups run in between its operations, the pool
  never holds more than \<open>max_proxies\<close> plus one proxy for each add or unban request, although
  the refresh reads the size and inserts in two operations.
\<close>

theorem limit_exceeded_only_by_requests:
  fixes st :: "'s shared_state"
  assumes "pool_ok st" "0 < max_proxies st" "total_count st \<le> max_proxies st"
    and "list_all (\<lambda>j. \<not> is_refresh j) jobs"
  shows "total_count (snd (interleave sch
      (map (job_task shard) (JRefresh n now fs # jobs), st))) \<le> max_proxies st + length (filter inserts jobs)"
proof -
  let ?ns = "map (\<lambda>j. if inserts j then 1 else 0) jobs" and ?m = "max_proxies st"
  have ns: "sum_list ?ns = length (filter inserts jobs)" by (induction jobs) simp_all
  have "may_grow ?m (job_task shard j :: 's shared_state task) (if inserts j then 1 else 0)"
    if "j \<in> set jobs" for j
    using assms(4) that by (intro may_grow_job) (simp add: list_all_iff)
  then have "list_all2 (may_grow ?m) (map (job_task shard) jobs :: 's shared_state task list) ?ns"
    unfolding list_all2_map1 list_all2_map2 list_all2_same by blast
  then have "within_limit ?m (length (filter inserts jobs))
      (map (job_task shard) (JRefresh n now fs # jobs), st)"
    using assms(1-3) ns checks_limit_refresh [OF assms(2)]
    by (auto simp: within_limit_def pool_ok_def well_keyed_def sized_def intro!: exI [of _ False])
  from limited.keeps_fold [OF this, of sch] show ?thesis
    by (auto simp: within_limit_def interleave_def)
qed

lemma limit_exceeded_only_by_requests_witness:
  "total_count (snd (interleave [0, 1, 0, 1] (map (job_task length)
     [JRefresh 1 \<lparr>inst = 0, utc = 0\<rparr> [(\<lambda>_ _. Body ''1.2.3.4:80'', ''u'')], JAdd ''h'' 80 None],
     state_new :: nat shared_state))) \<le> max_proxies (state_new :: nat shared_state) + length (filter inserts [JAdd ''h'' 80 None])"
  by (rule limit_exceeded_only_by_requests)
    (simp_all add: pool_ok_def state_new_def total_count_def tbl_len_def)

section \<open>Races\<close>

text \<open>
  \<open>add_proxy\<close> looks whether the key is there and then inserts without looking again.  When a
  refresh inserts the same proxy in between and a probe verifies it, the request overwrites the
  verified record by a fresh one and reports success; run one after the other, in any order that
  has the probe last, the success would stay recorded.
\<close>

lemma add_overwrites_verified:
  assumes "\<not> tbl_has (proxies st) key" "key = host_port h prt" "proxy_key p = key"
    and "\<not> pool_full st" "keys_ok (proxies st)"
    and "probe = probe_task [((key, CheckOk l), now)] 0"
  shows "tbl_get (proxies (snd (interleave [0, 1, 1, 2, 2, 2, 0]
      ([add_task h prt proto, insert_task p (\<lambda>_. Halt), probe], st)))) key
        = Some (proxy_new h prt (requested_protocol proto))"
    and "\<exists>q. tbl_get (proxies (run probe (run (insert_task p (\<lambda>_. Halt)) (run (add_task h prt proto) st)))) key
        = Some q \<and> status q = Some Verified"
proof -
  have 1: "tbl_get (proxies st) key = None" using assms(1) by (simp add: tbl_has_def)
  show "tbl_get (proxies (snd (interleave [0, 1, 1, 2, 2, 2, 0]
      ([add_task h prt proto, insert_task p (\<lambda>_. Halt), probe], st)))) key
        = Some (proxy_new h prt (requested_protocol proto))"
    using assms 1
    by (simp add: interleave_def add_task_def insert_task_def insert_entry_def tbl_has_def
        working_then_def success_then_def state_success_def set_tls_clean_def)
  show "\<exists>q. tbl_get (proxies (run probe (run (insert_task p (\<lambda>_. Halt)) (run (add_task h prt proto) st)))) key
        = Some q \<and> status q = Some Verified"
    using assms 1
    by (simp add: add_task_def insert_task_def insert_entry_def tbl_has_def
        working_then_def success_then_def state_success_def set_tls_clean_def record_success_def Let_def)
qed

text \<open>
  Between the two operations of a ban the proxy is in neither table: an unban request that comes
  then finds nothing to unban, and the proxy ends up banned.
\<close>

lemma unban_misses_a_ban_under_way:
  assumes "tbl_get (proxies st) key = Some p" "key = host_port h prt" "CHR '':'' \<notin> set h"
    and "keys_ok (proxies st)" "keys_ok (banned st)" "tbl_get (banned st) key = None"
  shows "interleave [0, 1, 0] ([ban_task key, unban_task key], st) =
      ([Halt, Halt], st\<lparr>proxies := tbl_del key (proxies st), banned := tbl_put key p (banned st)\<rparr>)"
proof -
  have "split_char (CHR '':'') key = [h, show_u16 prt]" "key = h @ '':'' @ show_u16 prt"
    using assms(2,3) by (simp_all add: host_port_def split_char_append split_char_no_sep colon_not_in_show_u16)
  then show ?thesis using assms
    by (simp add: interleave_def ban_task_def unban_task_def parse_u16_show_u16 tbl_del_absent)
qed

end
