(* ===== verification/GeoTasks.thy ===== *)
theory GeoTasks
  imports Tasks
begin

text \<open>
  \<open>spawn_geoip_lookup\<close> of \<open>src/pool/health_checker.rs\<close>: the country look-ups that a probe
  leaves behind.  Each runs in a task of its own and first takes a permit from the semaphore of
  its probe; a probe makes a new semaphore and does not wait for its look-ups.
\<close>

section \<open>Semaphores and look-ups\<close>

definition max_geoip_concurrent :: nat where "max_geoip_concurrent = 20"

text \<open>
  A look-up: the probe that spawned it, whether it holds a permit, whether it has done any of its
  work (its operations after the wait for the permit), and what of it is left to do.  The
  system: the free permits of each probe's semaphore, the look-ups and the shared state.
\<close>

record 's lookup =
  lk_probe :: nat
  lk_holds :: bool
  lk_started :: bool
  lk_task :: "'s shared_state task"

record 's lookups =
  lk_free :: "nat list"
  lk_jobs :: "'s lookup list"
  lk_state :: "'s shared_state"

text \<open>
  A probe starts; a probe spawns a look-up; a look-up gets a permit; one that has a permit does
  its next operation.  The permit goes back when the task returns, wherever it does.
\<close>

datatype geo_event =
  NewProbe
| Spawn nat "ipaddr \<Rightarrow> api_response option" string
| Acquire nat
| Advance nat

fun geo_step :: "geo_event \<Rightarrow> 's lookups \<Rightarrow> 's lookups" where
  "geo_step NewProbe r = r\<lparr>lk_free := lk_free r @ [max_geoip_concurrent]\<rparr>"
| "geo_step (Spawn b fetch key) r =
     (if b < length (lk_free r)
      then r\<lparr>lk_jobs := lk_jobs r @ [\<lparr>lk_probe = b, lk_holds = False, lk_started = False, lk_task = lookup_task fetch key\<rparr>]\<rparr>
      else r)"
| "geo_step (Acquire i) r =
     (if i < length (lk_jobs r) \<and> \<not> lk_holds (lk_jobs r ! i) \<and> \<not> is_halt (lk_task (lk_jobs r ! i))
         \<and> 0 < lk_free r ! lk_probe (lk_jobs r ! i)
      then (let j = lk_jobs r ! i; b = lk_probe j
            in r\<lparr>lk_jobs := (lk_jobs r)[i := j\<lparr>lk_holds := True\<rparr>],
                 lk_free := (lk_free r)[b := lk_free r ! b - 1]\<rparr>)
      else r)"
| "geo_step (Advance i) r =
     (if i < length (lk_jobs r) \<and> lk_holds (lk_jobs r ! i)
      then (let j = lk_jobs r ! i; b = lk_probe j
            in case lk_task j of
                 Halt \<Rightarrow> r
               | Step f k \<Rightarrow>
                   (let t = k (lk_state r); r = r\<lparr>lk_state := f (lk_state r)\<rparr>
                    in if is_halt t
                       then r\<lparr>lk_jobs := (lk_jobs r)[i := j\<lparr>lk_holds := False, lk_started := True, lk_task := t\<rparr>],
                              lk_free := (lk_free r)[b := lk_free r ! b + 1]\<rparr>
                       else r\<lparr>lk_jobs := (lk_jobs r)[i := j\<lparr>lk_started := True, lk_task := t\<rparr>]\<rparr>))
      else r)"

definition geo_start :: "'s shared_state \<Rightarrow> 's lookups" where
  "geo_start st = \<lparr>lk_free = [], lk_jobs = [], lk_state = st\<rparr>"

definition geo_run :: "geo_event list \<Rightarrow> 's lookups \<Rightarrow> 's lookups" where
  "geo_run es r = fold geo_step es r"

section \<open>Permits\<close>

definition holders :: "nat \<Rightarrow> 's lookups \<Rightarrow> nat" where
  "holders b r = length (filter (\<lambda>j. lk_holds j \<and> lk_probe j = b) (lk_jobs r))"

text \<open>The look-ups that have begun their work and not ended.\<close>

definition running :: "nat \<Rightarrow> 's lookups \<Rightarrow> nat" where
  "running b r = length (filter (\<lambda>j. lk_started j \<and> \<not> is_halt (lk_task j) \<and> lk_probe j = b) (lk_jobs r))"

definition geo_inv :: "'s lookups \<Rightarrow> bool" where
  "geo_inv r \<longleftrightarrow>
     (\<forall>j \<in> set (lk_jobs r). lk_probe j < length (lk_free r) \<and> (lk_holds j \<longrightarrow> \<not> is_halt (lk_task j))
        \<and> (lk_started j \<longrightarrow> lk_holds j \<or> is_halt (lk_task j)) \<and> keeping pool_ok (lk_task j)) \<and>
     (\<forall>b < length (lk_free r). lk_free r ! b + holders b r = max_geoip_concurrent)"

lemma length_filter_update:
  assumes "i < length xs"
  shows "length (filter P (xs[i := y])) + (if P (xs ! i) then 1 else 0) =
    length (filter P xs) + (if P y then 1 else 0)"
  using assms
proof (induction xs arbitrary: i)
  case (Cons x xs)
  then show ?case by (cases i) auto
qed simp

text \<open>A look-up that changes, with the number of free permits that goes with it.\<close>

lemma geo_inv_update:
  assumes "geo_inv r" "i < length (lk_jobs r)" "lk_probe j' = lk_probe (lk_jobs r ! i)"
    and "lk_holds j' \<longleftrightarrow> \<not> is_halt (lk_task j')" "keeping pool_ok (lk_task j')"
    and "x + (if lk_holds j' then 1 else 0) =
      lk_free r ! lk_probe (lk_jobs r ! i) + (if lk_holds (lk_jobs r ! i) then 1 else 0)"
  shows "geo_inv (r\<lparr>lk_jobs := (lk_jobs r)[i := j'], lk_free := (lk_free r)[lk_probe (lk_jobs r ! i) := x],
    lk_state := s\<rparr>)"
proof -
  let ?j = "lk_jobs r ! i" and ?js = "(lk_jobs r)[i := j']"
  have b: "lk_probe ?j < length (lk_free r)" using assms(1,2) by (simp add: geo_inv_def)
  have "lk_probe j < length (lk_free r) \<and> (lk_holds j \<longrightarrow> \<not> is_halt (lk_task j))
      \<and> (lk_started j \<longrightarrow> lk_holds j \<or> is_halt (lk_task j)) \<and> keeping pool_ok (lk_task j)"
    if "j \<in> set ?js" for j
    using that set_update_subset_insert [of "lk_jobs r" i j'] assms(1,3,4,5) b
    by (auto simp: geo_inv_def)
  moreover have "(lk_free r)[lk_probe ?j := x] ! c + length (filter (\<lambda>j. lk_holds j \<and> lk_probe j = c) ?js)
      = max_geoip_concurrent" if "c < length (lk_free r)" for c
  proof -
    have "lk_free r ! c + length (filter (\<lambda>j. lk_holds j \<and> lk_probe j = c) (lk_jobs r)) = max_geoip_concurrent"
      using assms(1) that by (auto simp: geo_inv_def holders_def)
    moreover note length_filter_update [OF assms(2), of "\<lambda>j. lk_holds j \<and> lk_probe j = c" j']
    ultimately show ?thesis using assms(3,6) b
      by (auto simp: nth_list_update split: if_splits)
  qed
  ultimately show ?thesis by (auto simp: geo_inv_def holders_def)
qed

lemma keeping_Step: "keeping I (Step f k) \<Longrightarrow> I s \<Longrightarrow> I (f s) \<and> keeping I (k s)"
  by simp

lemma holds_kept:
  "lk_holds j \<Longrightarrow> j\<lparr>lk_holds := True, lk_started := True, lk_task := t\<rparr> = j\<lparr>lk_started := True, lk_task := t\<rparr>"
  by (cases j) simp

text \<open>The contract of the semaphores, and of the pool under the look-ups of every probe.\<close>

interpretation geo_ops: keeps "\<lambda>r. geo_inv r \<and> pool_ok (lk_state r)" geo_step
proof unfold_locales
  fix e and r :: "'a lookups"
  assume inv: "geo_inv r \<and> pool_ok (lk_state r)"
  have jobs: "lk_probe j < length (lk_free r)" "lk_holds j \<Longrightarrow> \<not> is_halt (lk_task j)"
    "lk_started j \<longrightarrow> lk_holds j \<or> is_halt (lk_task j)" "keeping pool_ok (lk_task j)" if "j \<in> set (lk_jobs r)" for j
    using that inv by (auto simp: geo_inv_def)
  have free: "lk_free r ! b + holders b r = max_geoip_concurrent" if "b < length (lk_free r)" for b
    using that inv by (auto simp: geo_inv_def)
  show "geo_inv (geo_step e r) \<and> pool_ok (lk_state (geo_step e r))"
  proof (cases e)
    case NewProbe
    have "holders (length (lk_free r)) r = 0"
      using jobs(1) by (fastforce simp: holders_def filter_empty_conv)
    moreover have "holders b (geo_step e r) = holders b r" for b
      by (simp add: NewProbe holders_def)
    ultimately show ?thesis using inv jobs free NewProbe
      by (auto simp: geo_inv_def nth_append less_Suc_eq)
  next
    case (Spawn b fetch key)
    then show ?thesis using inv jobs free
      by (auto simp: geo_inv_def holders_def keeping_lookup)
  next
    case (Acquire i)
    show ?thesis
    proof (cases "geo_step e r = r")
      case False
      define j where "j = lk_jobs r ! i"
      have i: "i < length (lk_jobs r)" "\<not> lk_holds j" "\<not> is_halt (lk_task j)" "0 < lk_free r ! lk_probe j"
        using False Acquire by (auto simp: j_def split: if_splits)
      have "geo_step e r = r\<lparr>lk_jobs := (lk_jobs r)[i := j\<lparr>lk_holds := True\<rparr>],
          lk_free := (lk_free r)[lk_probe j := lk_free r ! lk_probe j - 1], lk_state := lk_state r\<rparr>"
        using i Acquire by (simp add: j_def Let_def)
      moreover have "geo_inv \<dots>"
        unfolding j_def using inv i jobs(4) [of j]
        by (intro geo_inv_update) (auto simp: j_def)
      ultimately show ?thesis using inv by simp
    qed (use inv in simp)
  next
    case (Advance i)
    show ?thesis
    proof (cases "geo_step e r = r")
      case False
      define j where "j = lk_jobs r ! i"
      have i: "i < length (lk_jobs r)" "lk_holds j"
        using False Advance by (auto simp: j_def split: if_splits)
      from jobs [of j] i obtain f k where fk: "lk_task j = Step f k" "keeping pool_ok (Step f k)"
        by (cases "lk_task j") (auto simp: j_def)
      define j' where "j' = j\<lparr>lk_holds := \<not> is_halt (k (lk_state r)), lk_started := True, lk_task := k (lk_state r)\<rparr>"
      define x where "x = lk_free r ! lk_probe j + (if is_halt (k (lk_state r)) then 1 else 0)"
      have "geo_step e r = r\<lparr>lk_jobs := (lk_jobs r)[i := j'], lk_free := (lk_free r)[lk_probe j := x],
          lk_state := f (lk_state r)\<rparr>"
        using i fk(1) Advance by (simp add: j_def j'_def x_def Let_def holds_kept)
      moreover have "geo_inv \<dots>"
        unfolding j_def using inv i keeping_Step [OF fk(2)]
        by (intro geo_inv_update) (auto simp: j_def j'_def x_def)
      ultimately show ?thesis using keeping_Step [OF fk(2)] inv by simp
    qed (use inv in simp)
  qed
qed

section \<open>How many look-ups run\<close>

definition all_holders :: "'s lookups \<Rightarrow> nat" where
  "all_holders r = length (filter lk_holds (lk_jobs r))"

text \<open>One probe that finds twenty working proxies, each of whose look-ups gets its permit.\<close>

definition burst :: "(ipaddr \<Rightarrow> api_response option) \<Rightarrow> string \<Rightarrow> nat \<Rightarrow> geo_event list" where
  "burst fetch key n =
     NewProbe # replicate max_geoip_concurrent (Spawn n fetch key)
       @ map Acquire [n * max_geoip_concurrent..<n * max_geoip_concurrent + max_geoip_concurrent]"

lemma geo_run_append: "geo_run (es @ es') r = geo_run es' (geo_run es r)"
  by (simp add: geo_run_def)

lemma geo_inv_start: "geo_inv (geo_start st)"
  by (simp add: geo_inv_def geo_start_def)

lemma run_spawns:
  "b < length (lk_free r) \<Longrightarrow> geo_run (replicate n (Spawn b fetch key)) r =
     r\<lparr>lk_jobs := lk_jobs r @ replicate n \<lparr>lk_probe = b, lk_holds = False, lk_started = False, lk_task = lookup_task fetch key\<rparr>\<rparr>"
  by (induction n arbitrary: r) (simp_all add: geo_run_def)

lemma run_acquires:
  assumes "w = \<lparr>lk_probe = length fr, lk_holds = False, lk_started = False, lk_task = t\<rparr>" "\<not> is_halt t"
  shows "geo_run (map Acquire [length js..<length js + n])
      \<lparr>lk_free = fr @ [n], lk_jobs = js @ replicate n w, lk_state = st\<rparr> =
    \<lparr>lk_free = fr @ [0], lk_jobs = js @ replicate n (w\<lparr>lk_holds := True\<rparr>), lk_state = st\<rparr>"
proof (induction n arbitrary: js)
  case (Suc n)
  have "[length js..<length js + Suc n] = length js # [length (js @ [w\<lparr>lk_holds := True\<rparr>])..<length (js @ [w\<lparr>lk_holds := True\<rparr>]) + n]"
    by (simp add: upt_conv_Cons)
  then show ?case
    using Suc [of "js @ [w\<lparr>lk_holds := True\<rparr>]"] assms
    by (simp add: geo_run_def nth_append list_update_append Let_def)
qed (simp add: geo_run_def)

lemma lookup_task_goes_on: "\<not> is_halt (lookup_task fetch key)"
  by (simp add: lookup_task_def)

lemma run_bursts:
  fixes st :: "'s shared_state"
  shows "geo_run (concat (map (burst fetch key) [0..<n])) (geo_start st) =
     \<lparr>lk_free = replicate n 0,
      lk_jobs = concat (map (\<lambda>b. replicate max_geoip_concurrent
        \<lparr>lk_probe = b, lk_holds = True, lk_started = False, lk_task = lookup_task fetch key\<rparr>) [0..<n]),
      lk_state = st\<rparr>"
proof (induction n)
  case (Suc n)
  let ?js = "concat (map (\<lambda>b. replicate max_geoip_concurrent
    \<lparr>lk_probe = b, lk_holds = True, lk_started = False, lk_task = lookup_task fetch key\<rparr>) [0..<n]) :: 's lookup list"
  have len: "length ?js = n * max_geoip_concurrent" by (induction n) simp_all
  let ?r = "\<lparr>lk_free = replicate n 0 @ [max_geoip_concurrent], lk_jobs = ?js, lk_state = st\<rparr>"
  have "geo_run (burst fetch key n) \<lparr>lk_free = replicate n 0, lk_jobs = ?js, lk_state = st\<rparr> =
      geo_run (map Acquire [length ?js..<length ?js + max_geoip_concurrent])
        (geo_run (replicate max_geoip_concurrent (Spawn n fetch key)) ?r)"
    by (simp add: burst_def len geo_run_def)
  also have "\<dots> = \<lparr>lk_free = replicate n 0 @ [0], lk_jobs = ?js @ replicate max_geoip_concurrent
      \<lparr>lk_probe = n, lk_holds = True, lk_started = False, lk_task = lookup_task fetch key\<rparr>, lk_state = st\<rparr>"
    using run_acquires [OF refl lookup_task_goes_on, where fr = "replicate n 0" and js = "?js"]
    by (simp add: run_spawns)
  finally show ?case by (simp add: geo_run_append Suc replicate_append_same)
qed (simp add: geo_run_def geo_start_def)

lemma length_filter_mono:
  "(\<And>x. x \<in> set xs \<Longrightarrow> P x \<Longrightarrow> Q x) \<Longrightarrow> length (filter P xs) \<le> length (filter Q xs)"
  by (induction xs) (auto simp: le_SucI)

lemma running_le: "geo_inv r \<Longrightarrow> running b r \<le> holders b r"
  unfolding running_def holders_def by (rule length_filter_mono) (auto simp: geo_inv_def)

text \<open>
  C28: no probe ever has more than twenty country look-ups at work.  Whatever the order of probes,
  spawns, acquisitions and operations, the look-ups of a probe that have begun and not ended, and
  the permits of its semaphore that are free, are at most twenty together; free and held permits
  are exactly twenty, so that none gets lost; and the pool stays sound.
\<close>

theorem geo_permits_exact:
  assumes "pool_ok st" "r = geo_run es (geo_start st)" "b < length (lk_free r)"
  shows "running b r + lk_free r ! b \<le> 20 \<and> holders b r + lk_free r ! b = 20 \<and> pool_ok (lk_state r)"
proof -
  have r: "geo_inv r \<and> pool_ok (lk_state r)"
    using geo_ops.keeps_fold [of "geo_start st" es] assms(1,2) geo_inv_start [of st]
    by (simp add: geo_run_def geo_start_def)
  then have "lk_free r ! b + holders b r = 20" using assms(3) by (auto simp: geo_inv_def max_geoip_concurrent_def)
  then show ?thesis using r running_le [of r b] by simp
qed

lemma geo_permits_exact_witness:
  "let k = host_port ''1.2.3.4'' 80;
       r = geo_run [NewProbe, Spawn 0 (\<lambda>_. None) k, Acquire 0, Advance 0]
         (geo_start (state_new\<lparr>proxies := tbl_put k (proxy_new ''1.2.3.4'' 80 Http) []\<rparr> :: nat shared_state))
   in running 0 r = 1 \<and> lk_free r ! 0 = 19 \<and> running 0 r + lk_free r ! 0 \<le> 20"
proof -
  let ?k = "host_port ''1.2.3.4'' 80"
  let ?st = "state_new\<lparr>proxies := tbl_put ?k (proxy_new ''1.2.3.4'' 80 Http) []\<rparr> :: nat shared_state"
  let ?es = "[NewProbe, Spawn 0 (\<lambda>_. None) ?k, Acquire 0, Advance 0]"
  have ok: "pool_ok ?st" by (simp add: pool_ok_def) (simp add: state_new_def)
  have ip: "parse_ip ''1.2.3.4'' = Some (V4 16909060)"
    by (simp add: parse_ip_def read_v4_def read_octet_def dot_octet_def read_char_def octet_ok_def
        is_digit_def digits_val_def digit_val_def)
  have h: "host (proxy_new ''1.2.3.4'' 80 Http) = ''1.2.3.4''" by (simp add: proxy_new_def)
  have "running 0 (geo_run ?es (geo_start ?st)) = 1 \<and> lk_free (geo_run ?es (geo_start ?st)) ! 0 = 19
      \<and> length (lk_free (geo_run ?es (geo_start ?st))) = 1"
    using ip by (auto simp: geo_run_def geo_start_def running_def max_geoip_concurrent_def lookup_task_def
        geo_then_def h split: option.split)
  with geo_permits_exact [OF ok refl, of 0 ?es] show ?thesis by (simp add: Let_def)
qed

text \<open>
  The bound of twenty look-ups holds for each probe, not for the gateway: for every number of
  probes there is a run after which all the look-ups of all of them hold a permit at once.
\<close>

theorem geo_bound_is_per_probe:
  "\<exists>es. length (lk_free (geo_run es (geo_start st))) = n \<and>
     all_holders (geo_run es (geo_start st)) = 20 * n"
proof -
  have "all_holders \<lparr>lk_free = fr, lk_jobs = concat (map (\<lambda>b. replicate max_geoip_concurrent
      \<lparr>lk_probe = b, lk_holds = True, lk_started = False, lk_task = lookup_task (\<lambda>_. None) []\<rparr>) [0..<n]), lk_state = st\<rparr> = 20 * n" for fr
    by (induction n) (simp_all add: all_holders_def max_geoip_concurrent_def)
  then show ?thesis
    by (intro exI [of _ "concat (map (burst (\<lambda>_. None) []) [0..<n])"]) (simp add: run_bursts)
qed

section \<open>No look-up is stuck\<close>

definition unfinished :: "'s lookups \<Rightarrow> nat" where
  "unfinished r = length (filter (\<lambda>j. \<not> is_halt (lk_task j)) (lk_jobs r))"

lemma unfinished_update:
  assumes "i < length (lk_jobs r)" "\<not> is_halt (lk_task (lk_jobs r ! i))" "is_halt (lk_task j)"
    and "lk_jobs r' = (lk_jobs r)[i := j]"
  shows "unfinished r' + 1 = unfinished r"
  using length_filter_update [OF assms(1), of "\<lambda>j. \<not> is_halt (lk_task j)" j] assms(2-4)
  by (simp add: unfinished_def)

lemma finish_holding:
  assumes "i < length (lk_jobs r)" "lk_holds (lk_jobs r ! i)" "lk_task (lk_jobs r ! i) = t" "\<not> is_halt t"
  shows "\<exists>n j. lk_jobs (geo_run (replicate n (Advance i)) r) = (lk_jobs r)[i := j] \<and> is_halt (lk_task j)"
  using assms
proof (induction t arbitrary: r)
  case (Step f k)
  let ?t = "k (lk_state r)" and ?j = "lk_jobs r ! i"
  have one: "geo_run (replicate (Suc n) (Advance i)) r = geo_run (replicate n (Advance i)) (geo_step (Advance i) r)" for n
    by (simp add: geo_run_def)
  show ?case
  proof (cases "is_halt ?t")
    case True
    then have "lk_jobs (geo_step (Advance i) r) = (lk_jobs r)[i := ?j\<lparr>lk_holds := False, lk_started := True, lk_task := ?t\<rparr>]"
      using Step.prems by (simp add: Let_def)
    with True one [of 0] show ?thesis
      by (intro exI [of _ "Suc 0"] exI [of _ "?j\<lparr>lk_holds := False, lk_started := True, lk_task := ?t\<rparr>"]) (simp add: geo_run_def)
  next
    case False
    let ?r = "geo_step (Advance i) r"
    have r: "lk_jobs ?r = (lk_jobs r)[i := ?j\<lparr>lk_started := True, lk_task := ?t\<rparr>]"
      using False Step.prems by (simp add: Let_def)
    have "\<exists>n j. lk_jobs (geo_run (replicate n (Advance i)) ?r) = (lk_jobs ?r)[i := j] \<and> is_halt (lk_task j)"
      by (rule Step.IH [OF rangeI [of k "lk_state r"]]) (use r False Step.prems in auto)
    then obtain n j where "lk_jobs (geo_run (replicate n (Advance i)) ?r) = (lk_jobs ?r)[i := j]" "is_halt (lk_task j)"
      by blast
    with one [of n] r show ?thesis by (intro exI [of _ "Suc n"] exI [of _ j]) simp
  qed
qed simp

lemma finish_one:
  assumes "geo_inv r" "0 < unfinished r"
  shows "\<exists>es. unfinished (geo_run es r) + 1 = unfinished r \<and> length (lk_jobs (geo_run es r)) = length (lk_jobs r)"
proof -
  have finish: "\<exists>es. unfinished (geo_run es r) + 1 = unfinished r \<and> length (lk_jobs (geo_run es r)) = length (lk_jobs r)"
    if "i < length (lk_jobs r)" "lk_holds (lk_jobs r ! i)" "\<not> is_halt (lk_task (lk_jobs r ! i))" for i and r :: "'a lookups"
    using finish_holding [OF that(1,2) refl that(3)] unfinished_update [OF that(1,3)]
    by (metis length_list_update)
  obtain i where i: "i < length (lk_jobs r)" "\<not> is_halt (lk_task (lk_jobs r ! i))"
    using assms(2) by (auto simp: unfinished_def filter_empty_conv in_set_conv_nth)
  show ?thesis
  proof (cases "\<exists>h < length (lk_jobs r). lk_holds (lk_jobs r ! h)")
    case True
    then obtain h where h: "h < length (lk_jobs r)" "lk_holds (lk_jobs r ! h)" by blast
    then have "\<not> is_halt (lk_task (lk_jobs r ! h))" using assms(1) nth_mem by (fastforce simp: geo_inv_def)
    with h show ?thesis by (rule finish)
  next
    case False
    let ?j = "lk_jobs r ! i"
    have "holders b r = 0" for b
      using False by (auto simp: holders_def filter_empty_conv in_set_conv_nth)
    then have "lk_free r ! lk_probe ?j = max_geoip_concurrent"
      using assms(1) i(1) by (auto simp: geo_inv_def)
    then have r: "lk_jobs (geo_step (Acquire i) r) = (lk_jobs r)[i := ?j\<lparr>lk_holds := True\<rparr>]"
      using i False by (simp add: Let_def max_geoip_concurrent_def)
    have "unfinished (geo_step (Acquire i) r) = unfinished r"
      using length_filter_update [OF i(1), of "\<lambda>j. \<not> is_halt (lk_task j)" "?j\<lparr>lk_holds := True\<rparr>"] i(2) r
      by (simp add: unfinished_def)
    moreover obtain es where "unfinished (geo_run es (geo_step (Acquire i) r)) + 1 = unfinished (geo_step (Acquire i) r)"
      "length (lk_jobs (geo_run es (geo_step (Acquire i) r))) = length (lk_jobs (geo_step (Acquire i) r))"
      using finish [of i "geo_step (Acquire i) r"] i r by auto
    ultimately show ?thesis using r by (intro exI [of _ "Acquire i # es"]) (simp add: geo_run_def)
  qed
qed

text \<open>
  No look-up is stuck: after any run there is a way on, without a new look-up, in which every
  look-up finishes, and then every permit of every probe is free again.
\<close>

theorem geo_lookups_can_finish:
  assumes "pool_ok st" "r = geo_run es (geo_start st)"
  shows "\<exists>es'. length (lk_jobs (geo_run es' r)) = length (lk_jobs r) \<and> unfinished (geo_run es' r) = 0 \<and>
    (\<forall>b. b < length (lk_free (geo_run es' r)) \<longrightarrow> lk_free (geo_run es' r) ! b = 20)"
proof -
  have inv: "geo_inv (geo_run es' r) \<and> pool_ok (lk_state (geo_run es' r))"
    if "geo_inv r \<and> pool_ok (lk_state r)" for es' and r :: "'a lookups"
    unfolding geo_run_def using that by (rule geo_ops.keeps_fold)
  have r: "geo_inv r \<and> pool_ok (lk_state r)"
    unfolding assms(2) by (rule inv) (simp add: geo_inv_start, simp add: geo_start_def assms(1))
  have "\<exists>es'. length (lk_jobs (geo_run es' r)) = length (lk_jobs r) \<and> unfinished (geo_run es' r) = 0"
    if "geo_inv r \<and> pool_ok (lk_state r)" "unfinished r = n" for n and r :: "'a lookups"
    using that
  proof (induction n arbitrary: r)
    case 0
    then show ?case by (intro exI [of _ "[]"]) (simp add: geo_run_def)
  next
    case (Suc n)
    then obtain es1 where es1: "unfinished (geo_run es1 r) + 1 = unfinished r"
      "length (lk_jobs (geo_run es1 r)) = length (lk_jobs r)" using finish_one [of r] by auto
    with Suc.IH [OF inv [OF Suc.prems(1), of es1]] Suc.prems(2) obtain es2 where
      "length (lk_jobs (geo_run es2 (geo_run es1 r))) = length (lk_jobs r)"
      "unfinished (geo_run es2 (geo_run es1 r)) = 0" by auto
    then show ?case by (intro exI [of _ "es1 @ es2"]) (simp add: geo_run_append)
  qed
  from this [OF r refl] obtain es' where es': "length (lk_jobs (geo_run es' r)) = length (lk_jobs r)"
    "unfinished (geo_run es' r) = 0" by blast
  have fin: "geo_inv (geo_run es' r)" using inv [OF r] by blast
  then have "\<not> lk_holds j" if "j \<in> set (lk_jobs (geo_run es' r))" for j
    using that es'(2) by (auto simp: geo_inv_def unfinished_def filter_empty_conv)
  then have "holders b (geo_run es' r) = 0" for b by (simp add: holders_def filter_empty_conv)
  then show ?thesis
    using fin es' by (intro exI [of _ es']) (auto simp: geo_inv_def max_geoip_concurrent_def)
qed

lemma geo_lookups_can_finish_witness:
  "\<exists>es'. unfinished (geo_run es' (geo_run [NewProbe, Spawn 0 (\<lambda>_. None) ''h:80'']
     (geo_start (state_new :: nat shared_state)))) = 0"
  using geo_lookups_can_finish [of "state_new :: nat shared_state", OF _ refl,
      of "[NewProbe, Spawn 0 (\<lambda>_. None) ''h:80'']"]
  by (auto simp: pool_ok_def state_new_def)

end
