(* ===== verification/Router.thy ===== *)
theory Router
  imports Web Metrics
begin

text \<open>
  \<open>create_router\<close> and \<open>run\<close> of \<open>src/api/web.rs\<close>: which handler answers which request, and on
  which addresses the API listens.  The matching of a path against the patterns of the routes
  (axum) and the decoding of a JSON body (serde) are parameters.
\<close>

section \<open>Routes\<close>

datatype http_method = Get | Head | Post | OtherMethod

datatype endpoint =
  Dashboard | HealthPage | MetricsPage | PrometheusPage | ProxiesPage | AddPage | BanPage | UnbanPage
| NetworkPage | PeersPage | PeerConfigPage | PeerQrPage

text \<open>\<open>get(h)\<close> answers GET and HEAD, \<open>post(h)\<close> answers POST.\<close>

datatype method_router = get_route endpoint | post_route endpoint

fun accepts :: "method_router \<Rightarrow> http_method \<Rightarrow> bool" where
  "accepts (get_route e) m \<longleftrightarrow> m = Get \<or> m = Head"
| "accepts (post_route e) m \<longleftrightarrow> m = Post"

fun endpoint_of :: "method_router \<Rightarrow> endpoint" where
  "endpoint_of (get_route e) = e"
| "endpoint_of (post_route e) = e"

definition create_router :: "(string \<times> method_router) list" where
  "create_router =
     [(''/'', get_route Dashboard),
      (''/health'', get_route HealthPage),
      (''/api/metrics'', get_route MetricsPage),
      (''/metrics'', get_route PrometheusPage),
      (''/api/proxies'', get_route ProxiesPage),
      (''/api/proxy/add'', post_route AddPage),
      (''/api/proxy/ban/{proxy_key}'', post_route BanPage),
      (''/api/proxy/unban/{proxy_key}'', post_route UnbanPage),
      (''/api/network-status'', get_route NetworkPage),
      (''/api/wg/peers'', get_route PeersPage),
      (''/api/wg/peers/{name}/config'', get_route PeerConfigPage),
      (''/api/wg/peers/{name}/qr'', get_route PeerQrPage)]"

section \<open>Answering a request\<close>

text \<open>The JSON body of an added proxy, and what a request may be answered with.\<close>

record add_proxy_request =
  ar_host :: string
  ar_port :: u16
  ar_protocol :: "string option"

datatype response =
  Html string | HealthJson health_response | MetricsJson metrics_response | Plain string
| ProxiesJson "proxy_info list" | ReplyJson api_reply | NetworkJson network_info
| PeersJson "peer_info list" | Download http_response
| NoRoute | MethodNotAllowed | Rejected

text \<open>
  What the handlers see of the outside: the dashboard page compiled into the program, the files
  and directories, the decoder of the network status, and the clock.
\<close>

record web_env =
  w_dashboard :: string
  w_read :: file_reader
  w_exists :: "string \<Rightarrow> bool"
  w_peers_dir :: "(string \<times> bool) list option"
  w_network :: "string \<Rightarrow> network_info option"
  w_now :: clock

definition prometheus_metrics :: "clock \<Rightarrow> 's shared_state \<Rightarrow> string" where
  "prometheus_metrics now st = format_prometheus (collect now st)"

text \<open>
  A handler gets the captured segment of the path and the decoded body; an extractor that fails
  (no segment, no valid body) rejects the request before the handler runs.
\<close>

fun answer ::
  "web_env \<Rightarrow> endpoint \<Rightarrow> string option \<Rightarrow> add_proxy_request option
   \<Rightarrow> 's shared_state \<Rightarrow> response \<times> 's shared_state" where
  "answer env Dashboard seg body st = (Html (w_dashboard env), st)"
| "answer env HealthPage seg body st = (HealthJson (health (w_now env) st), st)"
| "answer env MetricsPage seg body st = (MetricsJson (api_metrics (w_now env) st), st)"
| "answer env PrometheusPage seg body st = (Plain (prometheus_metrics (w_now env) st), st)"
| "answer env ProxiesPage seg body st = (ProxiesJson (list_proxies (w_now env) st), st)"
| "answer env AddPage seg body st =
     (case body of
        None \<Rightarrow> (Rejected, st)
      | Some r \<Rightarrow> map_prod ReplyJson id (add_proxy (ar_host r) (ar_port r) (ar_protocol r) st))"
| "answer env BanPage seg body st =
     (case seg of None \<Rightarrow> (Rejected, st) | Some k \<Rightarrow> map_prod ReplyJson id (ban_proxy k st))"
| "answer env UnbanPage seg body st =
     (case seg of None \<Rightarrow> (Rejected, st) | Some k \<Rightarrow> map_prod ReplyJson id (unban_proxy k st))"
| "answer env NetworkPage seg body st = (NetworkJson (network_status (w_network env) (w_read env)), st)"
| "answer env PeersPage seg body st =
     (PeersJson (list_wg_peers (w_read env) (w_exists env) (w_peers_dir env)), st)"
| "answer env PeerConfigPage seg body st =
     (case seg of None \<Rightarrow> (Rejected, st) | Some n \<Rightarrow> (Download (peer_config (w_read env) n), st))"
| "answer env PeerQrPage seg body st =
     (case seg of None \<Rightarrow> (Rejected, st) | Some n \<Rightarrow> (Download (peer_qr (w_read env) n), st))"

text \<open>\<open>matcher\<close> gives the pattern that a path matches and the decoded segment it captures.\<close>

type_synonym matcher = "string list \<Rightarrow> string \<Rightarrow> (string \<times> string option) option"

definition serve ::
  "matcher \<Rightarrow> web_env \<Rightarrow> http_method \<Rightarrow> string \<Rightarrow> add_proxy_request option
   \<Rightarrow> 's shared_state \<Rightarrow> response \<times> 's shared_state" where
  "serve matcher env m path body st =
     (case matcher (map fst create_router) path of
        None \<Rightarrow> (NoRoute, st)
      | Some (pat, seg) \<Rightarrow>
          (case find (\<lambda>(p, r). p = pat \<and> accepts r m) create_router of
             None \<Rightarrow> (MethodNotAllowed, st)
           | Some (_, r) \<Rightarrow> answer env (endpoint_of r) seg body st))"

section \<open>Listening\<close>

text \<open>
  \<open>run\<close> serves on the loopback address, in a task of its own whose failure to bind is silent,
  and on the configured one, whose failure ends it.  \<open>binds\<close> says which addresses can be bound;
  the result lists the addresses served, and whether \<open>run\<close> goes on.
\<close>

definition api_run :: "(string \<Rightarrow> bool) \<Rightarrow> string \<Rightarrow> u16 \<Rightarrow> string list \<times> bool" where
  "api_run binds addr prt =
     (let local_addr = host_port ''127.0.0.1'' prt; wg_addr = host_port addr prt;
          served = (if binds local_addr then [local_addr] else [])
      in if binds wg_addr then (served @ [wg_addr], True) else (served, False))"

section \<open>What requests may change\<close>

lemma route_endpoint:
  assumes "find (\<lambda>(p, r). p = pat \<and> accepts r m) create_router = Some (p, r)" "m \<noteq> Post"
  shows "endpoint_of r \<notin> {AddPage, BanPage, UnbanPage}"
proof -
  have "(p, r) \<in> set create_router" "accepts r m" using filter_find [OF assms(1)] by auto
  then show ?thesis using assms(2) by (cases r) (auto simp: create_router_def)
qed

lemma serve_cases:
  assumes "serve matcher env m path body st = (resp, st')"
  obtains (none) "st' = st" "\<And>r. resp \<noteq> ReplyJson r"
  | (route) p r seg where "find (\<lambda>(q, r). q = p \<and> accepts r m) create_router = Some (p, r)"
      "answer env (endpoint_of r) seg body st = (resp, st')"
proof (cases "matcher (map fst create_router) path")
  case None
  with assms show thesis by (intro none) (auto simp: serve_def)
next
  case (Some ps)
  obtain p seg where ps: "ps = (p, seg)" by fastforce
  show thesis
  proof (cases "find (\<lambda>(q, r). q = p \<and> accepts r m) create_router")
    case None
    with assms Some ps show thesis by (intro none) (auto simp: serve_def)
  next
    case (Some qr)
    obtain q r where qr: "qr = (q, r)" by fastforce
    have "q = p" using filter_find [OF Some] qr by auto
    then show thesis
      using assms \<open>matcher (map fst create_router) path = Some ps\<close> Some ps qr
      by (intro route [of p r seg]) (simp_all add: serve_def)
  qed
qed

lemma answer_read_only: "e \<notin> {AddPage, BanPage, UnbanPage} \<Longrightarrow> snd (answer env e seg body st) = st"
  by (cases e) (auto split: option.split)

lemma answer_frame: "(snd (answer env e seg body st))\<lparr>proxies := ps, banned := bs\<rparr> = st\<lparr>proxies := ps, banned := bs\<rparr>"
  by (cases e)
    (auto simp: add_proxy_def ban_proxy_def unban_proxy_def Let_def split: option.split list.split)

lemma answer_pool_ok: "pool_ok st \<Longrightarrow> pool_ok (snd (answer env e seg body st))"
proof (cases e)
  case AddPage
  assume "pool_ok st"
  then show ?thesis
    using AddPage api_ops.keeps [of st "ApiAdd (ar_host (the body)) (ar_port (the body)) (ar_protocol (the body))"]
    by (cases body) simp_all
next
  case BanPage
  assume "pool_ok st"
  then show ?thesis using BanPage api_ops.keeps [of st "ApiBan (the seg)"] by (cases seg) simp_all
next
  case UnbanPage
  assume "pool_ok st"
  then show ?thesis using UnbanPage api_ops.keeps [of st "ApiUnban (the seg)"] by (cases seg) simp_all
qed (auto split: option.split)

text \<open>
  C39: reading the API changes nothing.  However paths are matched, a request that is not a POST
  leaves the whole state as it was; a POST changes at most the pool and the list of bans, and
  keeps both sound; a POST that reaches no add, ban or unban handler changes nothing either.
\<close>

theorem api_reads_change_nothing:
  assumes "serve matcher env m path body st = (resp, st')" "pool_ok st"
  shows "(m \<noteq> Post \<longrightarrow> st' = st) \<and> pool_ok st'
    \<and> st'\<lparr>proxies := proxies st, banned := banned st\<rparr> = st
    \<and> ((\<nexists>r. resp = ReplyJson r) \<longrightarrow> st' = st)"
  using assms(1)
proof (cases rule: serve_cases)
  case none
  then show ?thesis using assms(2) by simp
next
  case (route p r seg)
  have st': "st' = snd (answer env (endpoint_of r) seg body st)" using route(2) by simp
  have post: "m \<noteq> Post \<Longrightarrow> st' = st"
    using route_endpoint [OF route(1)] answer_read_only st' by metis
  have reply: "(\<nexists>r. resp = ReplyJson r) \<Longrightarrow> st' = st"
    using route(2) by (cases "endpoint_of r") (auto simp: map_prod_def split: option.splits prod.splits)
  show ?thesis
    using post reply answer_pool_ok [OF assms(2)] answer_frame [where env = env and e = "endpoint_of r" and seg = seg and body = body
        and st = st and ps = "proxies st" and bs = "banned st"]
    by (auto simp: st')
qed

lemma api_reads_change_nothing_witness:
  "snd (serve (\<lambda>ps path. Some (''/health'', None)) undefined Head ''/health'' None (state_new :: nat shared_state))
     = state_new"
  by (rule api_reads_change_nothing [OF prod.collapse [symmetric], THEN conjunct1, THEN mp])
    (simp_all add: pool_ok_def state_new_def)

text \<open>
  Every handler of the API has a route of its own, no pattern is routed twice (axum refuses to
  build a router with overlapping routes), and the ones that change the state are POST only.
\<close>

lemma routes_sound:
  "distinct (map fst create_router) \<and> distinct (map (endpoint_of \<circ> snd) create_router) \<and>
   length create_router = 12 \<and>
   list_all (\<lambda>(p, r). (r = post_route (endpoint_of r)) = (endpoint_of r \<in> {AddPage, BanPage, UnbanPage})) create_router"
  by (simp add: create_router_def)

end
