(* ===== verification/Watcher.thy ===== *)
theory Watcher
  imports Startup
begin

text \<open>
  \<open>start_watching\<close>, \<open>stop_watching\<close> of \<open>src/config.rs\<close> and the reload loop of \<open>src/main.rs\<close>: the
  file watcher reports changes into a channel of a hundred messages, and for every message the
  reload loop reads the file again.  The watcher itself (notify) is outside: which events it
  reports for a change, and whether it can watch the path at all, are inputs.
\<close>

section \<open>The watcher and its channel\<close>

datatype notify_event = Modified | Created | OtherEvent | WatchError

definition channel_size :: nat where "channel_size = 100"

text \<open>
  \<open>wt_events\<close> are the events whose callback has not returned; the callback sends with
  \<open>blocking_send\<close>, so it waits while the channel is full and later events wait behind it.
\<close>

record 's watch =
  wt_file :: "string option"
  wt_watching :: bool
  wt_events :: "notify_event list"
  wt_channel :: nat
  wt_manager :: config_manager
  wt_state :: "'s shared_state"

text \<open>
  The start: the configuration was loaded from the file by \<open>ConfigManager::new\<close> and the state
  built from it.  \<open>watcher_ok\<close> and \<open>watch_ok\<close>: whether the watcher could be created and could
  watch the path.
\<close>

definition start_watching ::
  "(string \<Rightarrow> raw_config option) \<Rightarrow> string \<Rightarrow> bool \<Rightarrow> bool \<Rightarrow> string option \<Rightarrow> 's watch" where
  "start_watching parse path watcher_ok watch_ok file =
     (let m = config_manager_new (\<lambda>_. file, parse) path
      in \<lparr>wt_file = file, wt_watching = (watcher_ok \<and> watch_ok), wt_events = [], wt_channel = 0,
          wt_manager = m, wt_state = new_state (\<lambda>_. False) (config_get m)\<rparr>)"

text \<open>
  What happens: the file gets new contents (\<open>None\<close> when it cannot be read) and the watcher
  reports events; the callback handles the oldest event; the reload loop takes a message; the
  watching stops, and the watcher is dropped with its events.
\<close>

datatype watch_event =
  FileChanged "string option" "notify_event list"
| Callback
| ReloadLoop
| StopWatching

fun watch_step :: "(string \<Rightarrow> raw_config option) \<Rightarrow> watch_event \<Rightarrow> 's watch \<Rightarrow> 's watch" where
  "watch_step parse (FileChanged file evs) w =
     w\<lparr>wt_file := file, wt_events := (if wt_watching w then wt_events w @ evs else wt_events w)\<rparr>"
| "watch_step parse Callback w =
     (case wt_events w of
        [] \<Rightarrow> w
      | e # es \<Rightarrow>
          (if e = Modified \<or> e = Created
           then (if wt_channel w < channel_size
                 then w\<lparr>wt_events := es, wt_channel := wt_channel w + 1\<rparr>
                 else w)
           else w\<lparr>wt_events := es\<rparr>))"
| "watch_step parse ReloadLoop w =
     (if 0 < wt_channel w
      then (case reload_tick (\<lambda>_. wt_file w, parse) (wt_manager w) (wt_state w) of
              (m, st) \<Rightarrow> w\<lparr>wt_channel := wt_channel w - 1, wt_manager := m, wt_state := st\<rparr>)
      else w)"
| "watch_step parse StopWatching w = w\<lparr>wt_watching := False, wt_events := []\<rparr>"

definition watch_run ::
  "(string \<Rightarrow> raw_config option) \<Rightarrow> watch_event list \<Rightarrow> 's watch \<Rightarrow> 's watch" where
  "watch_run parse es w = fold (watch_step parse) es w"

section \<open>What the running gateway follows\<close>

definition announces :: "notify_event \<Rightarrow> bool" where
  "announces e \<longleftrightarrow> e = Modified \<or> e = Created"

text \<open>A watcher that works: every change of the contents is announced, and nobody stops it.\<close>

fun announced :: "watch_event \<Rightarrow> bool" where
  "announced (FileChanged file evs) \<longleftrightarrow> list_ex announces evs"
| "announced StopWatching \<longleftrightarrow> False"
| "announced _ \<longleftrightarrow> True"

text \<open>The parts of the state that a reload sets are those of a configuration.\<close>

definition follows :: "config \<Rightarrow> 's shared_state \<Rightarrow> bool" where
  "follows c st \<longleftrightarrow> ttl_secs (sticky_sessions st) = c_sticky_session_ttl c \<and>
     exclude_countries st = Some (c_exclude_countries c)"

text \<open>Two states that differ at most in these two settings.\<close>

definition same_otherwise :: "'s shared_state \<Rightarrow> 's shared_state \<Rightarrow> bool" where
  "same_otherwise st st' \<longleftrightarrow>
     (\<exists>ttl ex. st' = st\<lparr>sticky_sessions := set_ttl ttl (sticky_sessions st), exclude_countries := ex\<rparr>)"

lemma same_otherwise_apply: "same_otherwise st0 st \<Longrightarrow> same_otherwise st0 (apply_config c st)"
  by (clarsimp simp: same_otherwise_def apply_config_def set_ttl_def) (intro exI, rule refl)

lemma watch_step_state:
  assumes "same_otherwise st0 (wt_state w)" shows "same_otherwise st0 (wt_state (watch_step parse e w))"
  using assms same_otherwise_apply
  by (cases e) (auto simp: reload_tick_def split: list.split prod.split)

lemma watch_run_state: "same_otherwise st0 (wt_state w) \<Longrightarrow> same_otherwise st0 (wt_state (watch_run parse es w))"
  by (induction es arbitrary: w) (simp_all add: watch_run_def watch_step_state del: watch_step.simps)

definition up_to_date :: "(string \<Rightarrow> raw_config option) \<Rightarrow> 's watch \<Rightarrow> bool" where
  "up_to_date parse w \<longleftrightarrow>
     (case load_from_file (\<lambda>_. wt_file w, parse) (cm_watch_path (wt_manager w)) of
        Some c \<Rightarrow> cm_config (wt_manager w) = c
      | None \<Rightarrow> True)"

definition watch_inv :: "(string \<Rightarrow> raw_config option) \<Rightarrow> 's watch \<Rightarrow> bool" where
  "watch_inv parse w \<longleftrightarrow>
     wt_watching w \<and> wt_channel w \<le> channel_size \<and> follows (cm_config (wt_manager w)) (wt_state w)
     \<and> (up_to_date parse w \<or> 0 < wt_channel w \<or> list_ex announces (wt_events w))"

lemma follows_new_state: "follows c (new_state ex c)"
  by (simp add: follows_def new_state_def with_config_def sticky_with_ttl_def Let_def)

lemma follows_apply: "exclude_countries st \<noteq> None \<Longrightarrow> follows c (apply_config c st)"
  by (auto simp: follows_def apply_config_def set_ttl_def)

lemma reload_tick_follows:
  assumes "reload_tick (\<lambda>_. file, parse) m st = (m', st')" "exclude_countries st \<noteq> None"
  shows "follows (cm_config m') st' \<and> cm_watch_path m' = cm_watch_path m \<and>
    (\<forall>c. load_from_file (\<lambda>_. file, parse) (cm_watch_path m) = Some c \<longrightarrow> cm_config m' = c)"
  using assms follows_apply
  by (auto simp: reload_tick_def config_reload_def config_get_def split: option.splits)

interpretation watching: keeps "\<lambda>w. watch_inv parse w" "\<lambda>e w. if announced e then watch_step parse e w else w"
  for parse :: "string \<Rightarrow> raw_config option"
proof unfold_locales
  fix w :: "'a watch" and e
  assume w: "watch_inv parse w"
  show "watch_inv parse (if announced e then watch_step parse e w else w)"
  proof (cases e)
    case (FileChanged content evs)
    then show ?thesis using w by (auto simp: watch_inv_def)
  next
    case Callback
    then show ?thesis using w
      by (auto simp: watch_inv_def up_to_date_def announces_def channel_size_def
          split: list.split option.split)
  next
    case ReloadLoop
    have ex: "exclude_countries (wt_state w) \<noteq> None" using w by (auto simp: watch_inv_def follows_def)
    show ?thesis
    proof (cases "0 < wt_channel w")
      case True
      obtain m' st' where r: "reload_tick (\<lambda>_. wt_file w, parse) (wt_manager w) (wt_state w) = (m', st')"
        by fastforce
      from reload_tick_follows [OF r ex] have f: "follows (cm_config m') st'"
        and p: "cm_watch_path m' = cm_watch_path (wt_manager w)"
        and c: "\<And>c. load_from_file (\<lambda>_. wt_file w, parse) (cm_watch_path (wt_manager w)) = Some c \<Longrightarrow> cm_config m' = c"
        by blast+
      have "watch_step parse ReloadLoop w =
          w\<lparr>wt_channel := wt_channel w - 1, wt_manager := m', wt_state := st'\<rparr>"
        using True r by simp
      moreover have "up_to_date parse (w\<lparr>wt_channel := wt_channel w - 1, wt_manager := m', wt_state := st'\<rparr>)"
        using c by (simp add: up_to_date_def p split: option.split)
      ultimately show ?thesis using w f ReloadLoop
        by (auto simp: watch_inv_def channel_size_def simp del: watch_step.simps)
    qed (use w ReloadLoop in simp)
  qed (use w in simp)
qed

lemma watch_start_inv: "watch_inv parse (start_watching parse path True True file)"
  by (simp add: watch_inv_def start_watching_def Let_def up_to_date_def config_manager_new_def
      load_or_default_def config_get_def follows_new_state split: option.split)

lemma watch_run_inv:
  assumes "list_all announced es" "watch_inv parse w"
  shows "watch_inv parse (watch_run parse es w)"
proof -
  have "watch_run parse es w = fold (\<lambda>e w. if announced e then watch_step parse e w else w) es w"
    using assms(1) by (induction es arbitrary: w) (simp_all add: watch_run_def)
  then show ?thesis using watching.keeps_fold [OF assms(2)] by simp
qed

text \<open>Handling what is outstanding: the callbacks and the reloads, nothing else happening.\<close>

definition outstanding :: "'s watch \<Rightarrow> nat" where
  "outstanding w = 2 * length (wt_events w) + wt_channel w"

fun drain :: "nat \<Rightarrow> (string \<Rightarrow> raw_config option) \<Rightarrow> 's watch \<Rightarrow> 's watch" where
  "drain 0 parse w = w"
| "drain (Suc n) parse w = drain n parse (watch_step parse Callback (watch_step parse ReloadLoop w))"

lemma step_outstanding:
  "wt_channel w \<le> channel_size \<Longrightarrow> 0 < outstanding w \<Longrightarrow>
     outstanding (watch_step parse Callback (watch_step parse ReloadLoop w)) < outstanding w"
  by (auto simp: outstanding_def channel_size_def split: list.split prod.split)

lemma drain_inv: "watch_inv parse w \<Longrightarrow> watch_inv parse (drain n parse w)"
proof (induction n parse w rule: drain.induct)
  case (2 n parse w)
  then show ?case using watch_run_inv [of "[ReloadLoop, Callback]" parse w] by (simp add: watch_run_def)
qed simp

lemma drain_outstanding: "watch_inv parse w \<Longrightarrow> outstanding w \<le> n \<Longrightarrow> outstanding (drain n parse w) = 0"
proof (induction n parse w rule: drain.induct)
  case (2 n parse w)
  let ?w = "watch_step parse Callback (watch_step parse ReloadLoop w)"
  have inv: "watch_inv parse ?w"
    using watch_run_inv [of "[ReloadLoop, Callback]" parse w] 2(2) by (simp add: watch_run_def)
  have "outstanding ?w \<le> n"
  proof (cases "outstanding w = 0")
    case False
    then show ?thesis using step_outstanding [of w parse] 2(2,3) by (simp add: watch_inv_def)
  qed (simp add: outstanding_def)
  from 2(1) [OF inv this] show ?case by simp
qed simp

lemma drain_file: "wt_file (drain n parse w) = wt_file w \<and>
    cm_watch_path (wt_manager (drain n parse w)) = cm_watch_path (wt_manager w)"
proof (induction n parse w rule: drain.induct)
  case (2 n parse w)
  have "wt_file (watch_step parse Callback (watch_step parse ReloadLoop w)) = wt_file w \<and>
      cm_watch_path (wt_manager (watch_step parse Callback (watch_step parse ReloadLoop w))) =
        cm_watch_path (wt_manager w)"
    by (auto simp: reload_tick_def config_reload_def split: list.split option.split)
  with 2 show ?case by simp
qed simp

lemma drain_state: "same_otherwise st0 (wt_state w) \<Longrightarrow> same_otherwise st0 (wt_state (drain n parse w))"
  by (induction n parse w rule: drain.induct) (simp_all add: watch_step_state del: watch_step.simps)

text \<open>
  C29: no change of the configuration file is lost on its way to the reload loop.  When the watch was
  set up at the start and announces every change, whatever the order of changes, callbacks and
  reloads, and however many changes come while the channel is full: once the outstanding callbacks
  and reloads have run, which takes finitely many steps, the copy of the configuration manager is
  what the file holds, if that is a valid configuration, and the lifetime of sessions and the
  excluded countries are those of the file.  Nothing else of the gateway follows it: for all the
  rest of the shared state, the reloads might not have run.
\<close>

theorem reload_catches_up:
  assumes "list_all announced es" "w = watch_run parse es (start_watching parse path True True file0)"
    and "load_from_file (\<lambda>_. wt_file w, parse) (cm_watch_path (wt_manager w)) = Some c"
    and "w' = drain (outstanding w) parse w"
    and "st0 = new_state (\<lambda>_. False) (load_or_default (\<lambda>_. file0, parse) path)"
  shows "cm_config (wt_manager w') = c \<and> ttl_secs (sticky_sessions (wt_state w')) = c_sticky_session_ttl c
    \<and> exclude_countries (wt_state w') = Some (c_exclude_countries c) \<and> wt_channel w \<le> 100
    \<and> wt_state w' = st0\<lparr>sticky_sessions := set_ttl (c_sticky_session_ttl c) (sticky_sessions st0),
        exclude_countries := Some (c_exclude_countries c)\<rparr>"
proof -
  have "wt_state (start_watching parse path True True file0) = st0"
    by (simp add: start_watching_def assms(5) config_manager_new_def config_get_def)
  moreover have "same_otherwise st0 st0"
    unfolding same_otherwise_def set_ttl_def
    by (intro exI [of _ "ttl_secs (sticky_sessions st0)"] exI [of _ "exclude_countries st0"]) simp
  ultimately have "same_otherwise st0 (wt_state (start_watching parse path True True file0))" by simp
  then have st0: "same_otherwise st0 (wt_state w')"
    unfolding assms(2,4) by (intro drain_state watch_run_state)
  have inv: "watch_inv parse w"
    unfolding assms(2) by (rule watch_run_inv [OF assms(1) watch_start_inv])
  have "outstanding w' = 0" "watch_inv parse w'"
    using drain_outstanding [OF inv, of "outstanding w"] drain_inv [OF inv] by (simp_all add: assms(4))
  then have "up_to_date parse w'" "follows (cm_config (wt_manager w')) (wt_state w')"
    by (auto simp: watch_inv_def outstanding_def)
  moreover have "wt_file w' = wt_file w" "cm_watch_path (wt_manager w') = cm_watch_path (wt_manager w)"
    using drain_file [of "outstanding w" parse w] by (simp_all add: assms(4))
  ultimately have "cm_config (wt_manager w') = c" "follows c (wt_state w')"
    using assms(3) by (simp_all add: up_to_date_def)
  then show ?thesis
    using st0 inv by (auto simp: same_otherwise_def follows_def watch_inv_def channel_size_def set_ttl_def)
qed

lemma reload_catches_up_witness:
  "cm_config (wt_manager (drain (outstanding (watch_run (\<lambda>_. Some raw_empty) [FileChanged (Some ''{}'') [Modified]]
       (start_watching (\<lambda>_. Some raw_empty) ''c.json'' True True None :: nat watch)))
     (\<lambda>_. Some raw_empty)
     (watch_run (\<lambda>_. Some raw_empty) [FileChanged (Some ''{}'') [Modified]]
       (start_watching (\<lambda>_. Some raw_empty) ''c.json'' True True None :: nat watch)))) = fill_defaults raw_empty"
  by (rule reload_catches_up [OF _ refl _ refl refl, THEN conjunct1])
    (simp_all add: announces_def watch_run_def load_from_file_def start_watching_def Let_def)

text \<open>
  A path that cannot be watched when the gateway starts, as when the file does not exist yet, is
  never watched: no later change of the file is ever loaded.
\<close>

theorem unwatched_file_is_never_loaded:
  fixes w :: "'s watch"
  assumes "\<not> (watcher_ok \<and> watch_ok)"
    and "w = watch_run parse es (start_watching parse path watcher_ok watch_ok file0)"
  shows "cm_config (wt_manager w) = load_or_default (\<lambda>_. file0, parse) path \<and>
    wt_state w = new_state (\<lambda>_. False) (load_or_default (\<lambda>_. file0, parse) path)"
proof -
  let ?w0 = "start_watching parse path watcher_ok watch_ok file0 :: 's watch"
  have "wt_manager (watch_run parse es w) = wt_manager w \<and> wt_state (watch_run parse es w) = wt_state w"
    if "\<not> wt_watching w" "wt_events w = []" "wt_channel w = 0" for w :: "'s watch"
    using that
  proof (induction es arbitrary: w)
    case (Cons e es)
    have "\<not> wt_watching (watch_step parse e w)" "wt_events (watch_step parse e w) = []"
      "wt_channel (watch_step parse e w) = 0" "wt_manager (watch_step parse e w) = wt_manager w"
      "wt_state (watch_step parse e w) = wt_state w"
      using Cons.prems by (cases e; simp)+
    with Cons.IH [of "watch_step parse e w"] show ?case by (simp add: watch_run_def)
  qed (simp add: watch_run_def)
  moreover have "\<not> wt_watching ?w0" "wt_events ?w0 = []" "wt_channel ?w0 = 0"
    "wt_manager ?w0 = config_manager_new (\<lambda>_. file0, parse) path"
    "wt_state ?w0 = new_state (\<lambda>_. False) (cm_config (config_manager_new (\<lambda>_. file0, parse) path))"
    using assms(1) by (auto simp: start_watching_def Let_def config_get_def)
  ultimately show ?thesis by (simp add: assms(2) config_manager_new_def)
qed

lemma unwatched_file_is_never_loaded_witness:
  "cm_config (wt_manager (watch_run (\<lambda>_. Some raw_empty) [FileChanged (Some ''{}'') [Created], Callback, ReloadLoop]
     (start_watching (\<lambda>_. Some raw_empty) ''c.json'' True False None :: nat watch))) = config_default"
  by (rule unwatched_file_is_never_loaded [OF _ refl, THEN conjunct1, THEN trans])
    (simp_all add: load_or_default_def load_from_file_def)

end
