(* ===== verification/Scans.thy ===== *)
theory Scans
  imports State
begin

text \<open>
  \<open>select_best\<close> of \<open>src/pool/state.rs\<close> while other tasks change the pool.  An iteration over a
  \<open>DashMap\<close> holds the lock of one shard at a time, and the selection iterates up to three times,
  once per tier: the entries it looks at come from many moments.  A scan is given by the states
  in which its shards are read; \<open>shard\<close> is the shard of a key.
\<close>

section \<open>Scans\<close>

definition read_shard :: "(string \<Rightarrow> nat) \<Rightarrow> nat \<times> 's shared_state \<Rightarrow> proxy list" where
  "read_shard shard e = (case e of (i, st) \<Rightarrow> map snd (filter (\<lambda>(k, p). shard k = i) (proxies st)))"

definition scan :: "(string \<Rightarrow> nat) \<Rightarrow> 's shared_state list \<Rightarrow> proxy list" where
  "scan shard sts = concat (map (read_shard shard) (List.enumerate 0 sts))"

definition scan_top :: "clock \<Rightarrow> (proxy \<Rightarrow> bool) \<Rightarrow> proxy list \<Rightarrow> proxy list" where
  "scan_top now P ps = map snd (top_n 10 (map (\<lambda>p. (score now p, p)) (filter P ps)))"

text \<open>
  The excluded countries are read first; \<open>sts1\<close>, \<open>sts2\<close> and \<open>sts3\<close> are the states of the scans
  for verified, presumed and unchecked proxies.
\<close>

definition select_best_scans ::
  "sampler \<Rightarrow> clock \<Rightarrow> string list \<Rightarrow> (string \<Rightarrow> nat) \<Rightarrow> 's shared_state list \<Rightarrow> 's shared_state list
   \<Rightarrow> 's shared_state list \<Rightarrow> proxy option comp" where
  "select_best_scans rng now ex shard sts1 sts2 sts3 =
     (let verified = scan_top now
            (\<lambda>p. is_available now p \<and> status p = Some Verified \<and> \<not> country_excluded ex p) (scan shard sts1);
          presumed = scan_top now
            (\<lambda>p. is_available now p \<and> status p = Some PresumedAlive \<and> \<not> country_excluded ex p) (scan shard sts2)
      in if verified \<noteq> [] then select_some rng now verified
         else if presumed \<noteq> [] then select_some rng now presumed
         else Ret (find (\<lambda>p. status p = Some Unchecked \<or> status p = None)
                    (filter (\<lambda>p. is_available now p \<and> \<not> country_excluded ex p) (scan shard sts3))))"

section \<open>Facts about scans\<close>

lemma scan_in:
  "p \<in> set (scan shard sts) \<longleftrightarrow> (\<exists>i < length sts. \<exists>k. shard k = i \<and> (k, p) \<in> set (proxies (sts ! i)))"
  by (force simp: scan_def read_shard_def in_set_enumerate_eq)

lemma scan_top_in: "p \<in> set (scan_top now P ps) \<Longrightarrow> p \<in> set ps \<and> P p"
  using top_n_sound [of 10 "map (\<lambda>p. (score now p, p)) (filter P ps)"] by (auto simp: scan_top_def)

lemma scan_top_empty: "scan_top now P ps = [] \<longleftrightarrow> (\<forall>p \<in> set ps. \<not> P p)"
  by (auto simp: scan_top_def top_n_empty filter_empty_conv)

text \<open>One scan of a pool at rest visits every entry once, shard by shard.\<close>

lemma read_shards_mset:
  assumes "\<And>e. e \<in> set m \<Longrightarrow> shard (fst e) < n"
  shows "mset (concat (map (\<lambda>i. map snd (filter (\<lambda>(k, p). shard k = i) m)) [0..<n])) = mset (map snd m)"
  using assms
proof (induction m)
  case (Cons e m)
  have one: "concat (map (\<lambda>i. if shard (fst e) = i then [snd e] else []) [0..<n]) = [snd e]"
  proof -
    have "shard (fst e) < n" using Cons.prems by simp
    then show ?thesis
    proof (induction n)
      case (Suc n)
      have "concat (map (\<lambda>i. if shard (fst e) = i then [snd e] else []) [0..<shard (fst e)]) = []" by auto
      then show ?case using Suc by (cases "shard (fst e) = n") auto
    qed simp
  qed
  have split: "mset (concat (map (\<lambda>i. map snd (filter (\<lambda>(k, p). shard k = i) (e # m))) is)) =
      mset (concat (map (\<lambda>i. if shard (fst e) = i then [snd e] else []) is))
      + mset (concat (map (\<lambda>i. map snd (filter (\<lambda>(k, p). shard k = i) m)) is))" for "is"
    by (induction "is") (auto simp: case_prod_beta)
  show ?case using Cons.IH Cons.prems by (subst split) (simp add: one)
qed simp

lemma scan_at_rest:
  assumes "\<And>k. shard k < n"
  shows "mset (scan shard (replicate n st)) = mset (tbl_vals (proxies st))"
proof -
  have "scan shard (replicate n st) =
      concat (map (\<lambda>i. map snd (filter (\<lambda>(k, p). shard k = i) (proxies st))) [0..<n])"
    by (simp add: scan_def enumerate_replicate_eq read_shard_def comp_def)
  then show ?thesis using read_shards_mset [of "proxies st" shard n] assms by (simp add: tbl_vals_def)
qed

section \<open>Properties\<close>

text \<open>
  C13: selecting while the pool changes.  Whatever the other tasks do between any two reads of a
  shard, the selection does not panic, and the proxy it returns stood in the pool at the moment
  its shard was read, was then available and in no excluded country, and was not marked failed.
\<close>

theorem selection_during_changes:
  assumes "sampler_ok rng" "select_best_scans rng now ex shard sts1 sts2 sts3 = r"
  shows "r \<noteq> Panic \<and> (\<forall>p. r = Ret (Some p) \<longrightarrow>
    is_available now p \<and> \<not> country_excluded ex p \<and> status p \<noteq> Some Failed \<and>
    (\<exists>sts \<in> {sts1, sts2, sts3}. \<exists>i < length sts. \<exists>k. shard k = i \<and> (k, p) \<in> set (proxies (sts ! i))))"
proof -
  let ?v = "scan_top now
    (\<lambda>p. is_available now p \<and> status p = Some Verified \<and> \<not> country_excluded ex p) (scan shard sts1)"
  let ?q = "scan_top now
    (\<lambda>p. is_available now p \<and> status p = Some PresumedAlive \<and> \<not> country_excluded ex p) (scan shard sts2)"
  let ?u = "find (\<lambda>p. status p = Some Unchecked \<or> status p = None)
    (filter (\<lambda>p. is_available now p \<and> \<not> country_excluded ex p) (scan shard sts3))"
  consider "?v \<noteq> []" "r = select_some rng now ?v" | "?q \<noteq> []" "r = select_some rng now ?q" | "r = Ret ?u"
    using assms(2) by (auto simp: select_best_scans_def Let_def split: if_splits)
  then show ?thesis
  proof cases
    case 1
    from select_some_total [OF assms(1) 1(1), of now] obtain p where p: "p \<in> set ?v" "r = Ret (Some p)" using 1(2) by auto
    then show ?thesis using scan_top_in [OF p(1)] by (auto simp: scan_in)
  next
    case 2
    from select_some_total [OF assms(1) 2(1), of now] obtain p where p: "p \<in> set ?q" "r = Ret (Some p)" using 2(2) by auto
    then show ?thesis using scan_top_in [OF p(1)] by (auto simp: scan_in)
  next
    case 3
    then show ?thesis by (auto dest!: filter_find simp: scan_in)
  qed
qed

lemma selection_during_changes_witness:
  "select_best_scans (\<lambda>_. None) \<lparr>inst = 0, utc = 0\<rparr> [] length [state_new, state_new]
     [state_new :: nat shared_state] [state_new] \<noteq> Panic"
  by (rule selection_during_changes [OF _ refl, THEN conjunct1]) (simp add: sampler_ok_def)

text \<open>
  At rest, with the entries of the pool in the order of their shards, the three scans of a
  selection see the pool as it is, and it decides as \<open>select_best\<close>.
\<close>

theorem selection_at_rest:
  assumes "scan shard (replicate n st) = tbl_vals (proxies st)"
  shows "select_best_scans rng now (excluded st) shard (replicate n st) (replicate n st) (replicate n st)
    = select_best rng now st"
  by (simp add: select_best_scans_def select_best_def collect_top_n_def scan_top_def scored_def assms Let_def)

lemma selection_at_rest_witness:
  "select_best_scans (\<lambda>_. None) \<lparr>inst = 0, utc = 0\<rparr> (excluded (state_new :: nat shared_state)) (\<lambda>_. 0) (replicate 1 (state_new :: nat shared_state))
     (replicate 1 state_new) (replicate 1 state_new)
   = select_best (\<lambda>_. None) \<lparr>inst = 0, utc = 0\<rparr> (state_new :: nat shared_state)"
  by (rule selection_at_rest) (simp add: scan_def read_shard_def state_new_def tbl_vals_def)

text \<open>
  C14: a selection can miss the only proxy there is.  The pool holds one available proxy, presumed
  alive; a probe verifies it between the scan for verified and the scan for presumed ones.  At
  every moment \<open>select_best\<close> would have returned it, but the selection that is under way finds
  nothing, and its client waits for a signal that may not come.
\<close>

theorem selection_misses_verified_proxy:
  assumes "proxies st = [(key, p)]" "status p = Some PresumedAlive" "is_available now p"
    and "\<not> country_excluded (excluded st) p" "sampler_ok rng" "shard key < n"
    and "st' = state_success key l now st"
  shows "select_best_scans rng now (excluded st) shard (replicate n st) (replicate n st') (replicate n st') = Ret None
    \<and> select_best rng now st = Ret (Some p)
    \<and> select_best rng now st' = Ret (Some (record_success l now p))"
proof -
  let ?p = "record_success l now p"
  have st': "proxies st' = [(key, ?p)]" "excluded st' = excluded st"
    by (simp_all add: assms(1,7) state_success_def tbl_modify_def tbl_get_def tbl_put_def excluded_def)
  have p': "status ?p = Some Verified" "is_available now ?p" "country ?p = country p"
    by (simp_all add: is_available_success)
  then have ex: "\<not> country_excluded (excluded st) ?p" using assms(4) by (simp add: country_excluded_iff)
  have in1: "q \<in> set (scan shard (replicate n st)) \<Longrightarrow> q = p" for q by (auto simp: scan_in assms(1))
  have in2: "q \<in> set (scan shard (replicate n st')) \<Longrightarrow> q = ?p" for q by (auto simp: scan_in st')
  have "scan_top now (\<lambda>p. is_available now p \<and> status p = Some Verified \<and> \<not> country_excluded (excluded st) p)
      (scan shard (replicate n st)) = []"
    unfolding scan_top_empty using in1 assms(2) by fastforce
  moreover have "scan_top now (\<lambda>p. is_available now p \<and> status p = Some PresumedAlive \<and> \<not> country_excluded (excluded st) p)
      (scan shard (replicate n st')) = []"
    unfolding scan_top_empty using in2 p'(1) by fastforce
  moreover have "find (\<lambda>p. status p = Some Unchecked \<or> status p = None)
      (filter (\<lambda>p. is_available now p \<and> \<not> country_excluded (excluded st) p) (scan shard (replicate n st'))) = None"
    using in2 p'(1) by (fastforce simp: find_None_iff)
  ultimately have missed:
    "select_best_scans rng now (excluded st) shard (replicate n st) (replicate n st') (replicate n st') = Ret None"
    by (simp add: select_best_scans_def)
  have one: "select_some rng now [q] = Ret (Some q)" for q
    by (simp add: select_some_def weighted_random_select_def index_proxy_def)
  have top: "top_n 10 [(s, q)] = [(s, q)]" for s :: f64 and q :: proxy
    by (simp add: top_n_def top_step_def)
  have none: "top_n 10 [] = ([] :: (f64 \<times> proxy) list)" by (simp add: top_n_def)
  have "select_best rng now st = Ret (Some p)"
    using assms(1-4) by (simp add: select_best_def collect_top_n_def scored_def tbl_vals_def top none one)
  moreover have "select_best rng now st' = Ret (Some ?p)"
    using p' ex by (simp add: select_best_def collect_top_n_def scored_def tbl_vals_def st' top one)
  ultimately show ?thesis using missed by simp
qed

lemma selection_misses_verified_proxy_witness:
  "select_best_scans (\<lambda>_. None) \<lparr>inst = 0, utc = 0\<rparr> [] (\<lambda>_. 0)
     [state_new\<lparr>proxies := [(''h:80'', mark_presumed_alive (proxy_new ''h'' 80 Http))]\<rparr>]
     [state_success ''h:80'' (Fin 5) \<lparr>inst = 0, utc = 0\<rparr>
       (state_new\<lparr>proxies := [(''h:80'', mark_presumed_alive (proxy_new ''h'' 80 Http))]\<rparr>)]
     [state_success ''h:80'' (Fin 5) \<lparr>inst = 0, utc = 0\<rparr>
       (state_new\<lparr>proxies := [(''h:80'', mark_presumed_alive (proxy_new ''h'' 80 Http))]\<rparr> :: nat shared_state)]
   = Ret None"
  using selection_misses_verified_proxy [of
      "state_new\<lparr>proxies := [(''h:80'', mark_presumed_alive (proxy_new ''h'' 80 Http))]\<rparr> :: nat shared_state"
      "''h:80''" "mark_presumed_alive (proxy_new ''h'' 80 Http)" "\<lparr>inst = 0, utc = 0\<rparr>" "\<lambda>_. None" "\<lambda>_. 0" 1 _ "Fin 5", OF _ _ _ _ _ _ refl]
  by (simp add: mark_presumed_alive_def proxy_new_def is_available_def sampler_ok_def excluded_def state_new_def
      country_excluded_def)

end
