(* ===== verification/EndToEnd.thy ===== *)
theory EndToEnd
  imports Gateway "HOL-Library.Multiset"
begin

text \<open>
  The components together.  First the life of one client: sniffing, selection, dialling,
  handshake and booking, run one after the other on states that any other task may have
  changed in between.  Then the life of one proxy: from the line of a source over the pool
  and the health check to the selection.
\<close>

section \<open>Runs of a handler\<close>

text \<open>
  Every step comes with the shared state it finds; it need not be the one the step before
  has left, since every other task may have run in between.
\<close>

fun run_steps :: "sockaddr \<Rightarrow> (input \<times> gstate) list \<Rightarrow> phase \<Rightarrow> gstate \<Rightarrow> move" where
  "run_steps client [] ph st = Move ph st"
| "run_steps client ((inp, found) # is) ph st =
     (case handler_step inp client ph found of
        Move ph' st' \<Rightarrow> run_steps client is ph' st' | Crash st' \<Rightarrow> Crash st' | Stay \<Rightarrow> Stay)"

lemma run_steps_append:
  "run_steps client (is @ js) ph st =
     (case run_steps client is ph st of
        Move ph' st' \<Rightarrow> run_steps client js ph' st' | Crash st' \<Rightarrow> Crash st' | Stay \<Rightarrow> Stay)"
  by (induction "is" arbitrary: ph st) (auto split: move.split)

section \<open>Tunnels that open\<close>

text \<open>What the gateway says to a proxy to get a tunnel, and a proxy that grants it.\<close>

definition greeting_of :: "protocol \<Rightarrow> string \<Rightarrow> u16 \<Rightarrow> u8 list" where
  "greeting_of proto h p =
     (if proto = Socks5
      then [5, 1, 0] @ [5, 1, 0, 3, of_nat (length h)] @ bytes_of h @ [of_nat (unat p div 256), of_nat (unat p mod 256)]
      else bytes_of (''CONNECT '' @ h @ '':'' @ show_u16 p @ '' HTTP/1.1'' @ crlf
        @ ''Host: '' @ h @ '':'' @ show_u16 p @ crlf @ ''Proxy-Connection: keep-alive'' @ crlf @ crlf))"

definition grants :: "protocol \<Rightarrow> string \<Rightarrow> conn \<Rightarrow> bool" where
  "grants proto h c \<longleftrightarrow> sent c = [] \<and> writes_left c = None \<and>
     (case proto of
        Socks5 \<Rightarrow> length h \<le> 255 \<and> (\<exists>rsv atyp addr rest.
          flat c = [5, 0] @ [5, 0, rsv, atyp] @ addr @ rest \<and> bound_addr atyp addr)
      | _ \<Rightarrow> \<exists>e. find_header_end (take 1024 (flat c)) = Some e \<and> judge_header (take e (flat c)) = Done ())"

lemma sock_read_sent: "sock_read k c = (r, c') \<Longrightarrow> sent c' = sent c"
  by (auto simp: sock_read_def Let_def split: prod.splits option.splits conn_end.splits)

lemma http_loop_sent: "http_loop buf c = (r, c') \<Longrightarrow> sent c' = sent c"
proof (induction buf c arbitrary: r c' rule: http_loop.induct)
  case (1 buf c)
  show ?case
  proof (cases "1024 \<le> length buf")
    case True
    with 1(2) show ?thesis by (simp add: http_loop.simps [of buf c])
  next
    case False
    obtain x d where r: "sock_read (1024 - length buf) c = (x, d)" by fastforce
    note sent = sock_read_sent [OF r]
    show ?thesis
    proof (cases x)
      case (Done bs)
      with 1(2) False r sent 1(1) [OF False, of x d] show ?thesis
        by (auto simp: http_loop.simps [of buf c] split: if_splits option.splits)
    qed (use 1(2) False r sent in \<open>auto simp: http_loop.simps [of buf c]\<close>)
  qed
qed

lemma http_opens:
  assumes "writes_left c = None" "find_header_end (take 1024 (flat c)) = Some e"
    and "judge_header (take e (flat c)) = Done ()"
  shows "\<exists>c'. http_connect_handshake h p c = (Done (), c') \<and> sent c' = sent c @ bytes_of (connect_request h p)"
proof -
  obtain x c' where r: "http_connect_handshake h p c = (x, c')" by fastforce
  with http_handshake_verdict [of c h p] assms have "x = Done ()" by (simp add: http_verdict_def)
  moreover from r have "sent c' = sent c @ bytes_of (connect_request h p)"
    using assms(1) by (auto simp: http_connect_handshake_def net_bind_def sock_write_def dest: http_loop_sent)
  ultimately show ?thesis using r by simp
qed

lemma tunnel_opens:
  assumes "grants proto h c"
  shows "\<exists>c'. handshake proto h p c = (Done (), c') \<and> sent c' = greeting_of proto h p"
proof (cases "proto = Socks5")
  case True
  with assms obtain rsv atyp addr rest where
    g: "flat c = [5, 0] @ [5, 0, rsv, atyp] @ addr @ rest" "bound_addr atyp addr" "length h \<le> 255"
      "writes_left c = None" "sent c = []" by (auto simp: grants_def)
  from socks5_success [OF g(1-4), of p] g(5) True show ?thesis
    by (auto simp: handshake_def greeting_of_def to_be_bytes_def)
next
  case False
  with assms obtain e where "find_header_end (take 1024 (flat c)) = Some e"
    "judge_header (take e (flat c)) = Done ()" "writes_left c = None" "sent c = []"
    by (auto simp: grants_def split: protocol.splits)
  with http_opens [of c e h p] False show ?thesis
    by (auto simp: handshake_def greeting_of_def connect_request_def host_port_def crlf_def split: protocol.splits)
qed

text \<open>The network reaches the proxy in time and the proxy grants the tunnel.\<close>

definition serves_well :: "network \<Rightarrow> string \<Rightarrow> proxy \<Rightarrow> bool" where
  "serves_well dial h p \<longleftrightarrow>
     (case dial (proxy_addr p) of Some (t, Some c) \<Rightarrow> t \<le> 10000 \<and> grants (protocol p) h c | _ \<Rightarrow> False)"

lemma serves_well_connects:
  assumes "serves_well dial h p"
  shows "\<exists>c. connect_to_target dial p h prt = Done c \<and> sent c = greeting_of (protocol p) h prt"
proof -
  from assms obtain t c where d: "dial (proxy_addr p) = Some (t, Some c)" "t \<le> 10000" "grants (protocol p) h c"
    by (auto simp: serves_well_def split: option.splits)
  from tunnel_opens [OF d(3), of prt] d(1,2) show ?thesis
    by (auto simp: connect_to_target_def connect_through_proxy_def tunnel_def)
qed

text \<open>A warm connection on which the proxy grants the tunnel within the ten seconds it has.\<close>

definition warm_serves :: "conn \<Rightarrow> string \<Rightarrow> u16 \<Rightarrow> proxy \<Rightarrow> bool" where
  "warm_serves c h prt p \<longleftrightarrow> grants (protocol p) h c
     \<and> waited (snd (handshake (protocol p) h prt c)) - waited c \<le> 10000"

lemma warm_serves_opens:
  assumes "warm_serves c h prt p"
  shows "\<exists>c'. handshake_on_stream c p h prt = Done c' \<and> sent c' = greeting_of (protocol p) h prt"
proof -
  from assms tunnel_opens [of "protocol p" h c prt] obtain c' where
    "handshake (protocol p) h prt c = (Done (), c')" "sent c' = greeting_of (protocol p) h prt"
    by (auto simp: warm_serves_def)
  with assms show ?thesis by (auto simp: warm_serves_def handshake_on_stream_def tunnel_def)
qed

section \<open>Selections that find\<close>

text \<open>A proxy as the selection wants it for the request: TLS-clean for HTTPS, else verified.\<close>

definition suitable :: "clock \<Rightarrow> request \<Rightarrow> 's shared_state \<Rightarrow> proxy \<Rightarrow> bool" where
  "suitable now rq st p \<longleftrightarrow>
     (if is_https rq then clean_candidate now st p else candidate now st (Some Verified) p)"

lemma select_best_verified:
  assumes "sampler_ok rng" "candidate now st (Some Verified) q"
  shows "\<exists>p. select_best rng now st = Ret (Some p) \<and> candidate now st (Some Verified) p"
proof -
  have "verified_top now st \<noteq> []" using assms(2) verified_top_empty by blast
  moreover from select_some_total [OF assms(1) this] obtain p where
    "p \<in> set (verified_top now st)" "select_some rng now (verified_top now st) = Ret (Some p)" by blast
  ultimately show ?thesis unfolding select_best_eq by (auto dest: verified_top_candidate)
qed

lemma fresh_suitable:
  assumes "sampler_ok rng" "suitable now rq st q"
  shows "\<exists>p. fresh_proxy rng now rq st = Ret (Some p) \<and> suitable now rq st p"
  using select_best_verified [OF assms(1)] select_tls_clean [OF assms(1)] assms(2)
  by (auto simp: fresh_proxy_def suitable_def)

section \<open>Attempts\<close>

text \<open>
  One attempt of a handler: the draw, the clocks and the network of its three steps and the
  shared state each of them finds.
\<close>

record attempt =
  a_rng :: sampler
  a_selected :: clock
  a_pool :: gstate
  a_peek :: "conn \<Rightarrow> recv_outcome"
  a_dial :: network
  a_dialled :: clock
  a_warm :: gstate
  a_done :: clock
  a_found :: gstate

definition attempt_inputs :: "attempt \<Rightarrow> (input \<times> gstate) list" where
  "attempt_inputs a = [(ISelect (a_rng a) (a_selected a), a_pool a),
     (IDial (a_peek a) (a_dial a) (a_dialled a), a_warm a), (IResult (a_done a), a_found a)]"

text \<open>The proxy that attempt \<open>n\<close> chooses and what the connect comes to.\<close>

definition dial_outcome :: "request \<Rightarrow> attempt \<Rightarrow> proxy \<Rightarrow> conn io" where
  "dial_outcome rq a p =
     (case fst (warm_take (a_peek a) (a_dialled a) (proxy_key p) (warm_pool (a_warm a))) of
        Some c \<Rightarrow> handshake_on_stream c p (target_host rq) (target_port rq)
      | None \<Rightarrow> connect_to_target (a_dial a) p (target_host rq) (target_port rq))"

definition attempt_comes_to ::
  "sockaddr \<Rightarrow> nat \<Rightarrow> string option \<Rightarrow> request \<Rightarrow> attempt \<Rightarrow> proxy \<Rightarrow> conn io \<Rightarrow> bool" where
  "attempt_comes_to client n sel rq a p r \<longleftrightarrow>
     choose_proxy (a_rng a) (a_selected a) client n sel rq (a_pool a) = Ret (Some p)
     \<and> dial_outcome rq a p = r"

text \<open>The books after a success: the proxy's average and count, and the client's session.\<close>

definition booked :: "clock \<Rightarrow> nat \<Rightarrow> sockaddr \<Rightarrow> proxy \<Rightarrow> gstate \<Rightarrow> gstate" where
  "booked now start client p st =
     (state_success (proxy_key p) (f_of_nat (elapsed_ms now start)) now st)
       \<lparr>sticky_sessions := set_or_touch now client (proxy_key p) (sticky_sessions st)\<rparr>"

lemma dial_step_outcome:
  "\<exists>st'. dial_step (a_peek a) (a_dial a) (a_dialled a) n rq p (a_warm a) =
     Move (Connecting n rq p (inst (a_dialled a)) (dial_outcome rq a p)) st'"
  by (auto simp: dial_step_def dial_outcome_def split: prod.split option.split)

lemma run_attempt_eq:
  assumes "attempt_comes_to client n sel rq a p r"
  shows "run_steps client (attempt_inputs a) (Selecting n sel rq) st =
     result_step (a_done a) client n rq p (inst (a_dialled a)) r (a_found a)"
  using dial_step_outcome [of a n rq p] assms
  by (auto simp: attempt_inputs_def attempt_comes_to_def select_step_def split: move.split)

lemma run_attempt_fails:
  assumes "attempt_comes_to client n sel rq a p (Failure e)"
  shows "run_steps client (attempt_inputs a) (Selecting n sel rq) st =
     (let st' = state_fail (proxy_key p) (a_done a) (a_found a)
      in if n + 1 < 3 then Move (Selecting (n + 1) None rq) st' else finish st')"
  using run_attempt_eq [OF assms] by (simp add: result_step_def Let_def max_retries_def finish_def)

lemma run_attempt_succeeds:
  assumes "attempt_comes_to client n sel rq a p (Done c)"
  shows "run_steps client (attempt_inputs a) (Selecting n sel rq) st =
     Move (Relaying rq p) (booked (a_done a) (inst (a_dialled a)) client p (a_found a))"
  using run_attempt_eq [OF assms] by (simp add: result_step_def Let_def booked_def state_success_def)

text \<open>Attempt \<open>n\<close> fails; only the first attempt looks at the key of the session.\<close>

definition attempt_fails :: "sockaddr \<Rightarrow> nat \<Rightarrow> string option \<Rightarrow> request \<Rightarrow> attempt \<Rightarrow> bool" where
  "attempt_fails client n sel rq a \<longleftrightarrow> (\<exists>p e. attempt_comes_to client n sel rq a p (Failure e))"

lemma choose_later: "0 < n \<Longrightarrow> choose_proxy rng now client n sel rq st = choose_proxy rng now client n None rq st"
  by (simp add: choose_proxy_def)

lemma failed_attempts:
  assumes "n + length as < 3" "\<forall>i < length as. attempt_fails client (n + i) sel rq (as ! i)"
  shows "\<exists>sel' st'. run_steps client (concat (map attempt_inputs as)) (Selecting n sel rq) st =
      Move (Selecting (n + length as) sel' rq) st' \<and> (n + length as = 0 \<or> as = [] \<or> sel' = None)
      \<and> (as = [] \<longrightarrow> sel' = sel)"
  using assms
proof (induction as arbitrary: n sel st)
  case (Cons a as)
  from Cons.prems(2) obtain p e where a: "attempt_comes_to client n sel rq a p (Failure e)"
    by (fastforce simp: attempt_fails_def)
  have later: "attempt_fails client (n + 1 + i) None rq (as ! i)" if "i < length as" for i
    using Cons.prems(2) that choose_later [of "n + 1 + i" _ _ client sel rq]
    by (fastforce simp: attempt_fails_def attempt_comes_to_def)
  have "n + 1 + length as < 3" using Cons.prems(1) by simp
  from Cons.IH [OF this, of None "state_fail (proxy_key p) (a_done a) (a_found a)"] later
  show ?case using run_attempt_fails [OF a, of st] Cons.prems(1)
    by (auto simp: run_steps_append Let_def)
qed simp

section \<open>The life of a client\<close>

text \<open>What the handler of a new client has after its first bytes.\<close>

lemma new_client_accepted:
  assumes "get_original_dst so = Some (ip, prt)" "sniff (take 4096 bs) = Ret t"
    and "tbl_get (sessions (sticky_sessions st)) client = None"
  shows "handler_step (IRequest cl now so (Some bs)) client Accepted st =
    Move (Selecting 0 None \<lparr>target_host = host_of t ip, target_port = prt\<rparr>)
      (st\<lparr>total_requests := total_requests st + 1, active_connections := active_connections st + 1\<rparr>)"
  using assms by (simp add: accept_request_def Let_def sticky_get_def sticky_choice_def)

text \<open>
  C2: the first attempt of a new client.  When a client without a session connects, and when its
  handler selects, the pool has a proxy fit for the request (verified, available, in no excluded
  country; for port 443 one that leaves certificates alone), and all the proxies fit for it answer
  as their protocol says, on a connection of the warm pool, if there is one, or else on a new one:
  then the selection picks a fit proxy, the tunnel opens, the only bytes that the gateway has sent
  to the proxy are its greeting for the host that the first bytes of the client name and the port
  that they were meant for, the handler goes over to relaying, and the success is booked on the
  proxy and on the session of the client.  How the answers are cut into segments, and what other
  tasks do to the shared state between the steps, does not matter.  The relay itself is left to
  tokio, and nothing is said of its bytes.
\<close>

theorem client_reaches_target:
  assumes "get_original_dst so = Some (ip, prt)" "sniff (take 4096 bs) = Ret t"
    and "tbl_get (sessions (sticky_sessions st)) client = None"
    and "rq = \<lparr>target_host = host_of t ip, target_port = prt\<rparr>"
    and "sampler_ok (a_rng a)" "suitable (a_selected a) rq (a_pool a) q"
    and "\<And>p. suitable (a_selected a) rq (a_pool a) p \<Longrightarrow>
      (case fst (warm_take (a_peek a) (a_dialled a) (proxy_key p) (warm_pool (a_warm a))) of
         Some c \<Rightarrow> warm_serves c (host_of t ip) prt p
       | None \<Rightarrow> serves_well (a_dial a) (host_of t ip) p)"
  shows "\<exists>p c. suitable (a_selected a) rq (a_pool a) p \<and> dial_outcome rq a p = Done c
    \<and> sent c = greeting_of (protocol p) (host_of t ip) prt
    \<and> run_steps client ((IRequest cl now so (Some bs), st) # attempt_inputs a) Accepted st0 =
        Move (Relaying rq p) (booked (a_done a) (inst (a_dialled a)) client p (a_found a))"
proof -
  from fresh_suitable [OF assms(5,6)] obtain p where
    p: "fresh_proxy (a_rng a) (a_selected a) rq (a_pool a) = Ret (Some p)" "suitable (a_selected a) rq (a_pool a) p"
    by blast
  have "\<exists>c. dial_outcome rq a p = Done c \<and> sent c = greeting_of (protocol p) (host_of t ip) prt"
    using assms(7) [OF p(2)] serves_well_connects [of "a_dial a" "host_of t ip" p prt]
      warm_serves_opens [of _ "host_of t ip" prt p]
    by (auto simp: dial_outcome_def assms(4) split: option.splits)
  then obtain c where c: "dial_outcome rq a p = Done c" "sent c = greeting_of (protocol p) (host_of t ip) prt"
    by blast
  have "attempt_comes_to client 0 None rq a p (Done c)"
    using p(1) c(1) by (simp add: attempt_comes_to_def choose_proxy_def)
  from run_attempt_succeeds [OF this] p(2) c show ?thesis
    using new_client_accepted [OF assms(1-3), of cl now] assms(4) by auto
qed

definition http_peer :: conn where
  "http_peer = peer [take 7 response_200, drop 7 response_200] Silent"

lemma http_peer_grants: "grants Http h http_peer"
  by (simp add: grants_def http_peer_def response_200_facts judge_response_200)

text \<open>A pool with one verified proxy, and an attempt that finds it.\<close>

definition demo_attempt :: "network \<Rightarrow> nat \<Rightarrow> attempt" where
  "demo_attempt dial t =
     (let st = state_new\<lparr>proxies := [(''b:80'', demo_proxy ''b'' ''DE'')]\<rparr> in
      \<lparr>a_rng = \<lambda>_. None, a_selected = \<lparr>inst = 0, utc = 0\<rparr>, a_pool = st, a_peek = \<lambda>_. RecvLen 1,
       a_dial = dial, a_dialled = \<lparr>inst = t, utc = 0\<rparr>, a_warm = st, a_done = \<lparr>inst = t, utc = 0\<rparr>,
       a_found = st\<rparr>)"

lemma demo_attempt_simps [simp]:
  "a_rng (demo_attempt d t) = (\<lambda>_. None)" "a_selected (demo_attempt d t) = \<lparr>inst = 0, utc = 0\<rparr>"
  "a_pool (demo_attempt d t) = state_new\<lparr>proxies := [(''b:80'', demo_proxy ''b'' ''DE'')]\<rparr>"
  "a_peek (demo_attempt d t) = (\<lambda>_. RecvLen 1)" "a_dial (demo_attempt d t) = d"
  "a_dialled (demo_attempt d t) = \<lparr>inst = t, utc = 0\<rparr>"
  "a_warm (demo_attempt d t) = state_new\<lparr>proxies := [(''b:80'', demo_proxy ''b'' ''DE'')]\<rparr>"
  "a_done (demo_attempt d t) = \<lparr>inst = t, utc = 0\<rparr>"
  "a_found (demo_attempt d t) = state_new\<lparr>proxies := [(''b:80'', demo_proxy ''b'' ''DE'')]\<rparr>"
  by (simp_all add: demo_attempt_def Let_def)

lemma demo_candidate:
  "candidate now (state_new\<lparr>proxies := [(''b:80'', demo_proxy ''b'' ''DE'')]\<rparr>) s p \<longleftrightarrow>
     p = demo_proxy ''b'' ''DE'' \<and> s = Some Verified"
  by (auto simp: candidate_def tbl_vals_def demo_proxy_def is_available_def proxy_new_def
      country_excluded_def excluded_def state_new_def)

lemma no_warm [simp]: "fst (warm_take pk now key (warm_pool state_new)) = None"
  by (simp add: warm_take_def state_new_def warm_pool_new_def)

lemma client_reaches_target_witness:
  "\<exists>st'. run_steps (V4 7, 1) ((IRequest \<lparr>delta_max = 0, utc_min = 0\<rparr> \<lparr>inst = 0, utc = 0\<rparr>
       (Some ((1, 2, 3, 4), 0, 80)) (Some []), state_new) # attempt_inputs (demo_attempt (\<lambda>_. Some (5, Some http_peer)) 9))
     Accepted state_new =
   Move (Relaying \<lparr>target_host = ''1.2.3.4'', target_port = 80\<rparr> (demo_proxy ''b'' ''DE'')) st'"
proof -
  let ?rq = "\<lparr>target_host = ''1.2.3.4'', target_port = 80\<rparr>" and ?p = "demo_proxy ''b'' ''DE''"
  let ?so = "Some ((1, 2, 3, 4), 0, 80) :: sockopt"
  let ?a = "demo_attempt (\<lambda>_. Some (5, Some http_peer)) 9"
  have fit: "suitable (a_selected ?a) ?rq (a_pool ?a) p \<longleftrightarrow> p = ?p" for p
    by (simp add: suitable_def is_https_def demo_candidate)
  have so: "get_original_dst ?so = Some (16909060, 80)" by (simp add: get_original_dst_def be16_def)
  have h: "host_of Unknown 16909060 = ''1.2.3.4''"
    by (simp add: host_of_def show_v4_def show_ipv4_def show_nat.simps digit_chars)
  have "serves_well (a_dial ?a) ''1.2.3.4'' ?p"
    by (simp add: serves_well_def http_peer_grants demo_proxy_def proxy_new_def)
  then have well: "serves_well (a_dial ?a) (host_of Unknown 16909060) p"
    if "suitable (a_selected ?a) ?rq (a_pool ?a) p" for p
    using that unfolding fit h by simp
  have cold: "fst (warm_take (a_peek ?a) (a_dialled ?a) key (warm_pool (a_warm ?a))) = None" for key
    by simp
  have serves: "case fst (warm_take (a_peek ?a) (a_dialled ?a) (proxy_key p) (warm_pool (a_warm ?a))) of
      Some c \<Rightarrow> warm_serves c (host_of Unknown 16909060) 80 p
    | None \<Rightarrow> serves_well (a_dial ?a) (host_of Unknown 16909060) p"
    if "suitable (a_selected ?a) ?rq (a_pool ?a) p" for p
    using well [OF that] cold by simp
  have sniffs: "sniff (take 4096 []) = Ret Unknown" "sampler_ok (a_rng ?a)"
    by (simp_all add: sniff_def sampler_ok_def)
  have new: "tbl_get (sessions (sticky_sessions (state_new :: gstate))) (V4 7, 1) = None"
    by (simp add: state_new_def sticky_new_def sticky_with_ttl_def)
  have "suitable (a_selected ?a) ?rq (a_pool ?a) ?p" unfolding fit by (rule refl)
  from client_reaches_target [OF so sniffs(1) new _ sniffs(2) this serves, unfolded h fit]
  show ?thesis by auto
qed

text \<open>
  The three steps of attempt \<open>n\<close> and all that they do to the shared state they find: the selection
  of \<open>p\<close> nothing, the dial at most a change of the warm pool, the result what \<open>nxt\<close> says.
\<close>

definition attempt_goes ::
  "sockaddr \<Rightarrow> nat \<Rightarrow> string option \<Rightarrow> request \<Rightarrow> attempt \<Rightarrow> proxy \<Rightarrow> move \<Rightarrow> bool" where
  "attempt_goes client n sel rq a p nxt \<longleftrightarrow>
     handler_step (ISelect (a_rng a) (a_selected a)) client (Selecting n sel rq) (a_pool a) =
       Move (Dialing n rq p) (a_pool a)
     \<and> (\<exists>r wp. handler_step (IDial (a_peek a) (a_dial a) (a_dialled a)) client (Dialing n rq p) (a_warm a) =
           Move (Connecting n rq p (inst (a_dialled a)) r) ((a_warm a)\<lparr>warm_pool := wp\<rparr>)
         \<and> handler_step (IResult (a_done a)) client (Connecting n rq p (inst (a_dialled a)) r) (a_found a) = nxt)"

definition failure_booked :: "nat \<Rightarrow> request \<Rightarrow> attempt \<Rightarrow> proxy \<Rightarrow> move" where
  "failure_booked n rq a p =
     (let st = state_fail (proxy_key p) (a_done a) (a_found a)
      in if n + 1 < 3 then Move (Selecting (n + 1) None rq) st else finish st)"

lemma attempt_steps:
  assumes "attempt_comes_to client n sel rq a p r"
  shows "attempt_goes client n sel rq a p (result_step (a_done a) client n rq p (inst (a_dialled a)) r (a_found a))"
  using assms
  by (auto simp: attempt_goes_def attempt_comes_to_def select_step_def dial_step_def dial_outcome_def
      split: prod.splits option.splits)

lemma failed_attempt_goes:
  "attempt_comes_to client n sel rq a p (Failure e) \<Longrightarrow>
     attempt_goes client n sel rq a p (failure_booked n rq a p)"
  using attempt_steps [of client n sel rq a p "Failure e"]
  by (simp add: failure_booked_def result_step_def Let_def max_retries_def finish_def)

text \<open>
  C3: the three attempts of a client decide everything.  Whatever other tasks do between any two
  steps: each attempt that fails, in whatever way, books its failure once, on the proxy that it
  chose, in the state that it finds, and changes nothing else but the warm pool; after the first
  and the second failure the handler selects again, after the third it counts itself out and
  ends.  When fewer than three have failed and the next one opens its tunnel, the relay begins on
  that proxy, with the success booked on it and on the session of the client.
\<close>

theorem attempts_decide:
  assumes "length ps = length as"
    and "\<forall>i < length as. \<exists>e. attempt_comes_to client i (if i = 0 then sel else None) rq (as ! i) (ps ! i) (Failure e)"
  shows "(\<forall>k < length as. k < 3 \<longrightarrow>
      attempt_goes client k (if k = 0 then sel else None) rq (as ! k) (ps ! k) (failure_booked k rq (as ! k) (ps ! k))
      \<and> run_steps client (concat (map attempt_inputs (take (k + 1) as))) (Selecting 0 sel rq) st =
          failure_booked k rq (as ! k) (ps ! k))
    \<and> (length as < 3 \<and> attempt_comes_to client (length as) (if as = [] then sel else None) rq a p (Done c) \<longrightarrow>
        run_steps client (concat (map attempt_inputs (as @ [a]))) (Selecting 0 sel rq) st =
          Move (Relaying rq p) (booked (a_done a) (inst (a_dialled a)) client p (a_found a)))"
proof -
  have fails: "attempt_fails client i sel rq (as ! i)" if i: "i < length as" for i
  proof -
    from assms(2) i obtain e where
      "attempt_comes_to client i (if i = 0 then sel else None) rq (as ! i) (ps ! i) (Failure e)" by blast
    then have "attempt_comes_to client i sel rq (as ! i) (ps ! i) (Failure e)"
      using choose_later [of i _ _ client sel rq] by (cases "i = 0") (simp_all add: attempt_comes_to_def)
    then show ?thesis by (auto simp: attempt_fails_def)
  qed
  have before: "\<exists>st'. run_steps client (concat (map attempt_inputs (take k as))) (Selecting 0 sel rq) st =
      Move (Selecting k (if k = 0 then sel else None) rq) st'" if k: "k \<le> length as" "k < 3" for k
  proof (cases "k = 0")
    case False
    with k fails failed_attempts [of 0 "take k as" client sel rq st] show ?thesis by fastforce
  qed simp
  have "attempt_goes client k (if k = 0 then sel else None) rq (as ! k) (ps ! k) (failure_booked k rq (as ! k) (ps ! k))
      \<and> run_steps client (concat (map attempt_inputs (take (k + 1) as))) (Selecting 0 sel rq) st =
          failure_booked k rq (as ! k) (ps ! k)" if k: "k < length as" "k < 3" for k
  proof -
    from assms(2) k obtain e where
      e: "attempt_comes_to client k (if k = 0 then sel else None) rq (as ! k) (ps ! k) (Failure e)" by blast
    from before [of k] k obtain st' where
      st': "run_steps client (concat (map attempt_inputs (take k as))) (Selecting 0 sel rq) st =
        Move (Selecting k (if k = 0 then sel else None) rq) st'" by auto
    show ?thesis
      using failed_attempt_goes [OF e] run_attempt_fails [OF e, of st'] st' k
      by (simp add: take_Suc_conv_app_nth run_steps_append failure_booked_def Let_def)
  qed
  moreover have "run_steps client (concat (map attempt_inputs (as @ [a]))) (Selecting 0 sel rq) st =
      Move (Relaying rq p) (booked (a_done a) (inst (a_dialled a)) client p (a_found a))"
    if "length as < 3 \<and> attempt_comes_to client (length as) (if as = [] then sel else None) rq a p (Done c)"
  proof -
    have d: "attempt_comes_to client (length as) (if length as = 0 then sel else None) rq a p (Done c)"
      using that by auto
    from before [of "length as"] that obtain st' where
      "run_steps client (concat (map attempt_inputs as)) (Selecting 0 sel rq) st =
        Move (Selecting (length as) (if length as = 0 then sel else None) rq) st'" by auto
    then show ?thesis using run_attempt_succeeds [OF d, of st'] by (simp add: run_steps_append)
  qed
  ultimately show ?thesis by blast
qed

text \<open>A network on which nothing answers.\<close>

lemma demo_attempt_chooses:
  assumes "get_backup client sticky_new = None"
  shows "choose_proxy (a_rng (demo_attempt d t)) (a_selected (demo_attempt d t)) client n None
    \<lparr>target_host = h, target_port = 80\<rparr> (a_pool (demo_attempt d t)) = Ret (Some (demo_proxy ''b'' ''DE''))"
proof -
  let ?st = "state_new\<lparr>proxies := [(''b:80'', demo_proxy ''b'' ''DE'')]\<rparr> :: gstate"
  have "candidate now ?st (Some Verified) (demo_proxy ''b'' ''DE'')" for now by (simp add: demo_candidate)
  from select_best_verified [OF _ this, of "\<lambda>_. None" "\<lparr>inst = 0, utc = 0\<rparr>"]
  have "select_best (\<lambda>_. None) \<lparr>inst = 0, utc = 0\<rparr> ?st = Ret (Some (demo_proxy ''b'' ''DE''))"
    by (auto simp: sampler_ok_def demo_candidate)
  moreover have "get_backup client (sticky_sessions ?st) = None" using assms by (simp add: state_new_def)
  ultimately show ?thesis by (simp add: choose_proxy_def fresh_proxy_def is_https_def)
qed

lemma attempts_decide_witness:
  "\<exists>st' ph. run_steps (V4 7, 1)
     (concat (map attempt_inputs ([demo_attempt (\<lambda>_. None) 1, demo_attempt (\<lambda>_. None) 2]
        @ [demo_attempt (\<lambda>_. Some (5, Some http_peer)) 3])))
     (Selecting 0 None \<lparr>target_host = ''x.io'', target_port = 80\<rparr>) state_new =
   Move (Relaying \<lparr>target_host = ''x.io'', target_port = 80\<rparr> (demo_proxy ''b'' ''DE'')) st'
   \<and> attempt_goes (V4 7, 1) 1 None \<lparr>target_host = ''x.io'', target_port = 80\<rparr> (demo_attempt (\<lambda>_. None) 2)
       (demo_proxy ''b'' ''DE'') (Move ph (state_fail (proxy_key (demo_proxy ''b'' ''DE'')) \<lparr>inst = 2, utc = 0\<rparr>
         (a_found (demo_attempt (\<lambda>_. None) 2))))"
proof -
  let ?rq = "\<lparr>target_host = ''x.io'', target_port = 80\<rparr>" and ?p = "demo_proxy ''b'' ''DE''"
  let ?bad = "[demo_attempt (\<lambda>_. None) 1, demo_attempt (\<lambda>_. None) 2]"
  let ?good = "demo_attempt (\<lambda>_. Some (5, Some http_peer)) 3"
  have b: "get_backup (V4 7, 1) sticky_new = None"
    by (simp add: get_backup_def sticky_new_def sticky_with_ttl_def)
  have "dial_outcome ?rq (demo_attempt (\<lambda>_. None) t) ?p = Failure ConnectTimedOut" for t
    by (simp add: dial_outcome_def connect_to_target_def connect_through_proxy_def)
  then have bad: "attempt_comes_to (V4 7, 1) n None ?rq (demo_attempt (\<lambda>_. None) t) ?p (Failure ConnectTimedOut)" for n t
    using demo_attempt_chooses [OF b, of "\<lambda>_. None" t n "''x.io''"] by (simp add: attempt_comes_to_def)
  have fails: "\<forall>i < length ?bad. \<exists>e. attempt_comes_to (V4 7, 1) i (if i = 0 then None else None) ?rq (?bad ! i)
      ([?p, ?p] ! i) (Failure e)"
    using bad [of 0 1] bad [of 1 2] by (auto simp: less_Suc_eq)
  have "serves_well (a_dial ?good) ''x.io'' ?p"
    by (simp add: serves_well_def http_peer_grants demo_proxy_def proxy_new_def)
  from serves_well_connects [OF this, of 80] obtain c where
    "dial_outcome ?rq ?good ?p = Done c" by (auto simp: dial_outcome_def)
  then have "attempt_comes_to (V4 7, 1) (length ?bad) (if ?bad = [] then None else None) ?rq ?good ?p (Done c)"
    using demo_attempt_chooses [OF b, of _ 3 2 "''x.io''"] by (simp add: attempt_comes_to_def numeral_2_eq_2)
  moreover note d = attempts_decide [OF _ fails, of state_new ?good ?p c]
  ultimately have "run_steps (V4 7, 1) (concat (map attempt_inputs (?bad @ [?good]))) (Selecting 0 None ?rq) state_new =
      Move (Relaying ?rq ?p) (booked (a_done ?good) (inst (a_dialled ?good)) (V4 7, 1) ?p (a_found ?good))"
    using d by simp
  moreover have "attempt_goes (V4 7, 1) 1 None ?rq (demo_attempt (\<lambda>_. None) 2) ?p
      (failure_booked 1 ?rq (demo_attempt (\<lambda>_. None) 2) ?p)" using d by (auto dest: spec [of _ 1])
  then have "attempt_goes (V4 7, 1) 1 None ?rq (demo_attempt (\<lambda>_. None) 2) ?p
      (Move (Selecting 2 None ?rq) (state_fail (proxy_key ?p) (a_done (demo_attempt (\<lambda>_. None) 2)) (a_found (demo_attempt (\<lambda>_. None) 2))))"
    by (simp only: failure_booked_def Let_def) (simp add: numeral_2_eq_2)
  ultimately show ?thesis by (intro exI conjI) (assumption, simp add: demo_attempt_def Let_def)
qed

section \<open>The life of a proxy\<close>

lemma first_rank_in_batch:
  assumes "q \<in> set (tbl_vals (proxies st))" "status q = Some Unchecked"
    and "length (filter (\<lambda>p. check_rank p = 0) (tbl_vals (proxies st))) \<le> limit"
  shows "q \<in> set (proxies_needing_check now limit st)"
proof (rule ccontr)
  let ?ps = "tbl_vals (proxies st)"
  define xs where "xs = sort_key check_rank (filter (needs_check now) ?ps)"
  have r: "proxies_needing_check now limit st = take limit xs"
    by (simp add: proxies_needing_check_def xs_def)
  assume n: "q \<notin> set (proxies_needing_check now limit st)"
  have q: "needs_check now q" "check_rank q = 0" using assms(2) by (simp_all add: needs_check_def check_rank_def)
  with assms(1) have "q \<in> set xs" by (simp add: xs_def)
  then have "q \<in> set (take limit xs) \<union> set (drop limit xs)" by (metis append_take_drop_id set_append)
  with n have d: "q \<in> set (drop limit xs)" unfolding r by blast
  then have "limit < length xs" by (metis drop_all empty_iff list.set(1) not_le)
  have "sorted (map check_rank (take limit xs) @ map check_rank (drop limit xs))"
    by (metis xs_def sorted_sort_key map_append append_take_drop_id)
  with d q(2) have t: "\<forall>p \<in> set (take limit xs). check_rank p = 0" by (fastforce simp: sorted_append)
  have "filter (\<lambda>p. check_rank p = 0) xs =
      filter (\<lambda>p. check_rank p = 0) (take limit xs) @ filter (\<lambda>p. check_rank p = 0) (drop limit xs)"
    by (metis append_take_drop_id filter_append)
  moreover have "filter (\<lambda>p. check_rank p = 0) (drop limit xs) \<noteq> []"
    using d q(2) by (auto simp: filter_empty_conv)
  ultimately have "limit < length (filter (\<lambda>p. check_rank p = 0) xs)"
    using t \<open>limit < length xs\<close> by simp
  moreover have "mset (filter (\<lambda>p. check_rank p = 0) xs) \<subseteq># mset (filter (\<lambda>p. check_rank p = 0) ?ps)"
    by (simp add: xs_def multiset_filter_mono)
  then have "length (filter (\<lambda>p. check_rank p = 0) xs) \<le> length (filter (\<lambda>p. check_rank p = 0) ?ps)"
    by (metis size_mset size_mset_mono)
  ultimately show False using assms(3) by simp
qed

lemma well_keyed_map: "well_keyed m \<Longrightarrow> map proxy_key (tbl_vals m) = map fst m"
  by (auto simp: well_keyed_def tbl_vals_def)

lemma batch_keys_distinct:
  assumes "well_keyed (proxies st)" shows "distinct (map proxy_key (proxies_needing_check now limit st))"
proof -
  have "distinct (map proxy_key (tbl_vals (proxies st)))"
    using assms well_keyed_map [OF assms] by (simp add: well_keyed_def keys_ok_def)
  then have "distinct (map proxy_key (filter (needs_check now) (tbl_vals (proxies st))))"
    by (rule distinct_map_filter)
  then have "distinct (map proxy_key (sort_key check_rank (filter (needs_check now) (tbl_vals (proxies st)))))"
    by (metis distinct_map distinct_sort set_sort)
  then show ?thesis by (simp add: proxies_needing_check_def take_map [symmetric])
qed

lemma probe_result_other:
  assumes "fst (fst r) \<noteq> k"
  shows "tbl_get (proxies (snd (snd (probe_result r acc)))) k = tbl_get (proxies (snd (snd acc))) k"
proof -
  obtain f g st where acc: "acc = (f, g, st)" by (metis surj_pair)
  have "proxies (snd (snd (probe_ok key l b now (f, g, st)))) =
      proxies (set_tls_clean key b (state_success key l now st))" for key l b now
    by (metis prod.collapse probe_ok_frame)
  with assms show ?thesis
    by (auto simp: acc probe_result_def set_tls_clean_def state_success_def state_fail_def
        split: prod.split check_result.split)
qed

lemma probe_others:
  "k \<notin> fst ` fst ` set rs \<Longrightarrow>
     tbl_get (proxies (snd (snd (fold probe_result rs acc)))) k = tbl_get (proxies (snd (snd acc))) k"
  by (induction rs arbitrary: acc) (auto simp: probe_result_other)

text \<open>One good outcome for a key in a probe whose outcomes have distinct keys.\<close>

lemma probe_verifies:
  assumes "((k, CheckOk l), now) \<in> set rs" "distinct (map (fst \<circ> fst) rs)"
    and "tbl_get (proxies (snd (snd acc))) k = Some p"
  shows "tbl_get (proxies (snd (snd (fold probe_result rs acc)))) k =
    Some ((Proxy.record_success l now p)\<lparr>tls_clean := Some True\<rparr>)"
proof -
  from split_list [OF assms(1)] obtain pre post where rs: "rs = pre @ ((k, CheckOk l), now) # post" by blast
  with assms(2) have k: "k \<notin> fst ` fst ` set pre" "k \<notin> fst ` fst ` set post" by (auto simp: image_image)
  obtain f g st where acc: "fold probe_result pre acc = (f, g, st)" by (metis surj_pair)
  with probe_others [OF k(1), of acc] assms(3) have p: "tbl_get (proxies st) k = Some p" by simp
  have "proxies (snd (snd (probe_ok k l True now (f, g, st)))) =
      proxies (set_tls_clean k True (state_success k l now st))" by (metis prod.collapse probe_ok_frame)
  with probe_others [OF k(2), of "probe_ok k l True now (f, g, st)"] acc p show ?thesis
    by (simp add: rs probe_result_def set_tls_clean_def state_success_def)
qed

section \<open>What a refresh brings\<close>

text \<open>
  A source lists a line: the first of its three requests that does not fail answers with a body that
  has the line among its first 500.
\<close>

definition source_lists :: "web \<Rightarrow> string \<Rightarrow> string \<Rightarrow> bool" where
  "source_lists w url l \<longleftrightarrow>
     (\<exists>i txt. i < 3 \<and> (\<forall>j < i. w url j = SendError) \<and> w url i = Body txt
        \<and> l \<in> set (take max_per_source (rust_lines txt)))"

lemma in_take_map_filter:
  "x \<in> set (take n xs) \<Longrightarrow> f x = Some y \<Longrightarrow> y \<in> set (take n (List.map_filter f xs))"
proof (induction xs arbitrary: n)
  case (Cons a xs)
  obtain m where n: "n = Suc m" using Cons.prems(1) by (cases n) auto
  show ?case
  proof (cases "x = a")
    case False
    with Cons.prems n have "y \<in> set (take m (List.map_filter f xs))" using Cons.IH by simp
    moreover have "set (take m ys) \<subseteq> set (take (Suc m) ys)" for ys :: "'b list"
      by (rule set_take_subset_set_take) simp
    ultimately show ?thesis by (cases "f a") (auto simp: List.map_filter_simps n)
  qed (use Cons.prems n in \<open>simp add: List.map_filter_simps\<close>)
qed simp

lemma listed_fetched:
  assumes "source_lists w url (host_port h prt)" "parse_ipv4 h \<noteq> None"
  shows "proxy_new h prt proto \<in> set (take max_per_source (fetch_source w url proto))"
proof -
  from assms(1) obtain i body where i: "i < 3" "\<forall>j < i. w url j = SendError" "w url i = Body body"
    "host_port h prt \<in> set (take max_per_source (rust_lines body))" by (auto simp: source_lists_def)
  then have "body \<noteq> []" by (auto simp: rust_lines_def)
  with i have "fetch_source w url proto = parse_body body proto"
    using fetch_from_body [of i 0 "w url" body proto] by (simp add: fetch_source_def)
  then show ?thesis
    using in_take_map_filter [OF i(4), of "\<lambda>l. parse_line l proto"] parse_line_host_port [OF assms(2)]
    by (simp add: parse_body_def)
qed

text \<open>Inserting proxies one after the other, as long as the limit is not reached.\<close>

lemma fold_insert_grows:
  "keys_ok (proxies st) \<Longrightarrow> total_count st \<le> total_count (fold (\<lambda>p st. snd (insert_if_absent p st)) ps st)"
proof (induction ps arbitrary: st)
  case (Cons p ps)
  have "keys_ok (proxies (snd (insert_if_absent p st)))" "total_count st \<le> total_count (snd (insert_if_absent p st))"
    using Cons.prems by (auto simp: insert_if_absent_def total_count_def tbl_len_put)
  with Cons.IH [of "snd (insert_if_absent p st)"] show ?case by simp
qed simp

lemma fold_insert_finds:
  assumes "keys_ok (proxies st)" "p \<in> set ps" "proxy_key p = k" "tbl_get (proxies st) k = None"
    and "max_proxies st = 0 \<or> total_count (fold (\<lambda>p st. snd (insert_if_absent p st)) ps st) < max_proxies st"
  shows "\<exists>q \<in> set ps. proxy_key q = k \<and>
    tbl_get (proxies (fold (\<lambda>p st. snd (insert_if_absent p st)) ps st)) k = Some q"
  using assms
proof (induction ps arbitrary: st)
  case (Cons a ps)
  let ?st = "snd (insert_if_absent a st)"
  have k: "keys_ok (proxies ?st)" "max_proxies ?st = max_proxies st"
    using Cons.prems(1) by (auto simp: insert_if_absent_def)
  have room: "max_proxies st = 0 \<or> total_count st < max_proxies st"
    using Cons.prems(5) fold_insert_grows [OF Cons.prems(1), of "a # ps"] by auto
  show ?case
  proof (cases "proxy_key a = k")
    case True
    then have "tbl_get (proxies ?st) k = Some a"
      using room Cons.prems(4) by (auto simp: insert_if_absent_def tbl_has_def total_count_def)
    from fold_insert_keeps [OF this, of ps] True show ?thesis by auto
  next
    case False
    then have "tbl_get (proxies ?st) k = None" "p \<in> set ps"
      using Cons.prems(2,3,4) by (auto simp: insert_if_absent_def)
    with Cons.IH [OF k(1) _ Cons.prems(3)] Cons.prems(5) k(2) show ?thesis by auto
  qed
qed simp

lemma fetched_is_new:
  "p \<in> set (fetch_source w url proto) \<Longrightarrow> \<exists>h prt. p = proxy_new h prt proto \<and> parse_ipv4 h \<noteq> None"
proof -
  have lines: "\<exists>h prt. p = proxy_new h prt proto \<and> parse_ipv4 h \<noteq> None"
    if "p \<in> set (parse_body body proto)" for p body proto
  proof -
    from that obtain l where "parse_line l proto = Some p" by (auto simp: parse_body_def List.map_filter_def)
    then show ?thesis by (rule parse_line_sound)
  qed
  have "\<forall>p \<in> set (fst (fetch_from n answers proto)). \<exists>h prt. p = proxy_new h prt proto \<and> parse_ipv4 h \<noteq> None"
    for n answers
  proof (induction n answers proto rule: fetch_from.induct)
    case (1 n answers proto)
    then show ?case
      using lines [of _ _ proto] by (subst fetch_from.simps) (auto split: fetch_result.split)
  qed
  then show "p \<in> set (fetch_source w url proto) \<Longrightarrow> ?thesis" by (simp add: fetch_source_def)
qed

lemma refresh_brings:
  fixes st :: gstate
  assumes "full_refresh parse content w arrival now st = (n, st1)" "keys_ok (proxies st)" "arrival_ok arrival"
    and "url \<in> set (load_sources parse content)" "source_lists w url (host_port h prt)" "parse_ipv4 h \<noteq> None"
    and "tbl_get (proxies st) (host_port h prt) = None"
    and "max_proxies st = 0 \<or> total_count st + n < max_proxies st"
  shows "\<exists>proto. tbl_get (proxies st1) (host_port h prt) = Some (proxy_new h prt proto)"
    and "keys_ok (proxies st1)" "pool_ok st \<Longrightarrow> pool_ok st1" "banned st1 = banned st"
    and "exclude_countries st1 = exclude_countries st"
proof -
  let ?k = "host_port h prt" and ?F = "\<lambda>ps st. fold (\<lambda>p st. snd (insert_if_absent p st)) ps st"
  define fetched where
    "fetched = map (\<lambda>url. fetch_source w url (guess_protocol url)) (load_sources parse content)"
  define ps where "ps = concat (map (take max_per_source) (arrival fetched))"
  obtain m st' where f: "fold (take_batch max_per_source) (arrival fetched) (0, st) = (m, st')" by fastforce
  with assms(1) have st1: "n = m" "st1 = cleanup_stale now st'"
    by (simp_all add: full_refresh_def Let_def fetched_def)
  have st': "st' = ?F ps st"
    using batches_snd [of max_per_source "arrival fetched" "(0, st)"] f by (simp add: ps_def)
  have "growth st (0, st)" using assms(2) by (simp add: growth_def)
  from batches.keeps_fold [OF this, of max_per_source "arrival fetched"] f st1(1)
  have g: "keys_ok (proxies st')" "total_count st' = total_count st + n" by (simp_all add: growth_def)
  have sa: "set (arrival fetched) = set fetched" using assms(3) by (metis arrival_ok_def mset_eq_setD)
  have "proxy_new h prt (guess_protocol url) \<in> set ps"
    using listed_fetched [OF assms(5,6)] assms(4) sa by (auto simp: ps_def fetched_def)
  from fold_insert_finds [OF assms(2) this _ assms(7)] assms(8) g(2) st' obtain q where
    q: "q \<in> set ps" "proxy_key q = ?k" "tbl_get (proxies st') ?k = Some q" by auto
  from q(1) sa have "\<exists>u proto. q \<in> set (fetch_source w u proto)"
    by (auto simp: ps_def fetched_def dest!: in_set_takeD)
  then obtain h' p' proto where n: "q = proxy_new h' p' proto" "parse_ipv4 h' \<noteq> None"
    using fetched_is_new by blast
  then have "host_port h' p' = ?k" using q(2) by simp
  then have "proxy_new h' p' proto = proxy_new h prt proto"
    using parse_line_host_port [OF n(2), of p' proto] parse_line_host_port [OF assms(6), of prt proto] by simp
  with q(3) n(1) g(1) have "tbl_get (proxies st1) ?k = Some (proxy_new h prt proto)"
    unfolding st1(2) cleanup_stale_def by (simp add: tbl_get_retain not_stale_def proxy_new_def)
  then show "\<exists>proto. tbl_get (proxies st1) ?k = Some (proxy_new h prt proto)" by blast
  show "keys_ok (proxies st1)" using g(1) by (simp add: st1(2) cleanup_stale_def)
  have "act_ok (Refresh parse content w arrival now)" using assms(3) by simp
  then show "pool_ok st1" if "pool_ok st" using act_pool_ok that assms(1) by fastforce
  have "banned st' = banned st \<and> exclude_countries st' = exclude_countries st"
    unfolding st' by (induction ps arbitrary: st) (auto simp: insert_if_absent_def)
  then show "banned st1 = banned st" "exclude_countries st1 = exclude_countries st"
    by (simp_all add: st1(2) cleanup_stale_def)
qed

text \<open>
  C4: a listed address comes to serve.  One of the sources lists an address, as one of the first 500
  lines of its answer, that the pool does not have; whatever the other sources answer and in
  whatever order they do, if the refresh ends before the pool is full, it has put the address in,
  unchecked.  Then the next batch of the health checker holds it, provided that no more proxies
  wait for their first check than the batch takes.  When its check passes all three stages,
  whatever the other checks come to and in whatever order they complete, it is verified,
  leaves certificates alone and has one success, and is fit for every request.  From then on a
  selection for any request finds a fit proxy, and this one if it is the only fit one.
\<close>

theorem listed_proxy_serves:
  assumes "full_refresh parse content w arrival now st = (n, st1)" "pool_ok st" "arrival_ok arrival"
    and "url \<in> set (load_sources parse content)" "source_lists w url (host_port h prt)" "parse_ipv4 h \<noteq> None"
    and "tbl_get (proxies st) (host_port h prt) = None"
    and "max_proxies st = 0 \<or> total_count st + n < max_proxies st"
    and "length (filter (\<lambda>p. check_rank p = 0) (tbl_vals (proxies st1))) \<le> limit"
    and "\<And>p. fst (check p) = proxy_key p" "\<And>p. proxy_key p = host_port h prt \<Longrightarrow> snd (check p) = CheckOk l"
    and "\<And>rs. mset (map fst (arrive rs)) = mset rs"
    and "health_tick limit check arrive later st1 = (found, geo, st2)"
  shows "\<exists>proto p. tbl_get (proxies st1) (host_port h prt) = Some (proxy_new h prt proto)
    \<and> proxy_new h prt proto \<in> set (proxies_needing_check later limit st1)
    \<and> tbl_get (proxies st2) (host_port h prt) = Some p \<and> status p = Some Verified
    \<and> tls_clean p = Some True \<and> success_count p = 1 \<and> (\<forall>t rq. suitable t rq st2 p)
    \<and> (\<forall>rng t rq. sampler_ok rng \<longrightarrow>
        (\<exists>q. fresh_proxy rng t rq st2 = Ret (Some q) \<and> suitable t rq st2 q
          \<and> ((\<forall>q. suitable t rq st2 q \<longrightarrow> q = p) \<longrightarrow> q = p)))"
proof -
  let ?k = "host_port h prt"
  have "keys_ok (proxies st)" using assms(2) by (simp add: pool_ok_def well_keyed_def)
  note r = refresh_brings [OF assms(1) this assms(3-8)]
  from r(1) obtain proto where p: "tbl_get (proxies st1) ?k = Some (proxy_new h prt proto)" by blast
  let ?p = "proxy_new h prt proto"
  define batch where "batch = proxies_needing_check later limit st1"
  have "?p \<in> set (tbl_vals (proxies st1))" using p by (auto simp: in_tbl_vals dest: tbl_get_in_set)
  then have b: "?p \<in> set batch"
    unfolding batch_def by (rule first_rank_in_batch) (use assms(9) in \<open>simp_all add: proxy_new_def\<close>)
  define rs where "rs = arrive (map check batch)"
  have m: "mset (map fst rs) = mset (map check batch)" unfolding rs_def by (rule assms(12))
  have "mset (map (fst \<circ> fst) rs) = mset (map proxy_key batch)"
    using arg_cong [OF m, of "image_mset fst"] assms(10) by (simp add: multiset.map_comp comp_def)
  moreover have "distinct (map proxy_key batch)"
    unfolding batch_def by (rule batch_keys_distinct) (use r(3) assms(2) pool_ok_def in blast)
  ultimately have d: "distinct (map (fst \<circ> fst) rs)" by (metis mset_eq_imp_distinct_iff)
  have "check ?p = (?k, CheckOk l)" using assms(10,11) [of ?p] by (metis prod.collapse proxy_key_new)
  with b m have "(?k, CheckOk l) \<in> set (map fst rs)" by (metis image_eqI list.set_map mset_eq_setD)
  then obtain t where t: "((?k, CheckOk l), t) \<in> set rs" by auto
  have "fold probe_result rs (0, [], st1) = (found, geo, st2)"
    using assms(13) b by (auto simp: health_tick_def fast_probe_def Let_def rs_def batch_def split: if_splits)
  with probe_verifies [OF t d, of "(0, [], st1)" ?p] p
  have q: "tbl_get (proxies st2) ?k = Some ((Proxy.record_success l t ?p)\<lparr>tls_clean := Some True\<rparr>)" by simp
  moreover from q have "(Proxy.record_success l t ?p)\<lparr>tls_clean := Some True\<rparr> \<in> set (tbl_vals (proxies st2))"
    by (auto simp: in_tbl_vals dest: tbl_get_in_set)
  ultimately obtain v where v: "tbl_get (proxies st2) ?k = Some v" "status v = Some Verified"
    "tls_clean v = Some True" "success_count v = 1" "\<forall>t rq. suitable t rq st2 v"
    by (auto simp: suitable_def clean_candidate_def candidate_def proxy_new_def country_excluded_iff
        is_available_def record_success_def Let_def track_uptime_def)
  then have "\<exists>q. fresh_proxy rng t rq st2 = Ret (Some q) \<and> suitable t rq st2 q
      \<and> ((\<forall>q. suitable t rq st2 q \<longrightarrow> q = v) \<longrightarrow> q = v)" if "sampler_ok rng" for rng t rq
    using fresh_suitable [OF that, of t rq st2 v] by blast
  with p b v show ?thesis unfolding batch_def by blast
qed

text \<open>What a refresh adds is at most what the sources list.\<close>

lemma counted_length: "fst (fold insert_counted ps acc) \<le> fst acc + length ps"
proof (induction ps arbitrary: acc)
  case (Cons p ps)
  from Cons [of "insert_counted p acc"] insert_counted_le [of p acc] show ?case by simp
qed simp

lemma batches_length: "fst (fold (take_batch m) bs acc) \<le> fst acc + sum_list (map length bs)"
proof (induction bs arbitrary: acc)
  case (Cons b bs)
  have "fst (take_batch m b acc) \<le> fst acc + length b"
    using counted_length [of "take m b" acc] by (simp add: take_batch_def)
  with Cons [of "take_batch m b acc"] show ?case by simp
qed simp

lemma refresh_counts:
  assumes "full_refresh parse content w arrival now st = (n, st1)" "keys_ok (proxies st)"
    and "fetched = arrival (map (\<lambda>url. fetch_source w url (guess_protocol url)) (load_sources parse content))"
  shows "n \<le> sum_list (map length fetched)" "total_count st1 \<le> total_count st + n"
proof -
  obtain m st' where f: "fold (take_batch max_per_source) fetched (0, st) = (m, st')" by fastforce
  with assms(1,3) have st1: "n = m" "st1 = cleanup_stale now st'" by (simp_all add: full_refresh_def Let_def)
  show "n \<le> sum_list (map length fetched)" using batches_length [of max_per_source fetched "(0, st)"] f st1(1) by simp
  have "growth st (0, st)" using assms(2) by (simp add: growth_def)
  from batches.keeps_fold [OF this, of max_per_source fetched] f st1(1)
  have "total_count st' = total_count st + n" by (simp add: growth_def)
  moreover have "total_count st1 \<le> total_count st'"
    by (simp add: st1(2) cleanup_stale_def total_count_def tbl_len_def tbl_retain_def)
  ultimately show "total_count st1 \<le> total_count st + n" by simp
qed

text \<open>A list with a comment and two addresses, of which the second one passes its check.\<close>

definition two_lines :: web where
  "two_lines = (\<lambda>_ _. Body (''# free'' @ [CHR 10] @ host_port ''5.6.7.8'' 81 @ [CHR 10] @ host_port ''1.2.3.4'' 80))"

lemma two_lines_are: "rust_lines (''# free'' @ [CHR 10] @ host_port ''5.6.7.8'' 81 @ [CHR 10] @ host_port ''1.2.3.4'' 80) =
    [''# free'', host_port ''5.6.7.8'' 81, host_port ''1.2.3.4'' 80]"
proof -
  have s: "show_u16 80 = ''80''" "show_u16 81 = ''81''" by code_simp+
  show ?thesis by (simp add: host_port_def s rust_lines_def strip_cr_def)
qed

lemma two_lines_listed: "source_lists two_lines u (host_port ''1.2.3.4'' 80)"
  unfolding source_lists_def two_lines_def
  by (intro exI [of _ 0] exI conjI, simp, simp, rule refl) (simp only: two_lines_are max_per_source_def, simp)

lemma two_lines_length: "length (fetch_source two_lines u proto) \<le> 3"
proof -
  let ?body = "''# free'' @ [CHR 10] @ host_port ''5.6.7.8'' 81 @ [CHR 10] @ host_port ''1.2.3.4'' 80"
  have "length (parse_body ?body proto) \<le> length (rust_lines ?body)"
    by (simp only: parse_body_def List.map_filter_def length_map length_filter_le)
  moreover have "fetch_source two_lines u proto = parse_body ?body proto"
    using fetch_from_body [of 0 0 "two_lines u" ?body proto] by (simp add: fetch_source_def two_lines_def)
  ultimately show ?thesis unfolding two_lines_are by simp
qed

lemma listed_proxy_serves_witness:
  "\<exists>n st1 found geo st2 p. full_refresh (\<lambda>_. Some [''u'', ''v'']) (Some ''{}'') two_lines rev
       \<lparr>inst = 0, utc = 0\<rparr> (state_new :: gstate) = (n, st1)
   \<and> health_tick fast_limit (\<lambda>p. (proxy_key p, if proxy_key p = host_port ''1.2.3.4'' 80 then CheckOk (Fin 50) else Dead))
       (map (\<lambda>r. (r, \<lparr>inst = 1, utc = 1\<rparr>))) \<lparr>inst = 1, utc = 1\<rparr> st1 = (found, geo, st2)
   \<and> tbl_get (proxies st2) (host_port ''1.2.3.4'' 80) = Some p
   \<and> suitable \<lparr>inst = 2, utc = 2\<rparr> \<lparr>target_host = ''x.io'', target_port = 443\<rparr> st2 p"
proof -
  let ?k = "host_port ''1.2.3.4'' 80" and ?now = "\<lparr>inst = 0, utc = 0\<rparr>" and ?then = "\<lparr>inst = 1, utc = 1\<rparr>"
  let ?st = "state_new :: gstate" and ?parse = "\<lambda>_. Some [''u'', ''v''] :: string list option"
  obtain n st1 where f: "full_refresh ?parse (Some ''{}'') two_lines rev ?now ?st = (n, st1)" by fastforce
  let ?check = "\<lambda>p. (proxy_key p, if proxy_key p = ?k then CheckOk (Fin 50) else Dead)"
  let ?arrive = "map (\<lambda>r. (r, ?then))"
  obtain found geo st2 where h: "health_tick fast_limit ?check ?arrive ?then st1 = (found, geo, st2)"
    using prod_cases3 by blast
  have ip: "parse_ipv4 ''1.2.3.4'' \<noteq> None"
    by (simp add: parse_ipv4_def octet_ok_def is_digit_def digits_val_def digit_val_def)
  have new: "pool_ok ?st" "tbl_get (proxies ?st) ?k = None" "arrival_ok rev" "''u'' \<in> set (load_sources ?parse (Some ''{}''))"
    by (simp_all add: pool_ok_def state_new_def arrival_ok_def load_sources_def)
  have len: "map (\<lambda>url. fetch_source two_lines url (guess_protocol url)) (load_sources ?parse (Some ''{}'')) =
      [fetch_source two_lines ''u'' (guess_protocol ''u''), fetch_source two_lines ''v'' (guess_protocol ''v'')]"
    by (simp add: load_sources_def)
  have few: "n \<le> 6 \<and> total_count st1 \<le> 6"
    using refresh_counts [OF f _ refl, unfolded len] two_lines_length [of "''u''" "guess_protocol ''u''"]
      two_lines_length [of "''v''" "guess_protocol ''v''"]
    by (simp add: state_new_def total_count_def tbl_len_def)
  then have room: "max_proxies ?st = 0 \<or> total_count ?st + n < max_proxies ?st"
    by (simp add: state_new_def total_count_def tbl_len_def)
  have "length (filter (\<lambda>p. check_rank p = 0) (tbl_vals (proxies st1))) \<le> total_count st1"
    by (simp add: total_count_def tbl_len_def tbl_vals_def order_trans [OF length_filter_le])
  then have lim: "length (filter (\<lambda>p. check_rank p = 0) (tbl_vals (proxies st1))) \<le> fast_limit"
    using few by (simp add: fast_limit_def)
  obtain p where "tbl_get (proxies st2) ?k = Some p"
    "suitable \<lparr>inst = 2, utc = 2\<rparr> \<lparr>target_host = ''x.io'', target_port = 443\<rparr> st2 p"
    using listed_proxy_serves [OF f new(1,3,4) two_lines_listed ip new(2) room lim _ _ _ h, of "Fin 50"]
    by (auto simp: comp_def)
  with f h show ?thesis by blast
qed

end
