(* ===== verification/Saves.thy ===== *)
theory Saves
  imports Persistence
begin

text \<open>
  \<open>src/pool/persistence.rs\<close> and the end of \<open>src/main.rs\<close> at the grain of file-system calls.
  A save is a snapshot of the pool followed by three calls that \<open>tokio::fs\<close> gives to a thread
  of its own: \<open>create_dir_all\<close>, \<open>write\<close> (open and truncate, then as many writes as the kernel
  needs) and \<open>rename\<close>.  Between any two of these steps other tasks run, the process may be
  killed, and at the shutdown the task that saves periodically is aborted: an abort drops the
  task, while a call that a thread has begun runs to its end.  A name is a link to an inode; an
  open file keeps its inode when the name is given to another one.
\<close>

section \<open>Names and inodes\<close>

record inode_disk =
  d_names :: "(string, nat) table"
  d_data :: "string list"

text \<open>\<open>open(O_WRONLY | O_CREAT | O_TRUNC)\<close>: the inode of the name, emptied, or a new one.\<close>

definition open_truncate :: "string \<Rightarrow> inode_disk \<Rightarrow> nat \<times> inode_disk" where
  "open_truncate name d =
     (case tbl_get (d_names d) name of
        Some i \<Rightarrow> (i, d\<lparr>d_data := (d_data d)[i := []]\<rparr>)
      | None \<Rightarrow> (length (d_data d),
          \<lparr>d_names = tbl_put name (length (d_data d)) (d_names d), d_data = d_data d @ [[]]\<rparr>))"

text \<open>A write at the offset of the open file; a gap before it reads as zeros.\<close>

definition write_over :: "nat \<Rightarrow> string \<Rightarrow> string \<Rightarrow> string" where
  "write_over pos part old =
     take pos old @ replicate (pos - length old) (CHR 0x00) @ part @ drop (pos + length part) old"

definition write_at :: "nat \<Rightarrow> nat \<Rightarrow> string \<Rightarrow> inode_disk \<Rightarrow> inode_disk" where
  "write_at i pos part d = d\<lparr>d_data := (d_data d)[i := write_over pos part (d_data d ! i)]\<rparr>"

definition rename_file :: "string \<Rightarrow> string \<Rightarrow> inode_disk \<Rightarrow> inode_disk option" where
  "rename_file a b d =
     (case tbl_get (d_names d) a of
        Some i \<Rightarrow> Some (d\<lparr>d_names := tbl_put b i (tbl_del a (d_names d))\<rparr>)
      | None \<Rightarrow> None)"

definition contents :: "inode_disk \<Rightarrow> string \<Rightarrow> string option" where
  "contents d name = map_option ((!) (d_data d)) (tbl_get (d_names d) name)"

text \<open>Every name is linked to an inode of its own (no hard links).\<close>

definition disk_ok :: "inode_disk \<Rightarrow> bool" where
  "disk_ok d \<longleftrightarrow> (\<forall>n i. tbl_get (d_names d) n = Some i \<longrightarrow> i < length (d_data d))
     \<and> (\<forall>n m i. tbl_get (d_names d) n = Some i \<and> tbl_get (d_names d) m = Some i \<longrightarrow> n = m)"

section \<open>A save, step by step\<close>

datatype save_pc = AtMkdir | AtOpen | Writing nat nat | AtRename | Saved | Failed | Cancelled

record saver =
  sv_text :: string
  sv_pc :: save_pc
  sv_aborted :: bool

definition finished :: "saver \<Rightarrow> bool" where
  "finished v \<longleftrightarrow> sv_pc v \<in> {Saved, Failed, Cancelled}"

definition start_save :: "(proxy list \<Rightarrow> string option) \<Rightarrow> 's shared_state \<Rightarrow> saver option" where
  "start_save encode st =
     map_option (\<lambda>json. \<lparr>sv_text = json, sv_pc = AtMkdir, sv_aborted = False\<rparr>) (encode (to_save st))"

text \<open>The task awaits a call; when it was aborted meanwhile, no further call is made.\<close>

definition next_call :: "save_pc \<Rightarrow> saver \<Rightarrow> saver" where
  "next_call pc v = v\<lparr>sv_pc := (if sv_aborted v then Cancelled else pc)\<rparr>"

inductive saver_step :: "string \<Rightarrow> saver \<times> inode_disk \<Rightarrow> saver \<times> inode_disk \<Rightarrow> bool" for path where
  mkdir: "sv_pc v = AtMkdir \<Longrightarrow> saver_step path (v, d) (next_call AtOpen v, d)"
| mkdir_fails: "sv_pc v = AtMkdir \<Longrightarrow> saver_step path (v, d) (v\<lparr>sv_pc := Failed\<rparr>, d)"
| opened: "sv_pc v = AtOpen \<Longrightarrow> open_truncate (tmp_path path) d = (i, d') \<Longrightarrow>
    saver_step path (v, d) (v\<lparr>sv_pc := Writing i 0\<rparr>, d')"
| open_fails: "sv_pc v = AtOpen \<Longrightarrow> saver_step path (v, d) (v\<lparr>sv_pc := Failed\<rparr>, d)"
| wrote: "sv_pc v = Writing i pos \<Longrightarrow> 0 < n \<Longrightarrow> pos + n \<le> length (sv_text v) \<Longrightarrow>
    saver_step path (v, d)
      (v\<lparr>sv_pc := Writing i (pos + n)\<rparr>, write_at i pos (take n (drop pos (sv_text v))) d)"
| write_fails: "sv_pc v = Writing i pos \<Longrightarrow> pos < length (sv_text v) \<Longrightarrow>
    saver_step path (v, d) (v\<lparr>sv_pc := Failed\<rparr>, d)"
| written: "sv_pc v = Writing i (length (sv_text v)) \<Longrightarrow>
    saver_step path (v, d) (next_call AtRename v, d)"
| renamed: "sv_pc v = AtRename \<Longrightarrow> rename_file (tmp_path path) path d = Some d' \<Longrightarrow>
    saver_step path (v, d) (v\<lparr>sv_pc := Saved\<rparr>, d')"
| rename_fails: "sv_pc v = AtRename \<Longrightarrow> saver_step path (v, d) (v\<lparr>sv_pc := Failed\<rparr>, d)"
| dropped: "sv_aborted v \<Longrightarrow> sv_pc v \<in> {AtMkdir, AtOpen, AtRename} \<Longrightarrow>
    saver_step path (v, d) (v\<lparr>sv_pc := Cancelled\<rparr>, d)"

inductive_cases saver_stepE: "saver_step path (v, d) (v', d')"

lemmas saver_step_cases = saver_stepE [consumes 1, case_names mkdir mkdir_fails opened open_fails
  wrote write_fails written renamed rename_fails dropped]

section \<open>The loop and the final save\<close>

record 's saving =
  g_pool :: "'s shared_state"
  g_disk :: inode_disk
  g_loop :: "saver option"
  g_down :: bool
  g_final :: "saver option"
  g_overlap :: bool

definition idle :: "saver option \<Rightarrow> bool" where
  "idle v = (case v of None \<Rightarrow> True | Some v \<Rightarrow> finished v)"

text \<open>
  Other tasks change the pool.  The loop starts a save at a tick when its previous one is done.
  Ctrl+C aborts the loop; the final save follows at some time after it.  \<open>g_overlap\<close> only
  records whether a save of the loop was still under way when the final one began.
\<close>

inductive saving_step ::
  "(proxy list \<Rightarrow> string option) \<Rightarrow> string \<Rightarrow> 's saving \<Rightarrow> 's saving \<Rightarrow> bool" for encode path where
  work: "saving_step encode path s (s\<lparr>g_pool := st\<rparr>)"
| tick: "\<not> g_down s \<Longrightarrow> idle (g_loop s) \<Longrightarrow> start_save encode (g_pool s) = Some v \<Longrightarrow>
    saving_step encode path s (s\<lparr>g_loop := Some v\<rparr>)"
| loop: "g_loop s = Some v \<Longrightarrow> saver_step path (v, g_disk s) (v', d') \<Longrightarrow>
    saving_step encode path s (s\<lparr>g_loop := Some v', g_disk := d'\<rparr>)"
| ctrl_c: "\<not> g_down s \<Longrightarrow>
    saving_step encode path s
      (s\<lparr>g_down := True, g_loop := map_option (\<lambda>v. v\<lparr>sv_aborted := True\<rparr>) (g_loop s)\<rparr>)"
| begin_final: "g_down s \<Longrightarrow> g_final s = None \<Longrightarrow> start_save encode (g_pool s) = Some v \<Longrightarrow>
    saving_step encode path s (s\<lparr>g_final := Some v, g_overlap := \<not> idle (g_loop s)\<rparr>)"
| final: "g_final s = Some v \<Longrightarrow> saver_step path (v, g_disk s) (v', d') \<Longrightarrow>
    saving_step encode path s (s\<lparr>g_final := Some v', g_disk := d'\<rparr>)"

inductive_cases saving_stepE: "saving_step encode path s s'"

lemmas saving_step_cases = saving_stepE [consumes 1, case_names work tick loop ctrl_c begin_final final]

definition saving_start :: "inode_disk \<Rightarrow> 's shared_state \<Rightarrow> 's saving" where
  "saving_start d st = \<lparr>g_pool = st, g_disk = d, g_loop = None, g_down = False, g_final = None, g_overlap = False\<rparr>"

text \<open>Where a process that is killed may stop: every state on the way.\<close>

inductive saving_reachable ::
  "(proxy list \<Rightarrow> string option) \<Rightarrow> string \<Rightarrow> inode_disk \<Rightarrow> 's saving \<Rightarrow> bool" for encode path d0 where
  start: "saving_reachable encode path d0 (saving_start d0 st)"
| step: "saving_reachable encode path d0 s \<Longrightarrow> saving_step encode path s s' \<Longrightarrow>
    saving_reachable encode path d0 s'"


section \<open>What the calls do to the contents of names\<close>

lemma tmp_path_neq [simp]: "tmp_path path \<noteq> path" "path \<noteq> tmp_path path"
  by (simp_all add: tmp_path_def)

lemma write_over_append: "write_over (length old) part old = old @ part"
  by (simp add: write_over_def)

lemma disk_ok_range: "disk_ok d \<Longrightarrow> tbl_get (d_names d) n = Some i \<Longrightarrow> i < length (d_data d)"
  unfolding disk_ok_def by blast

lemma disk_ok_inj:
  "disk_ok d \<Longrightarrow> tbl_get (d_names d) n = Some i \<Longrightarrow> tbl_get (d_names d) m = Some i \<longleftrightarrow> m = n"
  unfolding disk_ok_def by blast

lemma disk_okI:
  assumes "\<And>n i. tbl_get (d_names d) n = Some i \<Longrightarrow> i < length (d_data d)"
    and "\<And>n m i. tbl_get (d_names d) n = Some i \<Longrightarrow> tbl_get (d_names d) m = Some i \<Longrightarrow> n = m"
  shows "disk_ok d"
  using assms unfolding disk_ok_def by blast

lemma disk_ok_data: "disk_ok d \<Longrightarrow> disk_ok (d\<lparr>d_data := (d_data d)[i := x]\<rparr>)"
  by (simp add: disk_ok_def)

lemma open_truncate_ok:
  assumes "disk_ok d" "open_truncate name d = (i, d')"
  shows "disk_ok d' \<and> tbl_get (d_names d') name = Some i \<and> contents d' = (contents d)(name \<mapsto> [])"
proof (cases "tbl_get (d_names d) name")
  case None
  then have i: "i = length (d_data d)" "d' = \<lparr>d_names = tbl_put name i (d_names d), d_data = d_data d @ [[]]\<rparr>"
    using assms(2) by (auto simp: open_truncate_def)
  have new: "tbl_get (d_names d) m \<noteq> Some i" for m using disk_ok_range [OF assms(1), of m i] i(1) by auto
  have "contents d' m = ((contents d)(name \<mapsto> [])) m" for m
  proof (cases "tbl_get (d_names d) m")
    case (Some j)
    with disk_ok_range [OF assms(1) Some] None show ?thesis
      by (cases "m = name") (simp_all add: i(2) contents_def nth_append i(1))
  qed (simp add: i(2) contents_def i(1))
  moreover have "disk_ok d'"
  proof (rule disk_okI)
    fix n j assume "tbl_get (d_names d') n = Some j"
    then show "j < length (d_data d')"
      using disk_ok_range [OF assms(1), of n j] i(1) by (cases "n = name") (simp_all add: i(2))
  next
    fix n m j assume "tbl_get (d_names d') n = Some j" "tbl_get (d_names d') m = Some j"
    then show "n = m"
      using new disk_ok_inj [OF assms(1), of n j m] by (cases "n = name"; cases "m = name") (simp_all add: i(2))
  qed
  ultimately show ?thesis by (simp add: i(2) fun_eq_iff)
next
  case (Some j)
  then have i: "i = j" "d' = d\<lparr>d_data := (d_data d)[j := []]\<rparr>"
    using assms(2) by (auto simp: open_truncate_def)
  have "contents d' m = ((contents d)(name \<mapsto> [])) m" for m
    using disk_ok_range [OF assms(1) Some] disk_ok_inj [OF assms(1) Some, of m]
    by (cases "m = name"; cases "tbl_get (d_names d) m")
      (simp_all add: i contents_def nth_list_update Some)
  then show ?thesis using disk_ok_data [OF assms(1)] Some by (simp add: i fun_eq_iff)
qed

lemma write_at_ok:
  assumes "disk_ok d" "tbl_get (d_names d) name = Some i"
  shows "disk_ok (write_at i pos part d) \<and> tbl_get (d_names (write_at i pos part d)) name = Some i
    \<and> contents (write_at i pos part d) = (contents d)(name \<mapsto> write_over pos part (the (contents d name)))"
proof -
  have "contents (write_at i pos part d) m
      = ((contents d)(name \<mapsto> write_over pos part (the (contents d name)))) m" for m
    using disk_ok_range [OF assms] disk_ok_inj [OF assms, of m]
    by (cases "m = name"; cases "tbl_get (d_names d) m")
      (simp_all add: write_at_def contents_def nth_list_update assms(2))
  then show ?thesis using disk_ok_data [OF assms(1)] assms(2) by (simp add: write_at_def fun_eq_iff)
qed

lemma rename_file_ok:
  assumes "disk_ok d" "rename_file a b d = Some d'" "a \<noteq> b"
  shows "disk_ok d' \<and> contents d' = (contents d)(a := None, b := contents d a)"
proof -
  obtain i where i: "tbl_get (d_names d) a = Some i" "d' = d\<lparr>d_names := tbl_put b i (tbl_del a (d_names d))\<rparr>"
    using assms(2) by (auto simp: rename_file_def split: option.splits)
  have "disk_ok d'"
  proof (rule disk_okI)
    fix n j assume "tbl_get (d_names d') n = Some j"
    then show "j < length (d_data d')"
      using disk_ok_range [OF assms(1)] i(1) by (simp add: i(2) split: if_splits)
  next
    fix n m j assume "tbl_get (d_names d') n = Some j" "tbl_get (d_names d') m = Some j"
    then show "n = m"
      using disk_ok_inj [OF assms(1) i(1)] disk_ok_inj [OF assms(1), of n j m]
      by (cases "n = b"; cases "m = b") (auto simp: i(2) split: if_splits)
  qed
  then show ?thesis using assms(3) by (auto simp: i contents_def fun_eq_iff)
qed


section \<open>One saver on the disk\<close>

text \<open>What a save has achieved at each of its points.\<close>

definition saver_ok :: "string \<Rightarrow> saver \<Rightarrow> inode_disk \<Rightarrow> bool" where
  "saver_ok path v d \<longleftrightarrow>
     (case sv_pc v of
        Writing i pos \<Rightarrow> pos \<le> length (sv_text v) \<and> tbl_get (d_names d) (tmp_path path) = Some i
          \<and> contents d (tmp_path path) = Some (take pos (sv_text v))
      | AtRename \<Rightarrow> contents d (tmp_path path) = Some (sv_text v)
      | _ \<Rightarrow> True)"

lemma finished_ok [simp]: "finished v \<Longrightarrow> saver_ok path v d"
  by (auto simp: finished_def saver_ok_def)

lemma saver_ok_abort [simp]: "saver_ok path (v\<lparr>sv_aborted := b\<rparr>) d = saver_ok path v d"
  by (simp add: saver_ok_def split: save_pc.split)

lemma finished_stays: "finished v \<Longrightarrow> \<not> saver_step path (v, d) (v', d')"
  by (auto simp: finished_def elim: saver_stepE)

text \<open>
  A step of the only saver under way: the state file changes by the rename alone, to the whole
  text; apart from it only the temporary file changes.
\<close>

lemma saver_step_ok:
  assumes "saver_step path (v, d) (v', d')" "disk_ok d" "saver_ok path v d"
  shows "disk_ok d' \<and> saver_ok path v' d' \<and> sv_text v' = sv_text v \<and> sv_aborted v' = sv_aborted v
    \<and> contents d' path = (if sv_pc v' = Saved then Some (sv_text v) else contents d path)
    \<and> (\<forall>n. n \<noteq> path \<and> n \<noteq> tmp_path path \<longrightarrow> contents d' n = contents d n)"
  using assms(1)
proof (cases rule: saver_step_cases)
  case (opened i)
  from open_truncate_ok [OF assms(2) opened(3)] show ?thesis by (simp add: opened(1) saver_ok_def)
next
  case (wrote i pos n)
  then have tmp: "tbl_get (d_names d) (tmp_path path) = Some i"
      "contents d (tmp_path path) = Some (take pos (sv_text v))" "pos \<le> length (sv_text v)"
    using assms(3) by (simp_all add: saver_ok_def)
  have "write_over pos (take n (drop pos (sv_text v))) (take pos (sv_text v)) = take (pos + n) (sv_text v)"
    using write_over_append [of "take pos (sv_text v)"] tmp(3) by (simp add: take_add)
  with write_at_ok [OF assms(2) tmp(1), of pos "take n (drop pos (sv_text v))"] tmp(2) wrote
  show ?thesis by (simp add: saver_ok_def)
next
  case renamed
  with rename_file_ok [OF assms(2) renamed(3)] assms(3) show ?thesis by (simp add: saver_ok_def)
qed (use assms(2,3) in \<open>auto simp: next_call_def saver_ok_def\<close>)

section \<open>The state file while savers do not overlap\<close>

definition snapshot_of :: "(proxy list \<Rightarrow> string option) \<Rightarrow> 's shared_state \<Rightarrow> saver \<Rightarrow> bool" where
  "snapshot_of encode st v \<longleftrightarrow> encode (to_save st) = Some (sv_text v)"

definition saver_in ::
  "(proxy list \<Rightarrow> string option) \<Rightarrow> string \<Rightarrow> 's saving \<Rightarrow> saver \<Rightarrow> bool" where
  "saver_in encode path s v \<longleftrightarrow> saver_ok path v (g_disk s) \<and> (\<exists>st :: 's shared_state. snapshot_of encode st v)"

definition state_file_whole ::
  "(proxy list \<Rightarrow> string option) \<Rightarrow> string \<Rightarrow> inode_disk \<Rightarrow> 's saving \<Rightarrow> bool" where
  "state_file_whole encode path d0 s \<longleftrightarrow>
     contents (g_disk s) path = contents d0 path
     \<or> (\<exists>st :: 's shared_state. encode (to_save st) \<noteq> None \<and> contents (g_disk s) path = encode (to_save st))"

definition saving_ok ::
  "(proxy list \<Rightarrow> string option) \<Rightarrow> string \<Rightarrow> inode_disk \<Rightarrow> 's saving \<Rightarrow> bool" where
  "saving_ok encode path d0 s \<longleftrightarrow>
     disk_ok (g_disk s) \<and> state_file_whole encode path d0 s
     \<and> pred_option (saver_in encode path s) (g_loop s)
     \<and> pred_option (\<lambda>v. saver_in encode path s v \<and> g_down s \<and> idle (g_loop s)
          \<and> (sv_pc v = Saved \<longrightarrow> contents (g_disk s) path = Some (sv_text v))) (g_final s)"

lemma start_save_in:
  fixes s :: "'s saving"
  assumes "start_save encode (st :: 's shared_state) = Some v"
  shows "saver_in encode path s v" "sv_pc v = AtMkdir"
  using assms by (auto simp: start_save_def saver_in_def saver_ok_def snapshot_of_def)

text \<open>A step of the only active saver, seen from the whole.\<close>

lemma active_step:
  fixes s s' :: "'s saving"
  assumes "saver_step path (v, g_disk s) (v', d')" "saver_in encode path s v"
    and "disk_ok (g_disk s)" "state_file_whole encode path d0 s" "g_disk s' = d'"
  shows "disk_ok d' \<and> saver_in encode path s' v' \<and> state_file_whole encode path d0 s'
    \<and> (sv_pc v' = Saved \<longrightarrow> contents d' path = Some (sv_text v'))"
proof -
  from assms(2) obtain st :: "'s shared_state" where v: "saver_ok path v (g_disk s)" "encode (to_save st) = Some (sv_text v)"
    by (auto simp: saver_in_def snapshot_of_def)
  note step = saver_step_ok [OF assms(1,3) v(1)]
  with v(2) have "saver_in encode path s' v'"
    unfolding saver_in_def snapshot_of_def assms(5) by auto
  moreover have "state_file_whole encode path d0 s'"
    using step v(2) assms(4) unfolding state_file_whole_def assms(5) by auto
  ultimately show ?thesis using step by simp
qed

lemma saving_step_ok:
  assumes "saving_step encode path s s'" "saving_ok encode path d0 s" "\<not> g_overlap s'" "\<not> g_overlap s"
  shows "saving_ok encode path d0 s'"
  using assms(1)
proof (cases rule: saving_step_cases)
  case (tick v)
  with assms(2) start_save_in [OF tick(4)] show ?thesis
    by (auto simp: saving_ok_def saver_in_def state_file_whole_def option.pred_set)
next
  case (loop v v' d')
  then have "g_final s = None \<or> finished v"
    using assms(2) by (cases "g_final s") (auto simp: saving_ok_def idle_def)
  with finished_stays loop have none: "g_final s = None" by blast
  have "saver_in encode path s v" "disk_ok (g_disk s)" "state_file_whole encode path d0 s"
    using assms(2) loop by (auto simp: saving_ok_def)
  from active_step [OF loop(3) this, of s'] loop(1) none show ?thesis by (auto simp: saving_ok_def)
next
  case (begin_final v)
  with assms(2,3) start_save_in [OF begin_final(4)] show ?thesis
    by (auto simp: saving_ok_def saver_in_def state_file_whole_def option.pred_set)
next
  case (final v v' d')
  then have *: "saver_in encode path s v" "disk_ok (g_disk s)" "state_file_whole encode path d0 s"
      and down: "g_down s" "idle (g_loop s)"
    using assms(2) by (auto simp: saving_ok_def)
  have "pred_option (saver_in encode path s') (g_loop s)"
    using assms(2) down(2) by (cases "g_loop s") (auto simp: saving_ok_def saver_in_def idle_def)
  with active_step [OF final(3) *, of s'] final(1) down show ?thesis by (auto simp: saving_ok_def)
qed (use assms(2) in \<open>auto simp: saving_ok_def saver_in_def state_file_whole_def snapshot_of_def
    option.pred_set\<close>)

lemma overlap_stays:
  "saving_step encode path s s' \<Longrightarrow> g_overlap s \<Longrightarrow> g_final s \<noteq> None \<Longrightarrow> g_overlap s' \<and> g_final s' \<noteq> None"
  by (auto elim!: saving_stepE)

lemma overlap_final:
  "saving_reachable encode path d0 s \<Longrightarrow> g_overlap s \<Longrightarrow> g_final s \<noteq> None"
  by (induction rule: saving_reachable.induct) (auto simp: saving_start_def elim!: saving_stepE)

lemma saving_reachable_ok:
  assumes "saving_reachable encode path d0 s" "disk_ok d0" "\<not> g_overlap s"
  shows "saving_ok encode path d0 s"
  using assms
proof (induction rule: saving_reachable.induct)
  case (start st)
  then show ?case by (simp add: saving_ok_def saving_start_def state_file_whole_def)
next
  case (step s s')
  have "\<not> g_overlap s"
    using overlap_stays [OF step.hyps(2)] overlap_final [OF step.hyps(1)] step.prems(2) by blast
  with step show ?case by (blast intro: saving_step_ok)
qed


text \<open>
  What a restart finds after a kill: what it found before, or what it would find after the
  one-step save of some snapshot.
\<close>

theorem restart_after_kill:
  fixes s :: "'s saving"
  assumes "saving_reachable encode path d0 s" "disk_ok d0" "\<not> g_overlap s" "tbl_get fs = contents (g_disk s)"
  shows "tbl_get fs path = contents d0 path
    \<or> (\<exists>st :: 's shared_state. load_state_from decode now path fs fresh =
          load_state_from decode now path (save_state_to encode NoFault path st fs) fresh)"
proof -
  have "load_state_from decode now path fs fresh =
      load_state_from decode now path (save_state_to encode NoFault path st fs) fresh"
    if "encode (to_save st) \<noteq> None" "contents (g_disk s) path = encode (to_save st)" for st :: "'s shared_state"
    using that assms(4) by (auto simp: load_state_from_def save_state_to_def)
  moreover have "state_file_whole encode path d0 s"
    using saving_reachable_ok [OF assms(1-3)] by (simp add: saving_ok_def)
  ultimately show ?thesis using assms(4) unfolding state_file_whole_def by metis
qed

section \<open>A save by itself\<close>

text \<open>What one save has made of the files it found, at each of its points.\<close>

fun outcome :: "string \<Rightarrow> string \<Rightarrow> (string \<Rightarrow> string option) \<Rightarrow> save_pc \<Rightarrow> (string \<Rightarrow> string option) \<Rightarrow> bool" where
  "outcome path json f (Writing i pos) f' \<longleftrightarrow> f' = f(tmp_path path \<mapsto> take pos json)"
| "outcome path json f AtRename f' \<longleftrightarrow> f' = f(tmp_path path \<mapsto> json)"
| "outcome path json f Saved f' \<longleftrightarrow> f' = f(tmp_path path := None, path \<mapsto> json)"
| "outcome path json f Failed f' \<longleftrightarrow> f' = f \<or> (\<exists>part. f' = f(tmp_path path \<mapsto> part))"
| "outcome path json f Cancelled f' \<longleftrightarrow> False"
| "outcome path json f pc f' \<longleftrightarrow> f' = f"

lemma outcome_step:
  assumes "saver_step path (v, d) (v', d')" "disk_ok d" "saver_ok path v d" "\<not> sv_aborted v"
    and "outcome path (sv_text v) f (sv_pc v) (contents d)"
  shows "outcome path (sv_text v) f (sv_pc v') (contents d')"
  using assms(1)
proof (cases rule: saver_step_cases)
  case (opened i)
  with open_truncate_ok [OF assms(2) opened(3)] assms(5) show ?thesis by simp
next
  case (wrote i pos n)
  with assms(3) have tmp: "tbl_get (d_names d) (tmp_path path) = Some i" "pos \<le> length (sv_text v)"
    by (simp_all add: saver_ok_def)
  have "write_over pos (take n (drop pos (sv_text v))) (take pos (sv_text v)) = take (pos + n) (sv_text v)"
    using write_over_append [of "take pos (sv_text v)"] tmp(2) by (simp add: take_add)
  with write_at_ok [OF assms(2) tmp(1), of pos "take n (drop pos (sv_text v))"] assms(5) wrote
  show ?thesis by simp
next
  case (write_fails i pos)
  with assms(5) show ?thesis by auto
next
  case renamed
  with rename_file_ok [OF assms(2) renamed(3)] assms(5) show ?thesis by simp
next
  case rename_fails
  with assms(5) show ?thesis by auto
qed (use assms(4,5) in \<open>simp_all add: next_call_def\<close>)

lemma outcome_run:
  assumes "(saver_step path)\<^sup>*\<^sup>* (v, d) (v', d')" "sv_pc v = AtMkdir" "\<not> sv_aborted v" "disk_ok d"
  shows "disk_ok d' \<and> saver_ok path v' d' \<and> sv_text v' = sv_text v \<and> \<not> sv_aborted v'
    \<and> outcome path (sv_text v) (contents d) (sv_pc v') (contents d')"
  using assms(1)
proof (induction rule: rtranclp_induct2)
  case refl
  with assms(2-4) show ?case by (simp add: saver_ok_def)
next
  case (step v1 d1 v2 d2)
  then have "outcome path (sv_text v) (contents d) (sv_pc v2) (contents d2)"
    using outcome_step [OF step.hyps(2)] by metis
  with step saver_step_ok [OF step.hyps(2)] show ?case by metis
qed

text \<open>Without errors a save comes to its end, whatever was left in the temporary file.\<close>

lemma save_completes:
  assumes "sv_pc v = AtMkdir" "\<not> sv_aborted v" "sv_text v \<noteq> []" "disk_ok d"
  shows "\<exists>d'. (saver_step path)\<^sup>*\<^sup>* (v, d) (v\<lparr>sv_pc := Saved\<rparr>, d')
    \<and> tbl_get (d_names d') path = Some (fst (open_truncate (tmp_path path) d))"
proof -
  obtain i d1 where d1: "open_truncate (tmp_path path) d = (i, d1)" by fastforce
  note o = open_truncate_ok [OF assms(4) d1]
  let ?d2 = "write_at i 0 (sv_text v) d1"
  obtain d3 where d3: "rename_file (tmp_path path) path ?d2 = Some d3"
    using write_at_ok [of d1 "tmp_path path" i 0 "sv_text v"] o by (auto simp: rename_file_def)
  have "saver_step path (v, d) (v\<lparr>sv_pc := AtOpen\<rparr>, d)"
    using saver_step.mkdir [of v path d] assms(1,2) by (simp add: next_call_def)
  moreover have "saver_step path (v\<lparr>sv_pc := AtOpen\<rparr>, d) (v\<lparr>sv_pc := Writing i 0\<rparr>, d1)"
    using saver_step.opened [of "v\<lparr>sv_pc := AtOpen\<rparr>", OF _ d1] by simp
  moreover have "saver_step path (v\<lparr>sv_pc := Writing i 0\<rparr>, d1)
      (v\<lparr>sv_pc := Writing i (length (sv_text v))\<rparr>, ?d2)"
    using saver_step.wrote [of "v\<lparr>sv_pc := Writing i 0\<rparr>" i 0 "length (sv_text v)" path d1] assms(3) by simp
  moreover have "saver_step path (v\<lparr>sv_pc := Writing i (length (sv_text v))\<rparr>, ?d2) (v\<lparr>sv_pc := AtRename\<rparr>, ?d2)"
    using saver_step.written [of "v\<lparr>sv_pc := Writing i (length (sv_text v))\<rparr>" i path ?d2] assms(2)
    by (simp add: next_call_def)
  moreover have "saver_step path (v\<lparr>sv_pc := AtRename\<rparr>, ?d2) (v\<lparr>sv_pc := Saved\<rparr>, d3)"
    using saver_step.renamed [of "v\<lparr>sv_pc := AtRename\<rparr>", OF _ d3] by simp
  ultimately have "(saver_step path)\<^sup>*\<^sup>* (v, d) (v\<lparr>sv_pc := Saved\<rparr>, d3)"
    by (meson converse_rtranclp_into_rtranclp rtranclp.rtrancl_refl)
  moreover have "tbl_get (d_names d3) path = Some i"
    using d3 o by (auto simp: rename_file_def write_at_def)
  ultimately show ?thesis using d1 by auto
qed

section \<open>Two savers\<close>

lemma loop_run:
  assumes "(saver_step path)\<^sup>*\<^sup>* (v, d) (v', d')" "saving_reachable encode path d0 s"
    and "g_loop s = Some v" "g_disk s = d"
  shows "saving_reachable encode path d0 (s\<lparr>g_loop := Some v', g_disk := d'\<rparr>)"
  using assms(1)
proof (induction rule: rtranclp_induct2)
  case refl
  have "s\<lparr>g_loop := Some v, g_disk := d\<rparr> = s" using assms(3,4) by simp
  with assms(2) show ?case by (simp only:)
next
  case (step v1 d1 v2 d2)
  show ?case
    using saving_reachable.step [OF step.IH saving_step.loop [of _ v1 path v2 d2]] step.hyps(2) by simp
qed

lemma final_run:
  assumes "(saver_step path)\<^sup>*\<^sup>* (v, d) (v', d')" "saving_reachable encode path d0 s"
    and "g_final s = Some v" "g_disk s = d"
  shows "saving_reachable encode path d0 (s\<lparr>g_final := Some v', g_disk := d'\<rparr>)"
  using assms(1)
proof (induction rule: rtranclp_induct2)
  case refl
  have "s\<lparr>g_final := Some v, g_disk := d\<rparr> = s" using assms(3,4) by simp
  with assms(2) show ?case by (simp only:)
next
  case (step v1 d1 v2 d2)
  show ?case
    using saving_reachable.step [OF step.IH saving_step.final [of _ v1 path v2 d2]] step.hyps(2) by simp
qed

text \<open>The final save begins while the loop has just opened the temporary file.\<close>

lemma overlap_reached:
  fixes st1 st2 :: "'s shared_state"
  assumes "start_save encode st1 = Some v1" "start_save encode st2 = Some v2"
    and "(saver_step path)\<^sup>*\<^sup>* (v1, d0) (v1\<lparr>sv_pc := Writing i 0\<rparr>, d1)"
  shows "saving_reachable encode path d0
    (\<lparr>g_pool = st2, g_disk = d1, g_loop = Some (v1\<lparr>sv_pc := Writing i 0, sv_aborted := True\<rparr>),
      g_down = True, g_final = Some v2, g_overlap = True\<rparr> :: 's saving)"
proof -
  let ?s0 = "saving_start d0 st1 :: 's saving"
  have "saving_reachable encode path d0 (?s0\<lparr>g_loop := Some v1\<rparr>)"
    using saving_reachable.step [OF saving_reachable.start saving_step.tick [of ?s0 encode v1 path]] assms(1)
    by (simp add: saving_start_def idle_def)
  from loop_run [OF assms(3) this]
  have "saving_reachable encode path d0 (?s0\<lparr>g_loop := Some (v1\<lparr>sv_pc := Writing i 0\<rparr>), g_disk := d1\<rparr>)"
    by (simp add: saving_start_def)
  from saving_reachable.step [OF saving_reachable.step [OF this saving_step.ctrl_c] saving_step.work [of _ _ _ st2]]
  have "saving_reachable encode path d0
    (\<lparr>g_pool = st2, g_disk = d1, g_loop = Some (v1\<lparr>sv_pc := Writing i 0, sv_aborted := True\<rparr>),
      g_down = True, g_final = None, g_overlap = False\<rparr> :: 's saving)"
    by (simp add: saving_start_def)
  from saving_reachable.step [OF this saving_step.begin_final [of _ encode v2]] assms(2)
  show ?thesis by (simp add: idle_def finished_def)
qed

text \<open>The thread that still writes for the aborted task writes into the file already renamed.\<close>

lemma late_write:
  assumes "sv_pc v = Writing i 0" "sv_aborted v" "sv_text v \<noteq> []"
    and "disk_ok d" "tbl_get (d_names d) path = Some i" "contents d path = Some old"
  shows "\<exists>d'. (saver_step path)\<^sup>*\<^sup>* (v, d) (v\<lparr>sv_pc := Cancelled\<rparr>, d')
    \<and> contents d' path = Some (sv_text v @ drop (length (sv_text v)) old)"
proof -
  let ?n = "length (sv_text v)" and ?d' = "write_at i 0 (sv_text v) d"
  have "saver_step path (v, d) (v\<lparr>sv_pc := Writing i ?n\<rparr>, ?d')"
    using saver_step.wrote [of v i 0 ?n path d] assms(1,3) by simp
  moreover have "saver_step path (v\<lparr>sv_pc := Writing i ?n\<rparr>, ?d') (v\<lparr>sv_pc := Cancelled\<rparr>, ?d')"
    using saver_step.written [of "v\<lparr>sv_pc := Writing i ?n\<rparr>" i path ?d'] assms(2) by (simp add: next_call_def)
  ultimately have "(saver_step path)\<^sup>*\<^sup>* (v, d) (v\<lparr>sv_pc := Cancelled\<rparr>, ?d')"
    by (meson converse_rtranclp_into_rtranclp r_into_rtranclp)
  moreover have "contents ?d' path = Some (sv_text v @ drop ?n old)"
    using write_at_ok [OF assms(4,5), of 0 "sv_text v"] assms(6) by (simp add: write_over_def)
  ultimately show ?thesis by blast
qed

text \<open>
  C20: when the loop is in the middle of a save at the shutdown, the state file can end up as the
  text of the loop written over the beginning of the final text, after the final save has
  reported success: an abort does not stop the thread that writes.
\<close>

theorem shutdown_can_garble:
  fixes st1 st2 :: "'s shared_state"
  assumes "encode (to_save st1) = Some jl" "encode (to_save st2) = Some jm" "jl \<noteq> []" "jm \<noteq> []" "disk_ok d0"
  shows "\<exists>s :: 's saving. saving_reachable encode path d0 s \<and> idle (g_loop s)
    \<and> (\<exists>v. g_final s = Some v \<and> sv_pc v = Saved \<and> sv_text v = jm)
    \<and> contents (g_disk s) path = Some (jl @ drop (length jl) jm)"
proof -
  define v1 v2 where v: "v1 = \<lparr>sv_text = jl, sv_pc = AtMkdir, sv_aborted = False\<rparr>"
    "v2 = \<lparr>sv_text = jm, sv_pc = AtMkdir, sv_aborted = False\<rparr>"
  obtain i d1 where d1: "open_truncate (tmp_path path) d0 = (i, d1)" by fastforce
  note o = open_truncate_ok [OF assms(5) d1]
  have "fst (open_truncate (tmp_path path) d1) = i" using o by (simp add: open_truncate_def)
  with save_completes [of v2 d1 path] o assms(4) obtain d4
    where run: "(saver_step path)\<^sup>*\<^sup>* (v2, d1) (v2\<lparr>sv_pc := Saved\<rparr>, d4)" and i: "tbl_get (d_names d4) path = Some i"
    by (auto simp: v)
  have d4: "disk_ok d4" "contents d4 path = Some jm" using outcome_run [OF run] o by (auto simp: v)
  have "saver_step path (v1, d0) (v1\<lparr>sv_pc := AtOpen\<rparr>, d0)"
    using saver_step.mkdir [of v1 path d0] by (simp add: v next_call_def)
  moreover have "saver_step path (v1\<lparr>sv_pc := AtOpen\<rparr>, d0) (v1\<lparr>sv_pc := Writing i 0\<rparr>, d1)"
    using saver_step.opened [of "v1\<lparr>sv_pc := AtOpen\<rparr>", OF _ d1] by simp
  ultimately have "(saver_step path)\<^sup>*\<^sup>* (v1, d0) (v1\<lparr>sv_pc := Writing i 0\<rparr>, d1)" by auto
  from overlap_reached [OF _ _ this, of encode st1 st2 v2] assms(1,2)
  have "saving_reachable encode path d0
    (\<lparr>g_pool = st2, g_disk = d1, g_loop = Some (v1\<lparr>sv_pc := Writing i 0, sv_aborted := True\<rparr>),
      g_down = True, g_final = Some v2, g_overlap = True\<rparr> :: 's saving)" (is "saving_reachable _ _ _ ?s")
    by (simp add: start_save_def v)
  note 1 = final_run [OF run this]
  obtain d5 where d5: "(saver_step path)\<^sup>*\<^sup>* (v1\<lparr>sv_pc := Writing i 0, sv_aborted := True\<rparr>, d4)
      (v1\<lparr>sv_pc := Cancelled, sv_aborted := True\<rparr>, d5)" "contents d5 path = Some (jl @ drop (length jl) jm)"
    using late_write [OF _ _ _ d4(1) i d4(2), of "v1\<lparr>sv_pc := Writing i 0, sv_aborted := True\<rparr>"] assms(3)
    by (auto simp: v)
  have "saving_reachable encode path d0 (?s\<lparr>g_final := Some (v2\<lparr>sv_pc := Saved\<rparr>),
      g_loop := Some (v1\<lparr>sv_pc := Cancelled, sv_aborted := True\<rparr>), g_disk := d5\<rparr>)"
    using loop_run [OF d5(1) 1] by simp
  with d5(2) show ?thesis by (intro exI conjI) (auto simp: v idle_def finished_def)
qed

section \<open>Properties\<close>

text \<open>
  C24: as long as no save of the loop is still under way when the final save begins, the state
  file holds at every moment, also where the process is killed, its text from before the start
  or one complete text of a snapshot; and once the final save is done it holds the final
  snapshot.
\<close>

theorem state_file_always_whole:
  fixes s :: "'s saving"
  assumes "saving_reachable encode path d0 s" "disk_ok d0" "\<not> g_overlap s"
  shows "(contents (g_disk s) path = contents d0 path
      \<or> (\<exists>st :: 's shared_state. encode (to_save st) \<noteq> None \<and> contents (g_disk s) path = encode (to_save st)))
    \<and> (\<forall>v. g_final s = Some v \<and> sv_pc v = Saved \<longrightarrow> contents (g_disk s) path = Some (sv_text v))"
  using saving_reachable_ok [OF assms] by (auto simp: saving_ok_def state_file_whole_def)

theorem state_file_always_whole_witness:
  "\<exists>s :: nat saving. saving_reachable (\<lambda>_. Some ''[]'') ''f'' \<lparr>d_names = [(''f'', 0)], d_data = [''old'']\<rparr> s
     \<and> g_final s \<noteq> None \<and> contents (g_disk s) ''f'' = Some ''[]''"
proof -
  let ?e = "\<lambda>_ :: proxy list. Some ''[]''" and ?d = "\<lparr>d_names = [(''f'', 0)], d_data = [''old'']\<rparr>"
  let ?v = "\<lparr>sv_text = ''[]'', sv_pc = AtMkdir, sv_aborted = False\<rparr>"
  let ?s0 = "saving_start ?d state_new :: nat saving"
  have d: "disk_ok ?d" by (simp add: disk_ok_def tbl_get_def)
  from saving_reachable.step [OF saving_reachable.step [OF saving_reachable.start saving_step.ctrl_c [of ?s0]]
      saving_step.begin_final [of _ ?e ?v]]
  have 1: "saving_reachable ?e ''f'' ?d (?s0\<lparr>g_down := True, g_final := Some ?v\<rparr>)"
    by (simp add: start_save_def saving_start_def idle_def)
  obtain d' where "(saver_step ''f'')\<^sup>*\<^sup>* (?v, ?d) (?v\<lparr>sv_pc := Saved\<rparr>, d')"
    using save_completes [OF _ _ _ d, of ?v "''f''"] by auto
  from final_run [OF this 1]
  have r: "saving_reachable ?e ''f'' ?d
      (?s0\<lparr>g_down := True, g_final := Some (?v\<lparr>sv_pc := Saved\<rparr>), g_disk := d'\<rparr>)" (is "saving_reachable _ _ _ ?s")
    by (simp add: saving_start_def)
  have "contents (g_disk ?s) ''f'' = Some ''[]''"
    using state_file_always_whole [OF r d] by (simp add: saving_start_def)
  with r show ?thesis by (intro exI [of _ ?s]) simp
qed

text \<open>
  C40: a save by itself, taken through all its file-system calls with any of them failing or
  cutting a write short, changes the files like the one-step \<open>save_state_to\<close> with some fault,
  and like the one without a fault exactly if it was saved.
\<close>

theorem save_refines_files:
  assumes "start_save encode st = Some v" "(saver_step path)\<^sup>*\<^sup>* (v, d) (v', d')" "finished v'"
    and "disk_ok d" "contents d = tbl_get fs"
  shows "\<exists>fault. contents d' = tbl_get (save_state_to encode fault path st fs)
    \<and> (sv_pc v' = Saved \<longleftrightarrow> fault = NoFault)"
proof -
  have v: "encode (to_save st) = Some (sv_text v)" "sv_pc v = AtMkdir" "\<not> sv_aborted v"
    using assms(1) by (auto simp: start_save_def)
  have out: "outcome path (sv_text v) (tbl_get fs) (sv_pc v') (contents d')"
    using outcome_run [OF assms(2) v(2,3) assms(4)] assms(5) by metis
  consider "sv_pc v' = Saved" | "sv_pc v' = Failed" "contents d' = tbl_get fs"
    | part where "sv_pc v' = Failed" "contents d' = (tbl_get fs)(tmp_path path \<mapsto> part)"
    using out assms(3) by (auto simp: finished_def)
  then show ?thesis
  proof cases
    case 1
    with out v(1) show ?thesis
      by (intro exI [of _ NoFault]) (auto simp: save_state_to_def fun_eq_iff)
  next
    case 2
    with v(1) show ?thesis by (intro exI [of _ MkdirFails]) (simp add: save_state_to_def)
  next
    case 3
    with v(1) show ?thesis
      by (intro exI [of _ "WriteFails part"]) (auto simp: save_state_to_def fun_eq_iff)
  qed
qed


theorem save_refines_files_witness:
  "\<exists>d'. (saver_step ''f'')\<^sup>*\<^sup>* (\<lparr>sv_text = ''[]'', sv_pc = AtMkdir, sv_aborted = False\<rparr>, \<lparr>d_names = [], d_data = []\<rparr>)
       (\<lparr>sv_text = ''[]'', sv_pc = Saved, sv_aborted = False\<rparr>, d')
     \<and> contents d' = tbl_get (save_state_to (\<lambda>_. Some ''[]'') NoFault ''f'' (state_new :: nat shared_state) [])"
proof -
  let ?v = "\<lparr>sv_text = ''[]'', sv_pc = AtMkdir, sv_aborted = False\<rparr>" and ?d = "\<lparr>d_names = [], d_data = []\<rparr>"
  have d: "disk_ok ?d" "contents ?d = tbl_get []" by (auto simp: disk_ok_def contents_def fun_eq_iff)
  obtain d' where run: "(saver_step ''f'')\<^sup>*\<^sup>* (?v, ?d) (?v\<lparr>sv_pc := Saved\<rparr>, d')"
    using save_completes [OF _ _ _ d(1), of ?v "''f''"] by auto
  with save_refines_files [OF _ run _ d, of "\<lambda>_. Some ''[]''" "state_new :: nat shared_state"]
  show ?thesis by (intro exI [of _ d']) (auto simp: start_save_def finished_def)
qed

theorem shutdown_can_garble_witness:
  "\<exists>s :: nat saving. saving_reachable (\<lambda>ps. Some (if ps = [] then ''[]'' else ''[p]'')) ''f'' \<lparr>d_names = [], d_data = []\<rparr> s
     \<and> (\<exists>v. g_final s = Some v \<and> sv_pc v = Saved \<and> sv_text v = ''[p]'')
     \<and> contents (g_disk s) ''f'' = Some ''[]]''"
proof -
  let ?p = "Proxy.record_success (Fin 5) \<lparr>inst = 0, utc = 0\<rparr> (proxy_new ''a'' 80 Http)"
  let ?e = "\<lambda>ps :: proxy list. Some (if ps = [] then ''[]'' else ''[p]'')"
  have "?e (to_save (state_new :: nat shared_state)) = Some ''[]''"
    by (simp add: to_save_def all_proxies_def tbl_vals_def state_new_def)
  moreover have "?e (to_save (state_new\<lparr>proxies := [(proxy_key ?p, ?p)]\<rparr> :: nat shared_state)) = Some ''[p]''"
    by (simp add: to_save_def all_proxies_def tbl_vals_def)
  moreover have "disk_ok \<lparr>d_names = [], d_data = []\<rparr>" by (simp add: disk_ok_def)
  ultimately show ?thesis
    using shutdown_can_garble [of ?e "state_new :: nat shared_state" "''[]''" _ "''[p]''" _ "''f''"] by fastforce
qed

end
