(* ===== verification/WarmLocks.thy ===== *)
theory WarmLocks
  imports WarmPool
begin

text \<open>
  The locks of \<open>src/pool/warm_pool.rs\<close>.  \<open>take\<close> keeps the guard of \<open>connections.get\<close>, a read lock
  on the shard of the key, while it awaits the mutex of the queue; \<open>refresh\<close> keeps the mutex of a
  queue while it connects, and then calls \<open>entry\<close> for the next key, which blocks its thread until
  the shard of that key has no reader.  A task that awaits gives its worker thread back; one that
  blocks on a shard does not.  The tokio mutex is fair: a release hands it to the first waiter.

  \<open>shard\<close> (the hash of a \<open>DashMap\<close>), the number of worker threads and the slot of tokio's
  scheduler are parameters: a task woken by a running task goes into the slot of that worker,
  which other workers cannot steal from (\<open>lifo\<close>), or into the common queue.  The connections
  themselves are in theory \<open>WarmPool\<close>.
\<close>

section \<open>Tasks and locks\<close>

datatype place = Ready | InSlot | OnWorker | Waiting | Connecting | Finished

datatype take_pc = TGet | TLock | TPop | TDone

record taker =
  tk_key :: string
  tk_pc :: take_pc
  tk_place :: place

datatype refresh_pc = RRetain "nat list" | REntry | RLock | RFill | RDone

datatype warm_task = Refresher | Taker nat

record locks =
  lk_keys :: "string list"
  lk_queue :: "string \<Rightarrow> warm_task list"
  lk_takers :: "taker list"
  rf_pc :: refresh_pc
  rf_place :: place
  rf_todo :: "string list"

text \<open>The guard of the shard lives from \<open>get\<close> to the end of \<open>take\<close>.\<close>

definition reading :: "taker \<Rightarrow> bool" where
  "reading tk \<longleftrightarrow> tk_pc tk \<in> {TLock, TPop}"

definition has_reader :: "(string \<Rightarrow> nat) \<Rightarrow> nat \<Rightarrow> locks \<Rightarrow> bool" where
  "has_reader shard j s \<longleftrightarrow> (\<exists>tk \<in> set (lk_takers s). reading tk \<and> shard (tk_key tk) = j)"

definition busy_workers :: "locks \<Rightarrow> nat" where
  "busy_workers s = length (filter (\<lambda>tk. tk_place tk = OnWorker) (lk_takers s))
     + (if rf_place s = OnWorker then 1 else 0)"

definition set_taker :: "nat \<Rightarrow> take_pc \<Rightarrow> place \<Rightarrow> locks \<Rightarrow> locks" where
  "set_taker i pc pl s =
     s\<lparr>lk_takers := (lk_takers s)[i := (lk_takers s ! i)\<lparr>tk_pc := pc, tk_place := pl\<rparr>]\<rparr>"

definition set_queue :: "string \<Rightarrow> warm_task list \<Rightarrow> locks \<Rightarrow> locks" where
  "set_queue k q s = s\<lparr>lk_queue := (lk_queue s)(k := q)\<rparr>"

text \<open>A task put into the slot moves the one before it to the common queue.\<close>

definition to_slot :: "nat \<Rightarrow> locks \<Rightarrow> locks" where
  "to_slot i s = set_taker i TPop InSlot
     (s\<lparr>lk_takers := map (\<lambda>tk. if tk_place tk = InSlot then tk\<lparr>tk_place := Ready\<rparr> else tk) (lk_takers s)\<rparr>)"

text \<open>The first waiter owns the mutex from now on and is woken.\<close>

definition grant_mutex :: "bool \<Rightarrow> warm_task \<Rightarrow> locks \<Rightarrow> locks" where
  "grant_mutex slot t s =
     (case t of
        Refresher \<Rightarrow> s\<lparr>rf_pc := RFill, rf_place := Ready\<rparr>
      | Taker i \<Rightarrow> if slot then to_slot i s else set_taker i TPop Ready s)"

definition release_mutex :: "bool \<Rightarrow> string \<Rightarrow> locks \<Rightarrow> locks" where
  "release_mutex slot k s =
     (case tl (lk_queue s k) of
        [] \<Rightarrow> set_queue k [] s
      | t # q \<Rightarrow> grant_mutex slot t (set_queue k (t # q) s))"

section \<open>Steps\<close>

text \<open>
  The steps of a taker, of the refresher and of the scheduler with \<open>w\<close> worker threads.  The last
  task of a worker's slot runs when the worker is free, that is when the refresher, the only task
  that goes on after waking another one, has given its worker back.
\<close>

inductive lock_step ::
  "(string \<Rightarrow> nat) \<Rightarrow> bool \<Rightarrow> nat \<Rightarrow> string list \<Rightarrow> locks \<Rightarrow> locks \<Rightarrow> bool" for shard lifo w active where
  run_taker: "i < length (lk_takers s) \<Longrightarrow> busy_workers s < w \<Longrightarrow>
    tk_place (lk_takers s ! i) = Ready \<or> tk_place (lk_takers s ! i) = InSlot \<and> rf_place s \<noteq> OnWorker \<Longrightarrow>
    lock_step shard lifo w active s (set_taker i (tk_pc (lk_takers s ! i)) OnWorker s)"
| take_miss: "i < length (lk_takers s) \<Longrightarrow> lk_takers s ! i = \<lparr>tk_key = k, tk_pc = TGet, tk_place = OnWorker\<rparr> \<Longrightarrow>
    k \<notin> set (lk_keys s) \<Longrightarrow> lock_step shard lifo w active s (set_taker i TDone Finished s)"
| take_get: "i < length (lk_takers s) \<Longrightarrow> lk_takers s ! i = \<lparr>tk_key = k, tk_pc = TGet, tk_place = OnWorker\<rparr> \<Longrightarrow>
    k \<in> set (lk_keys s) \<Longrightarrow> lock_step shard lifo w active s (set_taker i TLock OnWorker s)"
| take_lock: "i < length (lk_takers s) \<Longrightarrow> lk_takers s ! i = \<lparr>tk_key = k, tk_pc = TLock, tk_place = OnWorker\<rparr> \<Longrightarrow>
    lk_queue s k = [] \<Longrightarrow>
    lock_step shard lifo w active s (set_queue k [Taker i] (set_taker i TPop OnWorker s))"
| take_wait: "i < length (lk_takers s) \<Longrightarrow> lk_takers s ! i = \<lparr>tk_key = k, tk_pc = TLock, tk_place = OnWorker\<rparr> \<Longrightarrow>
    lk_queue s k \<noteq> [] \<Longrightarrow>
    lock_step shard lifo w active s (set_queue k (lk_queue s k @ [Taker i]) (set_taker i TLock Waiting s))"
| take_pop: "i < length (lk_takers s) \<Longrightarrow> lk_takers s ! i = \<lparr>tk_key = k, tk_pc = TPop, tk_place = OnWorker\<rparr> \<Longrightarrow>
    lock_step shard lifo w active s (release_mutex False k (set_taker i TDone Finished s))"
| run_refresh: "rf_place s = Ready \<Longrightarrow> busy_workers s < w \<Longrightarrow>
    lock_step shard lifo w active s (s\<lparr>rf_place := OnWorker\<rparr>)"
| retain: "rf_place s = OnWorker \<Longrightarrow> rf_pc s = RRetain (j # js) \<Longrightarrow> \<not> has_reader shard j s \<Longrightarrow>
    lock_step shard lifo w active s
      (s\<lparr>lk_keys := filter (\<lambda>k. shard k = j \<longrightarrow> k \<in> set active) (lk_keys s), rf_pc := RRetain js\<rparr>)"
| retained: "rf_place s = OnWorker \<Longrightarrow> rf_pc s = RRetain [] \<Longrightarrow>
    lock_step shard lifo w active s (s\<lparr>rf_pc := REntry\<rparr>)"
| entry: "rf_place s = OnWorker \<Longrightarrow> rf_pc s = REntry \<Longrightarrow> rf_todo s = k # ks \<Longrightarrow> \<not> has_reader shard (shard k) s \<Longrightarrow>
    lock_step shard lifo w active s (s\<lparr>lk_keys := List.insert k (lk_keys s), rf_pc := RLock\<rparr>)"
| refresh_lock: "rf_place s = OnWorker \<Longrightarrow> rf_pc s = RLock \<Longrightarrow> rf_todo s = k # ks \<Longrightarrow> lk_queue s k = [] \<Longrightarrow>
    lock_step shard lifo w active s (set_queue k [Refresher] (s\<lparr>rf_pc := RFill\<rparr>))"
| refresh_wait: "rf_place s = OnWorker \<Longrightarrow> rf_pc s = RLock \<Longrightarrow> rf_todo s = k # ks \<Longrightarrow> lk_queue s k \<noteq> [] \<Longrightarrow>
    lock_step shard lifo w active s (set_queue k (lk_queue s k @ [Refresher]) (s\<lparr>rf_place := Waiting\<rparr>))"
| connect: "rf_place s = OnWorker \<Longrightarrow> rf_pc s = RFill \<Longrightarrow>
    lock_step shard lifo w active s (s\<lparr>rf_place := Connecting\<rparr>)"
| connected: "rf_place s = Connecting \<Longrightarrow> lock_step shard lifo w active s (s\<lparr>rf_place := Ready\<rparr>)"
| filled: "rf_place s = OnWorker \<Longrightarrow> rf_pc s = RFill \<Longrightarrow> rf_todo s = k # ks \<Longrightarrow>
    lock_step shard lifo w active s (release_mutex lifo k (s\<lparr>rf_pc := REntry, rf_todo := ks\<rparr>))"
| refreshed: "rf_place s = OnWorker \<Longrightarrow> rf_pc s = REntry \<Longrightarrow> rf_todo s = [] \<Longrightarrow>
    lock_step shard lifo w active s (s\<lparr>rf_pc := RDone, rf_place := Finished\<rparr>)"

inductive_cases lock_stepE: "lock_step shard lifo w active s s'"

lemmas lock_step_cases = lock_stepE [consumes 1, case_names run_taker take_miss take_get take_lock
  take_wait take_pop run_refresh retain retained entry refresh_lock refresh_wait connect connected
  filled refreshed]

text \<open>
  A refresh of the proxies \<open>tops\<close> among takers of the keys \<open>ks\<close>, with \<open>n\<close> shards; \<open>held\<close> are
  the keys that have a queue.
\<close>

definition lock_start :: "nat \<Rightarrow> string list \<Rightarrow> string list \<Rightarrow> string list \<Rightarrow> nat \<Rightarrow> locks" where
  "lock_start n held ks tops limit =
     \<lparr>lk_keys = held, lk_queue = (\<lambda>_. []),
      lk_takers = map (\<lambda>k. \<lparr>tk_key = k, tk_pc = TGet, tk_place = Ready\<rparr>) ks,
      rf_pc = RRetain [0..<n], rf_place = Ready, rf_todo = take limit tops\<rparr>"

definition all_done :: "locks \<Rightarrow> bool" where
  "all_done s \<longleftrightarrow> rf_place s = Finished \<and> list_all (\<lambda>tk. tk_place tk = Finished) (lk_takers s)"


section \<open>Mutexes are consistent\<close>

text \<open>
  A fair mutex, abstractly: the head of its queue is the one task that holds it, the others
  are the ones that wait.
\<close>

definition mutex_ok ::
  "(string \<Rightarrow> warm_task list) \<Rightarrow> (warm_task \<Rightarrow> string \<Rightarrow> bool) \<Rightarrow> (warm_task \<Rightarrow> string \<Rightarrow> bool) \<Rightarrow> bool" where
  "mutex_ok q H A \<longleftrightarrow> (\<forall>k. distinct (q k) \<and> (\<forall>t. H t k \<longleftrightarrow> (\<exists>r. q k = t # r))
     \<and> (\<forall>t. A t k \<longleftrightarrow> t \<in> set (tl (q k))))"

lemma mutex_holder: "mutex_ok q H A \<Longrightarrow> H t k \<Longrightarrow> \<exists>r. q k = t # r"
  unfolding mutex_ok_def by blast

lemma mutex_waiter: "mutex_ok q H A \<Longrightarrow> A t k \<Longrightarrow> \<exists>t'. H t' k"
  unfolding mutex_ok_def by (metis list.sel(2) list.exhaust_sel list.set_cases neq_Nil_conv)

lemma mutex_acquire:
  assumes "mutex_ok q H A" "q k = []"
    and "\<And>t' k'. H' t' k' \<longleftrightarrow> H t' k' \<or> t' = t \<and> k' = k" "\<And>t' k'. A' t' k' \<longleftrightarrow> A t' k'"
  shows "mutex_ok (q(k := [t])) H' A'"
  using assms by (auto simp: mutex_ok_def)

lemma mutex_enqueue:
  assumes "mutex_ok q H A" "q k \<noteq> []" "\<not> H t k" "\<not> A t k"
    and "\<And>t' k'. H' t' k' \<longleftrightarrow> H t' k'" "\<And>t' k'. A' t' k' \<longleftrightarrow> A t' k' \<or> t' = t \<and> k' = k"
  shows "mutex_ok (q(k := q k @ [t])) H' A'"
proof -
  obtain x r where q: "q k = x # r" using assms(2) by (cases "q k") auto
  with assms(1,3,4) have "t \<noteq> x" "t \<notin> set r" by (auto simp: mutex_ok_def)
  moreover have "distinct (x # r)" using assms(1) q unfolding mutex_ok_def by metis
  ultimately show ?thesis using assms(1,5,6) q by (auto simp: mutex_ok_def)
qed

lemma mutex_release:
  assumes "mutex_ok q H A" "q k = t # r"
    and "\<And>t' k'. H' t' k' \<longleftrightarrow> H t' k' \<and> (t', k') \<noteq> (t, k) \<or> k' = k \<and> (\<exists>r'. r = t' # r')"
    and "\<And>t' k'. A' t' k' \<longleftrightarrow> A t' k' \<and> \<not> (k' = k \<and> (\<exists>r'. r = t' # r'))"
  shows "mutex_ok (q(k := r)) H' A'"
proof -
  have "distinct r" "t \<notin> set r" using assms(1,2) unfolding mutex_ok_def by (metis distinct.simps(2))+
  moreover have "H t' k \<longleftrightarrow> t' = t" "A t' k \<longleftrightarrow> t' \<in> set r" for t'
    using assms(1,2) by (auto simp: mutex_ok_def)
  ultimately show ?thesis using assms(1) unfolding mutex_ok_def assms(3,4) by (cases r) auto
qed

definition holds :: "locks \<Rightarrow> warm_task \<Rightarrow> string \<Rightarrow> bool" where
  "holds s t k \<longleftrightarrow>
     (case t of
        Refresher \<Rightarrow> rf_pc s = RFill \<and> (\<exists>ks. rf_todo s = k # ks)
      | Taker i \<Rightarrow> i < length (lk_takers s) \<and> tk_key (lk_takers s ! i) = k \<and> tk_pc (lk_takers s ! i) = TPop)"

definition awaits :: "locks \<Rightarrow> warm_task \<Rightarrow> string \<Rightarrow> bool" where
  "awaits s t k \<longleftrightarrow>
     (case t of
        Refresher \<Rightarrow> rf_pc s = RLock \<and> rf_place s = Waiting \<and> (\<exists>ks. rf_todo s = k # ks)
      | Taker i \<Rightarrow> i < length (lk_takers s) \<and> tk_key (lk_takers s ! i) = k
          \<and> tk_pc (lk_takers s ! i) = TLock \<and> tk_place (lk_takers s ! i) = Waiting)"

lemma holds_of [simp]:
  "holds s (Taker i) k \<longleftrightarrow> i < length (lk_takers s) \<and> tk_key (lk_takers s ! i) = k \<and> tk_pc (lk_takers s ! i) = TPop"
  "holds s Refresher k \<longleftrightarrow> rf_pc s = RFill \<and> (\<exists>ks. rf_todo s = k # ks)"
  by (simp_all add: holds_def)

lemma awaits_of [simp]:
  "awaits s (Taker i) k \<longleftrightarrow> i < length (lk_takers s) \<and> tk_key (lk_takers s ! i) = k
     \<and> tk_pc (lk_takers s ! i) = TLock \<and> tk_place (lk_takers s ! i) = Waiting"
  "awaits s Refresher k \<longleftrightarrow> rf_pc s = RLock \<and> rf_place s = Waiting \<and> (\<exists>ks. rf_todo s = k # ks)"
  by (simp_all add: awaits_def)

text \<open>Places and program points that fit together, without slots.\<close>

definition taker_ok :: "taker \<Rightarrow> bool" where
  "taker_ok tk \<longleftrightarrow> (tk_place tk = Waiting \<longrightarrow> tk_pc tk = TLock)
     \<and> (tk_place tk = Finished \<longleftrightarrow> tk_pc tk = TDone) \<and> tk_place tk \<notin> {Connecting, InSlot}"

definition refresher_ok :: "locks \<Rightarrow> bool" where
  "refresher_ok s \<longleftrightarrow> (rf_place s = Waiting \<longrightarrow> rf_pc s = RLock) \<and> (rf_place s = Connecting \<longrightarrow> rf_pc s = RFill)
     \<and> (rf_pc s \<in> {RLock, RFill} \<longrightarrow> rf_todo s \<noteq> []) \<and> (rf_place s = Finished \<longleftrightarrow> rf_pc s = RDone)
     \<and> rf_place s \<noteq> InSlot"

definition locks_ok :: "locks \<Rightarrow> bool" where
  "locks_ok s \<longleftrightarrow> mutex_ok (lk_queue s) (holds s) (awaits s)
     \<and> list_all taker_ok (lk_takers s) \<and> refresher_ok s"

lemma set_taker_simps [simp]:
  "lk_queue (set_taker i pc pl s) = lk_queue s" "rf_pc (set_taker i pc pl s) = rf_pc s"
  "rf_place (set_taker i pc pl s) = rf_place s" "rf_todo (set_taker i pc pl s) = rf_todo s"
  "lk_keys (set_taker i pc pl s) = lk_keys s"
  "length (lk_takers (set_taker i pc pl s)) = length (lk_takers s)"
  "refresher_ok (set_taker i pc pl s) = refresher_ok s"
  by (simp_all add: set_taker_def refresher_ok_def)

lemma set_queue_simps [simp]:
  "lk_queue (set_queue k q s) = (lk_queue s)(k := q)" "lk_takers (set_queue k q s) = lk_takers s"
  "rf_pc (set_queue k q s) = rf_pc s" "rf_place (set_queue k q s) = rf_place s"
  "rf_todo (set_queue k q s) = rf_todo s" "lk_keys (set_queue k q s) = lk_keys s"
  "holds (set_queue k q s) = holds s" "awaits (set_queue k q s) = awaits s"
  "refresher_ok (set_queue k q s) = refresher_ok s"
  by (simp_all add: set_queue_def holds_def awaits_def refresher_ok_def fun_eq_iff split: warm_task.split)

lemma holds_set_taker:
  "holds (set_taker i pc pl s) t k \<longleftrightarrow>
     (if t = Taker i then i < length (lk_takers s) \<and> tk_key (lk_takers s ! i) = k \<and> pc = TPop else holds s t k)"
  by (auto simp: holds_def set_taker_def nth_list_update split: warm_task.split)

lemma awaits_set_taker:
  "awaits (set_taker i pc pl s) t k \<longleftrightarrow>
     (if t = Taker i then i < length (lk_takers s) \<and> tk_key (lk_takers s ! i) = k \<and> pc = TLock \<and> pl = Waiting
      else awaits s t k)"
  by (auto simp: awaits_def set_taker_def nth_list_update split: warm_task.split)

lemma takers_ok_set:
  assumes "list_all taker_ok (lk_takers s)"
    and "(pl = Waiting \<longrightarrow> pc = TLock) \<and> (pl = Finished \<longleftrightarrow> pc = TDone) \<and> pl \<notin> {Connecting, InSlot}"
  shows "list_all taker_ok (lk_takers (set_taker i pc pl s))"
proof -
  have "taker_ok ((lk_takers s ! i)\<lparr>tk_pc := pc, tk_place := pl\<rparr>)" using assms(2) by (simp add: taker_ok_def)
  with assms(1) show ?thesis
    using set_update_subset_insert [of "lk_takers s" i "(lk_takers s ! i)\<lparr>tk_pc := pc, tk_place := pl\<rparr>"]
    by (auto simp: list_all_iff set_taker_def)
qed

text \<open>A release by a task that no longer counts as the holder.\<close>

lemma release_ok:
  assumes "mutex_ok (lk_queue s) H A" "H t k"
    and "\<And>t' k'. holds s t' k' \<longleftrightarrow> H t' k' \<and> (t', k') \<noteq> (t, k)" "awaits s = A"
    and "list_all taker_ok (lk_takers s)" "refresher_ok s"
  shows "locks_ok (release_mutex False k s)"
proof -
  obtain r where q: "lk_queue s k = t # r" using mutex_holder [OF assms(1,2)] by blast
  show ?thesis
  proof (cases r)
    case Nil
    with mutex_release [OF assms(1) q, of "holds s" "awaits s"] assms(3-6)
    show ?thesis by (simp add: locks_ok_def release_mutex_def q)
  next
    case (Cons u r')
    have u: "awaits s u k" using assms(1,4) q Cons by (auto simp: mutex_ok_def)
    let ?s' = "grant_mutex False u (set_queue k r s)"
    have other: "tk = u \<Longrightarrow> k' \<noteq> k \<Longrightarrow> \<not> awaits s tk k'" for tk k'
      using u by (auto simp: awaits_def split: warm_task.splits)
    have "mutex_ok ((lk_queue s)(k := r)) (holds ?s') (awaits ?s')"
    proof (rule mutex_release [OF assms(1) q])
      fix t' k'
      have "holds ?s' t' k' \<longleftrightarrow> (if t' = u then k' = k else holds s t' k')"
        using u by (auto simp: grant_mutex_def holds_def awaits_def set_taker_def set_queue_def nth_list_update
            split: warm_task.splits)
      moreover have "\<not> holds s u k'" using u by (auto simp: holds_def awaits_def split: warm_task.splits)
      ultimately show "holds ?s' t' k' \<longleftrightarrow> H t' k' \<and> (t', k') \<noteq> (t, k) \<or> k' = k \<and> (\<exists>r'. r = t' # r')"
        using assms(3) Cons by auto
      have "awaits ?s' t' k' \<longleftrightarrow> awaits s t' k' \<and> t' \<noteq> u"
        using u by (auto simp: grant_mutex_def awaits_def set_taker_def set_queue_def nth_list_update
            split: warm_task.splits)
      then show "awaits ?s' t' k' \<longleftrightarrow> A t' k' \<and> \<not> (k' = k \<and> (\<exists>r'. r = t' # r'))"
        using other [of t' k'] assms(4) Cons by auto
    qed
    moreover have "list_all taker_ok (lk_takers ?s')"
      using takers_ok_set [of "set_queue k r s" Ready TPop] assms(5)
      by (auto simp: grant_mutex_def split: warm_task.split)
    moreover have "refresher_ok ?s'"
      using u assms(6) by (auto simp: grant_mutex_def refresher_ok_def awaits_def set_queue_def split: warm_task.splits)
    moreover have "lk_queue ?s' = (lk_queue s)(k := r)" by (auto simp: grant_mutex_def split: warm_task.split)
    ultimately show ?thesis by (simp add: locks_ok_def release_mutex_def q Cons)
  qed
qed


lemma locks_ok_same:
  assumes "locks_ok s" "lk_queue s' = lk_queue s" "holds s' = holds s" "awaits s' = awaits s"
    and "list_all taker_ok (lk_takers s')" "refresher_ok s'"
  shows "locks_ok s'"
  using assms by (simp add: locks_ok_def)

lemma taker_at: "locks_ok s \<Longrightarrow> i < length (lk_takers s) \<Longrightarrow> taker_ok (lk_takers s ! i)"
  by (simp add: locks_ok_def list_all_length)

text \<open>A taker that moves without touching a mutex.\<close>

lemma move_taker_ok:
  assumes "locks_ok s" "i < length (lk_takers s)" "tk_place (lk_takers s ! i) \<noteq> Waiting"
    and "pc = TPop \<longleftrightarrow> tk_pc (lk_takers s ! i) = TPop" "pl \<in> {OnWorker, Finished}"
    and "pl = Finished \<longleftrightarrow> pc = TDone"
  shows "locks_ok (set_taker i pc pl s)"
proof (rule locks_ok_same [OF assms(1)])
  show "holds (set_taker i pc pl s) = holds s"
    using assms(2,4) by (auto simp: fun_eq_iff holds_set_taker)
  show "awaits (set_taker i pc pl s) = awaits s"
    using assms(2,3,5) by (auto simp: fun_eq_iff awaits_set_taker)
  show "list_all taker_ok (lk_takers (set_taker i pc pl s))"
    using assms(1,5,6) by (intro takers_ok_set) (auto simp: locks_ok_def)
qed (use assms(1) in \<open>simp_all add: locks_ok_def\<close>)

lemma move_refresher_ok:
  assumes "locks_ok s" "lk_queue s' = lk_queue s" "lk_takers s' = lk_takers s" "rf_todo s' = rf_todo s"
    and "rf_pc s' = RFill \<longleftrightarrow> rf_pc s = RFill" "rf_place s \<noteq> Waiting" "rf_place s' \<noteq> Waiting" "refresher_ok s'"
  shows "locks_ok s'"
proof (rule locks_ok_same [OF assms(1,2)])
  show "holds s' = holds s" using assms(3-5) by (auto simp: fun_eq_iff holds_def split: warm_task.split)
  show "awaits s' = awaits s" using assms(3,4,6,7) by (auto simp: fun_eq_iff awaits_def split: warm_task.split)
qed (use assms(1,3,8) in \<open>simp_all add: locks_ok_def\<close>)

lemma lock_step_ok:
  assumes "lock_step shard False w active s s'" "locks_ok s"
  shows "locks_ok s'"
  using assms(1)
proof (cases rule: lock_step_cases)
  case (run_taker i)
  then show ?thesis
    using taker_at [OF assms(2) run_taker(2)] by (auto simp: taker_ok_def intro!: move_taker_ok [OF assms(2)])
next
  case (take_miss i k)
  then show ?thesis by (auto intro!: move_taker_ok [OF assms(2)])
next
  case (take_get i k)
  then show ?thesis by (auto intro!: move_taker_ok [OF assms(2)])
next
  case (take_lock i k)
  have "mutex_ok ((lk_queue s)(k := [Taker i])) (holds (set_taker i TPop OnWorker s)) (awaits (set_taker i TPop OnWorker s))"
    using assms(2) take_lock
    by (intro mutex_acquire [of _ "holds s" "awaits s"])
      (auto simp: locks_ok_def holds_set_taker awaits_set_taker)
  moreover have "list_all taker_ok (lk_takers (set_taker i TPop OnWorker s))"
    using assms(2) by (intro takers_ok_set) (simp_all add: locks_ok_def)
  ultimately show ?thesis using assms(2) by (simp add: take_lock(1) locks_ok_def)
next
  case (take_wait i k)
  have "mutex_ok ((lk_queue s)(k := lk_queue s k @ [Taker i])) (holds (set_taker i TLock Waiting s))
      (awaits (set_taker i TLock Waiting s))"
    using assms(2) take_wait
    by (intro mutex_enqueue [of _ "holds s" "awaits s"])
      (auto simp: locks_ok_def holds_set_taker awaits_set_taker)
  moreover have "list_all taker_ok (lk_takers (set_taker i TLock Waiting s))"
    using assms(2) by (intro takers_ok_set) (simp_all add: locks_ok_def)
  ultimately show ?thesis using assms(2) by (simp add: take_wait(1) locks_ok_def)
next
  case (take_pop i k)
  have "locks_ok (release_mutex False k (set_taker i TDone Finished s))"
  proof (rule release_ok [of _ "holds s" "awaits s" "Taker i"])
    show "list_all taker_ok (lk_takers (set_taker i TDone Finished s))"
      using assms(2) by (intro takers_ok_set) (simp_all add: locks_ok_def)
  qed (use assms(2) take_pop in \<open>auto simp: locks_ok_def holds_set_taker awaits_set_taker fun_eq_iff\<close>)
  then show ?thesis by (simp add: take_pop(1))
next
  case (refresh_lock k ks)
  have "mutex_ok ((lk_queue s)(k := [Refresher])) (holds (s\<lparr>rf_pc := RFill\<rparr>)) (awaits (s\<lparr>rf_pc := RFill\<rparr>))"
    using assms(2) refresh_lock
    by (intro mutex_acquire [of _ "holds s" "awaits s"])
      (auto simp: locks_ok_def holds_def awaits_def split: warm_task.split)
  with assms(2) refresh_lock show ?thesis by (auto simp: locks_ok_def refresher_ok_def)
next
  case (refresh_wait k ks)
  have "mutex_ok ((lk_queue s)(k := lk_queue s k @ [Refresher])) (holds (s\<lparr>rf_place := Waiting\<rparr>))
      (awaits (s\<lparr>rf_place := Waiting\<rparr>))"
    using assms(2) refresh_wait
    by (intro mutex_enqueue [of _ "holds s" "awaits s"])
      (auto simp: locks_ok_def holds_def awaits_def split: warm_task.split)
  with assms(2) refresh_wait show ?thesis by (auto simp: locks_ok_def refresher_ok_def)
next
  case (filled k ks)
  have "locks_ok (release_mutex False k (s\<lparr>rf_pc := REntry, rf_todo := ks\<rparr>))"
    by (rule release_ok [of _ "holds s" "awaits s" Refresher])
      (use assms(2) filled in \<open>auto simp: locks_ok_def refresher_ok_def holds_def awaits_def fun_eq_iff
        split: warm_task.split\<close>)
  then show ?thesis by (simp add: filled(1))
qed (rule move_refresher_ok [OF assms(2)]; use assms(2) in \<open>auto simp: locks_ok_def refresher_ok_def\<close>)+


text \<open>What the tasks can reach: any number of steps in any order.\<close>

abbreviation lock_runs ::
  "(string \<Rightarrow> nat) \<Rightarrow> bool \<Rightarrow> nat \<Rightarrow> string list \<Rightarrow> locks \<Rightarrow> locks \<Rightarrow> bool" where
  "lock_runs shard lifo w active \<equiv> (lock_step shard lifo w active)\<^sup>*\<^sup>*"

lemma lock_start_ok: "locks_ok (lock_start n held ks tops limit)"
  by (auto simp: locks_ok_def lock_start_def mutex_ok_def holds_def awaits_def taker_ok_def refresher_ok_def
      list_all_iff split: warm_task.split)

lemma reachable_locks_ok:
  "lock_runs shard False w active (lock_start n held ks tops limit) s \<Longrightarrow> locks_ok s"
  by (induction rule: rtranclp_induct) (auto intro: lock_start_ok lock_step_ok)

section \<open>Progress\<close>

lemma taker_on_worker_moves:
  assumes "locks_ok s" "i < length (lk_takers s)" "tk_place (lk_takers s ! i) = OnWorker"
  shows "\<exists>s'. lock_step shard lifo w active s s'"
proof -
  obtain k where tk: "lk_takers s ! i = \<lparr>tk_key = k, tk_pc = tk_pc (lk_takers s ! i), tk_place = OnWorker\<rparr>"
    using assms(3) by (cases "lk_takers s ! i") simp
  have "tk_pc (lk_takers s ! i) \<noteq> TDone" using taker_at [OF assms(1,2)] assms(3) by (auto simp: taker_ok_def)
  then consider "tk_pc (lk_takers s ! i) = TGet" | "tk_pc (lk_takers s ! i) = TLock" | "tk_pc (lk_takers s ! i) = TPop"
    by (cases "tk_pc (lk_takers s ! i)") auto
  then show ?thesis
  proof cases
    case 1
    with tk have "lk_takers s ! i = \<lparr>tk_key = k, tk_pc = TGet, tk_place = OnWorker\<rparr>" by simp
    from lock_step.take_miss [OF assms(2) this] lock_step.take_get [OF assms(2) this] show ?thesis by blast
  next
    case 2
    with tk have "lk_takers s ! i = \<lparr>tk_key = k, tk_pc = TLock, tk_place = OnWorker\<rparr>" by simp
    from lock_step.take_lock [OF assms(2) this] lock_step.take_wait [OF assms(2) this] show ?thesis by blast
  next
    case 3
    with tk have "lk_takers s ! i = \<lparr>tk_key = k, tk_pc = TPop, tk_place = OnWorker\<rparr>" by simp
    from lock_step.take_pop [OF assms(2) this] show ?thesis by blast
  qed
qed

lemma busy_one: "\<forall>tk \<in> set (lk_takers s). tk_place tk \<noteq> OnWorker \<Longrightarrow> busy_workers s \<le> 1"
  by (simp add: busy_workers_def filter_False)

text \<open>When every taker waits or is done, whoever waits for a mutex waits for the refresher.\<close>

lemma only_refresher_holds:
  assumes "locks_ok s" "awaits s t k"
    and "\<forall>tk \<in> set (lk_takers s). tk_place tk \<in> {Waiting, Finished}"
  shows "rf_pc s = RFill \<and> t \<noteq> Refresher"
proof -
  obtain t' where t': "holds s t' k" using mutex_waiter [of "lk_queue s" "holds s" "awaits s" t k] assms(1,2)
    by (auto simp: locks_ok_def)
  have "t' = Refresher"
  proof (cases t')
    case (Taker i)
    with t' have i: "i < length (lk_takers s)" "tk_pc (lk_takers s ! i) = TPop" by simp_all
    with taker_at [OF assms(1) i(1)] assms(3) show ?thesis by (auto simp: taker_ok_def)
  qed
  with t' assms(2) show ?thesis by auto
qed

lemma reader_waits:
  assumes "locks_ok s" "has_reader shard j s"
    and "\<forall>tk \<in> set (lk_takers s). tk_place tk \<in> {Waiting, Finished}"
  shows "rf_pc s = RFill"
proof -
  obtain i where i: "i < length (lk_takers s)" "reading (lk_takers s ! i)"
    using assms(2) by (auto simp: has_reader_def in_set_conv_nth)
  then have "awaits s (Taker i) (tk_key (lk_takers s ! i))"
    using taker_at [OF assms(1) i(1)] assms(3) by (auto simp: taker_ok_def reading_def)
  with only_refresher_holds [OF assms(1) _ assms(3)] show ?thesis by blast
qed

lemma refresher_moves:
  assumes "locks_ok s" "\<And>tk. tk \<in> set (lk_takers s) \<Longrightarrow> tk_place tk \<in> {Waiting, Finished}"
    and "busy_workers s < w" "\<not> all_done s"
  shows "\<exists>s'. lock_step shard lifo w active s s'"
proof -
  have quiet: "\<forall>tk \<in> set (lk_takers s). tk_place tk \<in> {Waiting, Finished}" using assms(2) by blast
  have rf: "refresher_ok s" using assms(1) by (simp add: locks_ok_def)
  have todo: "\<exists>k ks. rf_todo s = k # ks" if "rf_pc s \<in> {RLock, RFill}"
    using rf that by (cases "rf_todo s") (auto simp: refresher_ok_def)
  show ?thesis
  proof (cases "rf_place s")
    case Ready
    then show ?thesis using assms(3) by (blast intro: lock_step.run_refresh)
  next
    case Connecting
    then show ?thesis by (blast intro: lock_step.connected)
  next
    case InSlot
    with rf show ?thesis by (simp add: refresher_ok_def)
  next
    case Waiting
    with rf have pc: "rf_pc s = RLock" by (simp add: refresher_ok_def)
    with todo obtain k ks where "rf_todo s = k # ks" by blast
    with pc Waiting have "awaits s Refresher k" by simp
    with only_refresher_holds [OF assms(1) _ quiet] show ?thesis by blast
  next
    case Finished
    with assms(4) obtain i where i: "i < length (lk_takers s)" "tk_place (lk_takers s ! i) \<noteq> Finished"
      by (auto simp: all_done_def list_all_length)
    with quiet have "tk_place (lk_takers s ! i) = Waiting" by auto
    then have "awaits s (Taker i) (tk_key (lk_takers s ! i))"
      using i(1) taker_at [OF assms(1) i(1)] by (simp add: taker_ok_def)
    with only_refresher_holds [OF assms(1) _ quiet] Finished rf show ?thesis by (auto simp: refresher_ok_def)
  next
    case OnWorker
    have free: "\<not> has_reader shard j s" if "rf_pc s \<noteq> RFill" for j
      using reader_waits [OF assms(1) _ quiet] that by blast
    show ?thesis
    proof (cases "rf_pc s")
      case (RRetain js)
      then show ?thesis using OnWorker free
        by (cases js) (auto intro: lock_step.retain lock_step.retained)
    next
      case REntry
      then show ?thesis using OnWorker free
        by (cases "rf_todo s") (auto intro: lock_step.entry lock_step.refreshed)
    next
      case RLock
      with todo obtain k ks where "rf_todo s = k # ks" by blast
      with RLock OnWorker show ?thesis
        by (cases "lk_queue s k = []") (auto intro: lock_step.refresh_lock lock_step.refresh_wait)
    next
      case RFill
      with OnWorker show ?thesis by (blast intro: lock_step.connect)
    next
      case RDone
      with OnWorker rf show ?thesis by (simp add: refresher_ok_def)
    qed
  qed
qed

text \<open>
  C30: if any idle worker may run any task that is ready, two workers are enough: in every state that
  takers and a refresh can reach some step is possible until all of them are done, whatever
  the shards of their keys.
\<close>

theorem warm_pool_progress:
  assumes "lock_runs shard False w active (lock_start n held ks tops limit) s" "2 \<le> w" "\<not> all_done s"
  shows "\<exists>s'. lock_step shard False w active s s'"
proof (cases "\<exists>i < length (lk_takers s). tk_place (lk_takers s ! i) = OnWorker")
  case True
  with taker_on_worker_moves [OF reachable_locks_ok [OF assms(1)]] show ?thesis by blast
next
  case False
  note ok = reachable_locks_ok [OF assms(1)]
  have "\<forall>tk \<in> set (lk_takers s). tk_place tk \<noteq> OnWorker" using False by (auto simp: in_set_conv_nth)
  with busy_one [of s] assms(2) have free: "busy_workers s < w" by simp
  show ?thesis
  proof (cases "\<exists>i < length (lk_takers s). tk_place (lk_takers s ! i) = Ready")
    case True
    with lock_step.run_taker [of _ s w] free show ?thesis by blast
  next
    case none: False
    have quiet: "tk_place tk \<in> {Waiting, Finished}" if "tk \<in> set (lk_takers s)" for tk
    proof -
      from that obtain i where i: "i < length (lk_takers s)" "lk_takers s ! i = tk"
        unfolding in_set_conv_nth by blast
      with False none taker_at [OF ok i(1)] show ?thesis
        by (cases "tk_place tk") (auto simp: taker_ok_def)
    qed
    show ?thesis using refresher_moves [OF ok] quiet free assms(3) by blast
  qed
qed

section \<open>A deadlock\<close>

text \<open>
  The refresher blocks its worker in \<open>entry\<close> until the reader is gone; the reader owns the mutex
  it waited for and is ready, but there is no worker that may run it.
\<close>

definition starved :: "bool \<Rightarrow> string \<Rightarrow> string \<Rightarrow> locks \<Rightarrow> bool" where
  "starved lifo k1 k2 s \<longleftrightarrow> rf_place s = OnWorker \<and> rf_pc s = REntry \<and> (\<exists>r. rf_todo s = k2 # r)
     \<and> 0 < length (lk_takers s)
     \<and> lk_takers s ! 0 = \<lparr>tk_key = k1, tk_pc = TPop, tk_place = (if lifo then InSlot else Ready)\<rparr>
     \<and> (\<forall>k. Taker 0 \<notin> set (tl (lk_queue s k)) \<and> Refresher \<notin> set (tl (lk_queue s k)))"

lemma set_other_taker [simp]:
  "i \<noteq> 0 \<Longrightarrow> 0 < length (lk_takers s) \<Longrightarrow> lk_takers (set_taker i pc pl s) ! 0 = lk_takers s ! 0"
  by (simp add: set_taker_def)

lemma starved_set_taker: "i \<noteq> 0 \<Longrightarrow> starved lifo k1 k2 s \<Longrightarrow> starved lifo k1 k2 (set_taker i pc pl s)"
  by (simp add: starved_def)

lemma starved_release:
  assumes "starved lifo k1 k2 s"
  shows "starved lifo k1 k2 (release_mutex False k s)"
proof (cases "tl (lk_queue s k)")
  case Nil
  with assms show ?thesis by (simp add: starved_def release_mutex_def)
next
  case (Cons t q)
  have "t \<noteq> Taker 0" "t \<noteq> Refresher" "Taker 0 \<notin> set q" "Refresher \<notin> set q"
    using assms Cons unfolding starved_def by (metis list.set_intros)+
  then obtain i where "t = Taker i" "i \<noteq> 0" "Taker 0 \<notin> set q" "Refresher \<notin> set q" by (cases t) auto
  with assms Cons show ?thesis by (auto simp: starved_def release_mutex_def grant_mutex_def)
qed

lemma starved_step:
  assumes "lock_step shard lifo w active s s'" "starved lifo k1 k2 s" "shard k1 = shard k2" "lifo \<or> w = 1"
  shows "starved lifo k1 k2 s'"
proof -
  have "lk_takers s ! 0 \<in> set (lk_takers s)" using assms(2) by (intro nth_mem) (simp add: starved_def)
  then have reader: "has_reader shard (shard k2) s"
    using assms(2,3) unfolding has_reader_def by (intro bexI) (auto simp: starved_def reading_def)
  have "1 \<le> busy_workers s" using assms(2) by (simp add: starved_def busy_workers_def)
  with assms(1,2,4) show ?thesis
  proof (cases rule: lock_step_cases)
    case (run_taker i)
    with assms(2,4) \<open>1 \<le> busy_workers s\<close> have "i \<noteq> 0" by (cases i) (auto simp: starved_def split: if_splits)
    with run_taker assms(2) show ?thesis by (simp add: starved_set_taker)
  next
    case (take_miss i k)
    with assms(2) have "i \<noteq> 0" by (cases i) (auto simp: starved_def)
    with take_miss assms(2) show ?thesis by (simp add: starved_set_taker)
  next
    case (take_get i k)
    with assms(2) have "i \<noteq> 0" by (cases i) (auto simp: starved_def)
    with take_get assms(2) show ?thesis by (simp add: starved_set_taker)
  next
    case (take_lock i k)
    with assms(2) have "i \<noteq> 0" by (cases i) (auto simp: starved_def)
    with take_lock assms(2) show ?thesis by (auto simp: starved_def)
  next
    case (take_wait i k)
    with assms(2) have "i \<noteq> 0" by (cases i) (auto simp: starved_def)
    with take_wait assms(2) show ?thesis by (auto simp: starved_def)
  next
    case (take_pop i k)
    with assms(2) have "i \<noteq> 0" by (cases i) (auto simp: starved_def split: if_splits)
    with take_pop assms(2) show ?thesis by (simp add: starved_set_taker starved_release)
  qed (use assms(2) reader in \<open>auto simp: starved_def\<close>)
qed

lemma starved_forever:
  assumes "lock_runs shard lifo w active s s'" "starved lifo k1 k2 s" "shard k1 = shard k2" "lifo \<or> w = 1"
  shows "starved lifo k1 k2 s'"
  using assms(1) by (induction rule: rtranclp_induct) (use assms(2-) in \<open>auto intro: starved_step\<close>)

text \<open>Passing over the shards when nobody reads.\<close>

lemma retain_run:
  assumes "rf_place s = OnWorker" "rf_pc s = RRetain js" "\<forall>tk \<in> set (lk_takers s). tk_pc tk = TGet"
    and "k \<in> set (lk_keys s)" "k \<in> set active"
  shows "\<exists>keys. k \<in> set keys \<and> lock_runs shard lifo w active s (s\<lparr>lk_keys := keys, rf_pc := REntry\<rparr>)"
  using assms
proof (induction js arbitrary: s)
  case Nil
  then show ?case
    using lock_step.retained [of s shard lifo w active] by (intro exI [of _ "lk_keys s"]) auto
next
  case (Cons j js)
  let ?s' = "s\<lparr>lk_keys := filter (\<lambda>k. shard k = j \<longrightarrow> k \<in> set active) (lk_keys s), rf_pc := RRetain js\<rparr>"
  have "\<not> has_reader shard j s" using Cons.prems(3) by (auto simp: has_reader_def reading_def)
  then have step: "lock_step shard lifo w active s ?s'"
    using Cons.prems by (intro lock_step.retain) auto
  obtain keys where keys: "k \<in> set keys" "lock_runs shard lifo w active ?s' (s\<lparr>lk_keys := keys, rf_pc := REntry\<rparr>)"
    using Cons.IH [of ?s'] Cons.prems by auto
  have "lock_runs shard lifo w active s (s\<lparr>lk_keys := keys, rf_pc := REntry\<rparr>)"
    using step keys(2) by (rule converse_rtranclp_into_rtranclp)
  with keys(1) show ?case by blast
qed

text \<open>The refresher connects for \<open>k1\<close> and holds its queue while the first taker wants it.\<close>

lemma take_meets_refresh:
  fixes ks :: "string list"
  assumes "0 < w"
  defines "wait \<equiv> map (\<lambda>k. \<lparr>tk_key = k, tk_pc = TGet, tk_place = Ready\<rparr>) ks"
  shows "\<exists>keys. lock_runs shard lifo w (k1 # k2 # rest) (lock_start n [k1] (k1 # ks) (k1 # k2 # rest) (Suc (Suc limit)))
    \<lparr>lk_keys = keys, lk_queue = (\<lambda>_. [])(k1 := [Refresher, Taker 0]),
     lk_takers = \<lparr>tk_key = k1, tk_pc = TLock, tk_place = Waiting\<rparr> # wait,
     rf_pc = RFill, rf_place = Connecting, rf_todo = k1 # k2 # take limit rest\<rparr>"
proof -
  let ?act = "k1 # k2 # rest" and ?todo = "k1 # k2 # take limit rest"
  let ?R = "lock_runs shard lifo w ?act"
  let ?s = "\<lambda>keys q pc pl tpc tpl. \<lparr>lk_keys = keys, lk_queue = (\<lambda>_. [])(k1 := q),
     lk_takers = \<lparr>tk_key = k1, tk_pc = tpc, tk_place = tpl\<rparr> # wait, rf_pc = pc, rf_place = pl, rf_todo = ?todo\<rparr>"
  have idle: "filter (\<lambda>tk. tk_place tk = OnWorker) wait = []" by (simp add: wait_def filter_empty_conv)
  have "lock_start n [k1] (k1 # ks) (k1 # k2 # rest) (Suc (Suc limit)) = ?s [k1] [] (RRetain [0..<n]) Ready TGet Ready" (is "?start = _")
    by (simp add: lock_start_def wait_def fun_eq_iff)
  moreover have "lock_step shard lifo w ?act (?s [k1] [] (RRetain [0..<n]) Ready TGet Ready) (?s [k1] [] (RRetain [0..<n]) OnWorker TGet Ready)"
    using lock_step.run_refresh [of "?s [k1] [] (RRetain [0..<n]) Ready TGet Ready" w shard lifo ?act] assms(1) idle
    by (simp add: busy_workers_def)
  ultimately have 1: "?R ?start (?s [k1] [] (RRetain [0..<n]) OnWorker TGet Ready)" by simp
  obtain keys where keys: "k1 \<in> set keys" "?R (?s [k1] [] (RRetain [0..<n]) OnWorker TGet Ready) (?s keys [] REntry OnWorker TGet Ready)"
    using retain_run [of "?s [k1] [] (RRetain [0..<n]) OnWorker TGet Ready" "[0..<n]" k1 ?act shard lifo w]
    by (auto simp: wait_def)
  have "lock_step shard lifo w ?act (?s keys [] REntry OnWorker TGet Ready) (?s keys [] RLock OnWorker TGet Ready)"
    using lock_step.entry [of "?s keys [] REntry OnWorker TGet Ready" k1 "k2 # take limit rest" shard lifo w ?act] keys(1)
    by (auto simp: has_reader_def reading_def wait_def)
  moreover have "lock_step shard lifo w ?act (?s keys [] RLock OnWorker TGet Ready) (?s keys [Refresher] RFill OnWorker TGet Ready)"
    using lock_step.refresh_lock [of "?s keys [] RLock OnWorker TGet Ready" k1 "k2 # take limit rest" shard lifo w ?act]
    by (simp add: set_queue_def)
  moreover have "lock_step shard lifo w ?act (?s keys [Refresher] RFill OnWorker TGet Ready) (?s keys [Refresher] RFill Connecting TGet Ready)"
    using lock_step.connect [of "?s keys [Refresher] RFill OnWorker TGet Ready" shard lifo w ?act] by simp
  moreover have "lock_step shard lifo w ?act (?s keys [Refresher] RFill Connecting TGet Ready) (?s keys [Refresher] RFill Connecting TGet OnWorker)"
    using lock_step.run_taker [of 0 "?s keys [Refresher] RFill Connecting TGet Ready" w shard lifo ?act] assms(1) idle
    by (simp add: busy_workers_def set_taker_def)
  moreover have "lock_step shard lifo w ?act (?s keys [Refresher] RFill Connecting TGet OnWorker) (?s keys [Refresher] RFill Connecting TLock OnWorker)"
    using lock_step.take_get [of 0 "?s keys [Refresher] RFill Connecting TGet OnWorker" k1 shard lifo w ?act] keys(1)
    by (simp add: set_taker_def)
  moreover have "lock_step shard lifo w ?act (?s keys [Refresher] RFill Connecting TLock OnWorker) (?s keys [Refresher, Taker 0] RFill Connecting TLock Waiting)"
    using lock_step.take_wait [of 0 "?s keys [Refresher] RFill Connecting TLock OnWorker" k1 shard lifo w ?act]
    by (simp add: set_taker_def set_queue_def)
  ultimately have "?R (?s keys [] REntry OnWorker TGet Ready) (?s keys [Refresher, Taker 0] RFill Connecting TLock Waiting)"
    by (meson converse_rtranclp_into_rtranclp rtranclp.rtrancl_refl)
  with 1 keys(2) have "?R ?start (?s keys [Refresher, Taker 0] RFill Connecting TLock Waiting)"
    by (meson rtranclp_trans)
  then show ?thesis by blast
qed

text \<open>
  C38: a \<open>take\<close> that arrives while a refresh connects for the same proxy can stop both for good, and
  one worker thread with them, when the next proxy of the refresh lies in the same shard: with a
  single worker, and with any number of them when the woken task stays in the slot of the worker
  that the refresher then blocks.
\<close>

theorem take_during_refresh_deadlocks:
  assumes "shard k1 = shard k2" "lifo \<or> w = 1" "0 < w"
  shows "\<exists>s. lock_runs shard lifo w (k1 # k2 # rest)
      (lock_start n [k1] (k1 # ks) (k1 # k2 # rest) (Suc (Suc limit))) s
    \<and> (\<forall>s'. lock_runs shard lifo w (k1 # k2 # rest) s s' \<longrightarrow>
         rf_place s' = OnWorker \<and> rf_pc s' = REntry \<and> reading (lk_takers s' ! 0))"
proof -
  let ?R = "lock_runs shard lifo w (k1 # k2 # rest)"
  let ?wait = "map (\<lambda>k. \<lparr>tk_key = k, tk_pc = TGet, tk_place = Ready\<rparr>) ks"
  obtain keys where "?R (lock_start n [k1] (k1 # ks) (k1 # k2 # rest) (Suc (Suc limit)))
    \<lparr>lk_keys = keys, lk_queue = (\<lambda>_. [])(k1 := [Refresher, Taker 0]),
     lk_takers = \<lparr>tk_key = k1, tk_pc = TLock, tk_place = Waiting\<rparr> # ?wait,
     rf_pc = RFill, rf_place = Connecting, rf_todo = k1 # k2 # take limit rest\<rparr>" (is "lock_runs _ _ _ _ ?start ?s")
    using take_meets_refresh [OF assms(3)] by blast
  moreover have "lock_step shard lifo w (k1 # k2 # rest) ?s (?s\<lparr>rf_place := Ready\<rparr>)"
    by (rule lock_step.connected) simp
  moreover have "lock_step shard lifo w (k1 # k2 # rest) (?s\<lparr>rf_place := Ready\<rparr>) (?s\<lparr>rf_place := OnWorker\<rparr>)"
    using lock_step.run_refresh [of "?s\<lparr>rf_place := Ready\<rparr>" w shard lifo "k1 # k2 # rest"] assms(3)
    by (simp add: busy_workers_def filter_empty_conv)
  moreover have "lock_step shard lifo w (k1 # k2 # rest) (?s\<lparr>rf_place := OnWorker\<rparr>)
      (release_mutex lifo k1 (?s\<lparr>rf_place := OnWorker, rf_pc := REntry, rf_todo := k2 # take limit rest\<rparr>))" (is "lock_step _ _ _ _ _ ?s'")
    using lock_step.filled [of "?s\<lparr>rf_place := OnWorker\<rparr>" k1 "k2 # take limit rest" shard lifo w "k1 # k2 # rest"]
    by simp
  ultimately have "?R ?start ?s'" by (meson rtranclp.rtrancl_into_rtrancl)
  moreover have "starved lifo k1 k2 ?s'"
    by (auto simp: starved_def release_mutex_def grant_mutex_def to_slot_def set_taker_def set_queue_def)
  ultimately show ?thesis
    using starved_forever [of shard lifo w "k1 # k2 # rest" ?s' _ k1 k2] assms(1,2)
    by (intro exI [of _ ?s']) (auto simp: starved_def reading_def)
qed

theorem take_during_refresh_deadlocks_witness:
  "\<exists>s. lock_runs length True 4 [''a:1'', ''b:2'']
      (lock_start 8 [''a:1''] [''a:1'', ''c:3''] [''a:1'', ''b:2''] 2) s
    \<and> (\<forall>s'. lock_runs length True 4 [''a:1'', ''b:2''] s s' \<longrightarrow>
         rf_place s' = OnWorker \<and> rf_pc s' = REntry \<and> reading (lk_takers s' ! 0))"
  using take_during_refresh_deadlocks [of length "''a:1''" "''b:2''" True 4 "[]" 8 "[''c:3'']" 0] by (simp add: numeral_2_eq_2)

theorem warm_pool_progress_witness:
  "\<exists>s'. lock_step length False 2 [''a:1'', ''b:2''] (lock_start 8 [''a:1''] [''a:1''] [''a:1'', ''b:2''] 2) s'"
  by (rule warm_pool_progress [OF rtranclp.rtrancl_refl]) (simp_all add: all_done_def lock_start_def)

end
