(* ===== verification/Testing.thy ===== *)
theory Testing
  imports Proxy
begin

text \<open>
  What the theories of unit tests share.  The sources hold a module of tests for almost every
  component; the theories \<open>Tests...\<close> translate the tests of what is modelled into predicates on
  the model and prove that they pass.  A test reads the clocks at each of its calls: \<open>t i\<close> are
  the readings of call number \<open>i\<close>, and the theorems say under which readings a test passes, the
  ones of a run that is not interrupted for long among them.
\<close>

section \<open>Readings of the clocks\<close>

text \<open>All calls happen within \<open>n\<close> seconds, on clocks that do not go back behind the first call.\<close>

definition prompt :: "nat \<Rightarrow> (nat \<Rightarrow> clock) \<Rightarrow> bool" where
  "prompt n t \<longleftrightarrow> (\<forall>i. inst (t 0) \<le> inst (t i) \<and> inst (t i) < inst (t 0) + secs n
     \<and> utc (t 0) \<le> utc (t i) \<and> utc (t i) < utc (t 0) + int (secs n))"

lemma prompt_const: "0 < n \<Longrightarrow> prompt n (\<lambda>_. now)"
  by (simp add: prompt_def secs_def)

lemma prompt_mono:
  assumes "prompt m t" "m \<le> n" shows "prompt n t"
proof -
  have "secs m \<le> secs n" "int (secs m) \<le> int (secs n)" using assms(2) by (simp_all add: secs_def)
  then show ?thesis using assms(1) unfolding prompt_def by (meson add_left_mono order_less_le_trans)
qed

lemma prompt_elapsed: "prompt n t \<Longrightarrow> elapsed_secs (t j) (inst (t i)) < n"
proof -
  assume "prompt n t"
  then have "inst (t j) < inst (t 0) + secs n" "inst (t 0) \<le> inst (t i)" "inst (t 0) \<le> inst (t j)"
    by (auto simp: prompt_def)
  then have "inst (t j) - inst (t i) < n * 1000000000" unfolding secs_def by linarith
  then show ?thesis unfolding elapsed_secs_def by (simp add: less_mult_imp_div_less)
qed

lemma prompt_utc: "prompt n t \<Longrightarrow> num_seconds (utc (t j) - utc (t i)) < int n \<and> utc (t j) - utc (t i) < int (secs n)"
proof -
  assume p: "prompt n t"
  then have "utc (t j) < utc (t 0) + int (secs n)" "utc (t 0) \<le> utc (t i)" by (auto simp: prompt_def)
  then have d: "utc (t j) - utc (t i) < int n * 1000000000" by (simp add: secs_def)
  have n: "0 < n" using p by (cases n) (auto simp: prompt_def secs_def)
  have "num_seconds (utc (t j) - utc (t i)) < int n"
  proof (cases "utc (t j) - utc (t i) < 0")
    case True
    then have "0 \<le> (utc (t i) - utc (t j)) div 1000000000" by (simp add: pos_imp_zdiv_nonneg_iff)
    with True n show ?thesis by (simp add: num_seconds_def trunc_div_def)
  next
    case False
    with d have "(utc (t j) - utc (t i)) div 1000000000 < int n" by linarith
    with False show ?thesis by (simp add: num_seconds_def trunc_div_def)
  qed
  then show ?thesis using d by (simp add: secs_def)
qed

section \<open>Keys\<close>

lemma key_8080 [simp]: "host_port h 8080 = h @ '':8080''" "host_port h 3128 = h @ '':3128''"
  by (simp_all add: host_port_def show_u16_def show_nat.simps digit_chars)

section \<open>Latencies of fresh proxies, exactly\<close>

fun f_abs :: "f64 \<Rightarrow> f64" where
  "f_abs (Fin a) = Fin \<bar>a\<bar>"
| "f_abs NaN = NaN"
| "f_abs _ = PInf"

lemma f_sub_ints: "\<bar>m - n\<bar> \<le> 2 ^ 53 \<Longrightarrow> f_sub (Fin (of_int m)) (Fin (of_int n)) = Fin (of_int (m - n))"
  using f_mk_int [of "m - n"] by (simp add: f_sub_def)

lemma f_add_ints: "\<bar>m + n\<bar> \<le> 2 ^ 53 \<Longrightarrow> f_add (Fin (of_int m)) (Fin (of_int n)) = Fin (of_int (m + n))"
  using f_mk_int [of "m + n"] by simp

lemma f_mk_exact:
  assumes "2 powi e \<le> x" "x < 2 powi (e + 1)" "- 1022 \<le> e" "e < 1023"
    and "e - 52 = - int k" "\<bar>x * 2 ^ k - of_int n\<bar> < 1 / 2"
  shows "f_mk x = Fin (of_int n / 2 ^ k)"
proof -
  have r: "rnd x = of_int n / 2 ^ k" by (rule rnd_eval [OF assms(1-3,5,6)])
  have "rnd x \<le> rnd (2 powi (e + 1))" using assms(2) by (intro rnd_mono) simp
  moreover have "0 \<le> rnd x" using assms(1) powi2_pos [of e] by (intro rnd_nonneg) linarith
  moreover have "rnd (2 powi (e + 1)) = 2 powi (e + 1)"
  proof -
    have "rnd (2 powi (e + 1)) = of_int (round_half_even (2 powi (e + 1) / 2 powi (e + 1 - 52))) * 2 powi (e + 1 - 52)"
      using assms(3) by (intro rnd_at) (auto intro: powi2_mono simp: powi2_less)
    moreover have "2 powi (e + 1) / 2 powi (e + 1 - 52) = (of_int (2 ^ 52) :: rat)"
      by (simp flip: power_int_diff)
    moreover have "of_int (2 ^ 52) * 2 powi (e + 1 - 52) = (2 :: rat) powi (e + 1)"
      by (simp add: power_int_diff power_int_add)
    ultimately show ?thesis by (simp only: round_half_even_int)
  qed
  moreover have "(2 :: rat) powi (e + 1) < 2 powi 1024" using assms(4) unfolding powi2_less by simp
  ultimately have "\<not> 2 powi 1024 \<le> rnd x" "\<not> rnd x \<le> - (2 powi 1024)" by auto
  then show ?thesis by (simp add: f_mk_def Let_def r)
qed

lemma start_08: "f_mul (Fin 5000) (f_mk (8 / 10)) = Fin 4000"
proof -
  have "f_mk (5000 * (7205759403792794 / 2 ^ 53)) = Fin (of_int (4000 * 2 ^ 41) / 2 ^ 41)"
    by (rule f_mk_exact [where e = 11]) simp_all
  then show ?thesis unfolding weight_08 by simp
qed

text \<open>The samples that the tests use.\<close>

lemma sample_02:
  "f_mul (Fin 50) (f_mk (2 / 10)) = Fin 10" "f_mul (Fin 100) (f_mk (2 / 10)) = Fin 20"
  "f_mul (Fin 150) (f_mk (2 / 10)) = Fin 30" "f_mul (Fin 200) (f_mk (2 / 10)) = Fin 40"
  "f_mul (Fin 500) (f_mk (2 / 10)) = Fin 100"
proof -
  have "f_mk (50 * (7205759403792794 / 2 ^ 55)) = Fin (of_int (10 * 2 ^ 49) / 2 ^ 49)"
    by (rule f_mk_exact [where e = 3]) simp_all
  then show "f_mul (Fin 50) (f_mk (2 / 10)) = Fin 10" unfolding weight_02 by simp
  have "f_mk (100 * (7205759403792794 / 2 ^ 55)) = Fin (of_int (20 * 2 ^ 48) / 2 ^ 48)"
    by (rule f_mk_exact [where e = 4]) simp_all
  then show "f_mul (Fin 100) (f_mk (2 / 10)) = Fin 20" unfolding weight_02 by simp
  have "f_mk (150 * (7205759403792794 / 2 ^ 55)) = Fin (of_int (30 * 2 ^ 48) / 2 ^ 48)"
    by (rule f_mk_exact [where e = 4]) simp_all
  then show "f_mul (Fin 150) (f_mk (2 / 10)) = Fin 30" unfolding weight_02 by simp
  have "f_mk (200 * (7205759403792794 / 2 ^ 55)) = Fin (of_int (40 * 2 ^ 47) / 2 ^ 47)"
    by (rule f_mk_exact [where e = 5]) simp_all
  then show "f_mul (Fin 200) (f_mk (2 / 10)) = Fin 40" unfolding weight_02 by simp
  have "f_mk (500 * (7205759403792794 / 2 ^ 55)) = Fin (of_int (100 * 2 ^ 46) / 2 ^ 46)"
    by (rule f_mk_exact [where e = 6]) simp_all
  then show "f_mul (Fin 500) (f_mk (2 / 10)) = Fin 100" unfolding weight_02 by simp
qed

lemma latency_sample_int:
  "0 \<le> n \<Longrightarrow> n \<le> 60000 \<Longrightarrow> latency_sample (Fin n) = Fin n"
  by (simp add: latency_sample_def f_clamp_def f_lt_def)

lemma ewma_first:
  "ewma (Fin 5000) (Fin 50) = Fin 4010" "ewma (Fin 5000) (Fin 100) = Fin 4020"
  "ewma (Fin 5000) (Fin 150) = Fin 4030" "ewma (Fin 5000) (Fin 200) = Fin 4040"
  "ewma (Fin 5000) (Fin 500) = Fin 4100"
  using f_add_ints [of 4000 10] f_add_ints [of 4000 20] f_add_ints [of 4000 30]
    f_add_ints [of 4000 40] f_add_ints [of 4000 100]
  unfolding ewma_def start_08 sample_02 by simp_all

lemma latency_first:
  "latency_ewma (Proxy.record_success l now p) = ewma (latency_ewma p) (latency_sample l)"
  by (simp add: record_success_def Let_def)

section \<open>Scores of proxies checked just now\<close>

text \<open>A proxy whose first check succeeded at \<open>t\<close>, and its score within five minutes.\<close>

definition recently :: "clock \<Rightarrow> proxy \<Rightarrow> bool" where
  "recently t p \<longleftrightarrow> consecutive_fails p = 0 \<and> priority_boost p = Fin 0 \<and> last_success p = Some (utc t)
     \<and> uptime_streak_start p = Some (inst t)"

definition recent_score :: "f64 \<Rightarrow> f64" where
  "recent_score l = f_sub (f_sub (f_add l (Fin 0)) (Fin 0)) (Fin 100)"

lemma score_recently:
  assumes "prompt 300 t" "recently (t i) p"
  shows "score (t j) p = (let s = recent_score (latency_ewma p); up = uptime_of (t j) p
    in if f_lt (Fin 300) up then f_sub s (stability_bonus up) else s)"
proof -
  define d where "d = max (num_seconds (utc (t j) - utc (t i))) 0"
  have d: "0 \<le> d" "d < 300" using prompt_utc [OF assms(1), of j i] by (auto simp: d_def)
  have "\<bar>d\<bar> \<le> 2 ^ 53" using d by simp
  then have "f_of_int d = Fin (of_int d)" by (rule f_of_int_exact)
  moreover have "of_int d < (300 :: rat)" using d(2) of_int_less_iff [of d 300, where ?'a = rat] by simp
  ultimately have recent: "f_lt (f_of_int d) (Fin 300)" by (simp add: f_lt_def)
  have "f_mul (f_of_nat 0) (Fin 50) = Fin 0" using f_of_nat_exact [of 0] by simp
  then show ?thesis
    using recent assms(2)
    by (simp add: score_def Let_def recency_bonus_def d_def [symmetric] recently_def recent_score_def)
qed

lemma uptime_recently:
  assumes "prompt 300 t" "recently (t i) p"
  shows "\<exists>e. uptime_of (t j) p = f_max (Fin e) (f_of_nat (unat (uptime_max_secs p))) \<and> 0 \<le> e \<and> e < 300"
proof -
  define e where "e = elapsed_secs (t j) (inst (t i))"
  have e: "e < 300" using prompt_elapsed [OF assms(1)] by (simp add: e_def)
  then have "f_of_nat e = Fin (of_nat e)" by (intro f_of_nat_exact) simp
  moreover have "of_nat e < (300 :: rat)" using e of_nat_less_iff [of e 300, where ?'a = rat] by simp
  ultimately show ?thesis using assms(2)
    by (intro exI [of _ "of_nat e"]) (simp add: uptime_of_def recently_def e_def)
qed

text \<open>Without an earlier streak the score does not depend on when it is taken.\<close>

lemma score_first:
  assumes "prompt 300 t" "recently (t i) p" "uptime_max_secs p = 0"
  shows "score (t j) p = recent_score (latency_ewma p)"
proof -
  have "f_of_nat 0 = Fin 0" using f_of_nat_exact [of 0] by simp
  with uptime_recently [OF assms(1,2), of j] assms(3) have "\<not> f_lt (Fin 300) (uptime_of (t j) p)"
    by (auto simp: f_max_def f_lt_def max_def split: if_splits)
  with score_recently [OF assms(1,2), of j] show ?thesis by (simp add: Let_def)
qed

end
