(* ===== verification/TestsState.thy ===== *)
theory TestsState
  imports Testing State
begin

text \<open>
  The unit tests of \<open>src/pool/state.rs\<close>.  \<open>t i\<close> are the clocks that call number \<open>i\<close> reads, \<open>rng i\<close>
  is the sampler of draw number \<open>i\<close>; calls that read no clock are not numbered.
\<close>

type_synonym tstate = "nat shared_state"

definition make_proxy :: "string \<Rightarrow> u16 \<Rightarrow> proxy" where
  "make_proxy h prt = proxy_new h prt Http"

text \<open>A new state after a row of inserts, and with a look at an answer of the selection.\<close>

definition add :: "string \<times> u16 \<Rightarrow> tstate \<Rightarrow> tstate" where
  "add a st = snd (insert_if_absent (make_proxy (fst a) (snd a)) st)"

definition inserted :: "(string \<times> u16) list \<Rightarrow> tstate" where
  "inserted as = fold add as state_new"

definition chosen :: "(proxy \<Rightarrow> bool) \<Rightarrow> proxy option comp \<Rightarrow> bool" where
  "chosen P r \<longleftrightarrow> (case r of Ret (Some p) \<Rightarrow> P p | _ \<Rightarrow> False)"

definition entry_is :: "(proxy \<Rightarrow> bool) \<Rightarrow> string \<Rightarrow> tstate \<Rightarrow> bool" where
  "entry_is P key st \<longleftrightarrow> (case tbl_get (proxies st) key of Some p \<Rightarrow> P p | None \<Rightarrow> False)"

section \<open>The tests of the pool\<close>

definition test_insert_and_get :: bool where
  "test_insert_and_get \<longleftrightarrow>
     (let r = insert_if_absent (make_proxy ''1.2.3.4'' 8080) (state_new :: tstate)
      in fst r \<and> total_count (snd r) = 1 \<and> tbl_has (proxies (snd r)) ''1.2.3.4:8080'')"

definition test_insert_duplicate_returns_false :: bool where
  "test_insert_duplicate_returns_false \<longleftrightarrow>
     (let r = insert_if_absent (make_proxy ''1.2.3.4'' 8080) (state_new :: tstate)
      in fst r \<and> \<not> fst (insert_if_absent (make_proxy ''1.2.3.4'' 8080) (snd r)))"

definition test_record_success_updates_status :: "(nat \<Rightarrow> clock) \<Rightarrow> bool" where
  "test_record_success_updates_status t \<longleftrightarrow>
     (let st = state_success ''1.2.3.4:8080'' (Fin 150) (t 0) (inserted [(''1.2.3.4'', 8080)])
      in verified_count st = 1 \<and> available_count (t 1) st = 1)"

definition test_record_fail_increments_fail_count :: "(nat \<Rightarrow> clock) \<Rightarrow> bool" where
  "test_record_fail_increments_fail_count t \<longleftrightarrow>
     tbl_has (proxies (state_fail ''1.2.3.4:8080'' (t 0) (inserted [(''1.2.3.4'', 8080)]))) ''1.2.3.4:8080''"

definition test_circuit_breaker_opens_after_5_fails :: "(nat \<Rightarrow> clock) \<Rightarrow> bool" where
  "test_circuit_breaker_opens_after_5_fails t \<longleftrightarrow>
     entry_is (\<lambda>p. \<not> is_available (t 5) p) ''1.2.3.4:8080''
       (fold (\<lambda>i. state_fail ''1.2.3.4:8080'' (t i)) [0..<5] (inserted [(''1.2.3.4'', 8080)]))"

definition test_select_best_returns_none_when_empty :: "(nat \<Rightarrow> sampler) \<Rightarrow> (nat \<Rightarrow> clock) \<Rightarrow> bool" where
  "test_select_best_returns_none_when_empty rng t \<longleftrightarrow> select_best (rng 0) (t 0) (state_new :: tstate) = Ret None"

definition test_select_best_prefers_verified_over_unchecked :: "(nat \<Rightarrow> sampler) \<Rightarrow> (nat \<Rightarrow> clock) \<Rightarrow> bool" where
  "test_select_best_prefers_verified_over_unchecked rng t \<longleftrightarrow>
     chosen (\<lambda>p. host p = ''1.2.3.4'') (select_best (rng 0) (t 1)
       (state_success ''1.2.3.4:8080'' (Fin 100) (t 0) (inserted [(''1.2.3.4'', 8080), (''5.6.7.8'', 3128)])))"

text \<open>The state of a test that inserts and verifies \<open>n\<close> proxies in turn.\<close>

definition filled ::
  "nat \<Rightarrow> (nat \<Rightarrow> string) \<Rightarrow> (nat \<Rightarrow> f64) \<Rightarrow> (nat \<Rightarrow> clock) \<Rightarrow> tstate" where
  "filled n h l t =
     fold (\<lambda>i st. state_success (h i @ '':8080'') (l i) (t i) (add (h i, 8080) st)) [0..<n] state_new"

definition host20 :: "nat \<Rightarrow> string" where "host20 i = ''10.0.0.'' @ show_nat (i + 1)"

definition answer_host :: "proxy option comp \<Rightarrow> string option" where
  "answer_host r = (case r of Ret (Some p) \<Rightarrow> Some (host p) | _ \<Rightarrow> None)"

definition test_weighted_random_select_from_top_n :: "(nat \<Rightarrow> sampler) \<Rightarrow> (nat \<Rightarrow> clock) \<Rightarrow> bool" where
  "test_weighted_random_select_from_top_n rng t \<longleftrightarrow>
     (let st = filled 20 host20 (\<lambda>i. f_mul (f_of_nat (i + 1)) (Fin 10)) t;
          answers = map (\<lambda>j. select_best (rng j) (t (20 + j)) st) [0..<50]
      in Panic \<notin> set answers
         \<and> 1 < length (remdups (List.map_filter answer_host answers)))"

definition test_proxies_needing_check_priority :: "(nat \<Rightarrow> clock) \<Rightarrow> bool" where
  "test_proxies_needing_check_priority t \<longleftrightarrow>
     (let batch = proxies_needing_check (t 1) 10
        (state_success ''1.1.1.1:8080'' (Fin 100) (t 0) (inserted [(''1.1.1.1'', 8080), (''2.2.2.2'', 8080)]))
      in length batch = 1 \<and> host (batch ! 0) = ''2.2.2.2'')"

definition ban_step :: "string \<Rightarrow> tstate \<Rightarrow> tstate" where
  "ban_step key st =
     (case tbl_get (proxies st) key of
        Some p \<Rightarrow> st\<lparr>proxies := tbl_del key (proxies st), banned := tbl_put key p (banned st)\<rparr>
      | None \<Rightarrow> st)"

definition unban_step :: "string \<Rightarrow> tstate \<Rightarrow> tstate" where
  "unban_step key st =
     (case tbl_get (banned st) key of
        Some p \<Rightarrow> st\<lparr>proxies := tbl_put key p (proxies st), banned := tbl_del key (banned st)\<rparr>
      | None \<Rightarrow> st)"

definition test_ban_and_unban :: bool where
  "test_ban_and_unban \<longleftrightarrow>
     (let st = ban_step ''1.2.3.4:8080'' (inserted [(''1.2.3.4'', 8080)]);
          st2 = unban_step ''1.2.3.4:8080'' st
      in total_count st = 0 \<and> tbl_len (banned st) = 1 \<and> total_count st2 = 1 \<and> tbl_len (banned st2) = 0)"

definition test_insert_rejected_when_pool_full :: bool where
  "test_insert_rejected_when_pool_full \<longleftrightarrow>
     (let (a, st) = insert_if_absent (make_proxy ''1.1.1.1'' 8080) ((state_new :: tstate)\<lparr>max_proxies := 2\<rparr>);
          (b, st) = insert_if_absent (make_proxy ''2.2.2.2'' 8080) st;
          (c, st) = insert_if_absent (make_proxy ''3.3.3.3'' 8080) st
      in a \<and> b \<and> \<not> c \<and> total_count st = 2)"

definition test_cleanup_stale_removes_old_unchecked :: "(nat \<Rightarrow> clock) \<Rightarrow> bool" where
  "test_cleanup_stale_removes_old_unchecked t \<longleftrightarrow>
     total_count (cleanup_stale (t 1) (add (''5.6.7.8'', 3128)
       (state_success ''1.2.3.4:8080'' (Fin 100) (t 0) (inserted [(''1.2.3.4'', 8080)])))) = 2"

text \<open>Draws 0 and 1 and then ten more; the calls are numbered in the order of the test.\<close>

definition test_full_proxy_lifecycle :: "(nat \<Rightarrow> sampler) \<Rightarrow> (nat \<Rightarrow> clock) \<Rightarrow> bool" where
  "test_full_proxy_lifecycle rng t \<longleftrightarrow>
     (let st1 = inserted [(''10.0.0.1'', 8080), (''10.0.0.2'', 8080), (''10.0.0.3'', 8080)];
          st3 = state_success ''10.0.0.2:8080'' (Fin 200) (t 2) (state_success ''10.0.0.1:8080'' (Fin 100) (t 1) st1);
          st4 = fold (\<lambda>i. state_fail ''10.0.0.1:8080'' (t i)) [4..<9] st3;
          st6 = state_success ''10.0.0.1:8080'' (Fin 50) (t 20) st4
      in chosen (\<lambda>_. True) (select_best (rng 0) (t 0) st1)
         \<and> chosen (\<lambda>p. host p = ''10.0.0.1'' \<or> host p = ''10.0.0.2'') (select_best (rng 1) (t 3) st3)
         \<and> entry_is (\<lambda>p. \<not> is_available (t 9) p) ''10.0.0.1:8080'' st4
         \<and> list_all (\<lambda>j. chosen (\<lambda>p. host p = ''10.0.0.2'') (select_best (rng (2 + j)) (t (10 + j)) st4)) [0..<10]
         \<and> entry_is (is_available (t 21)) ''10.0.0.1:8080'' st6)"

section \<open>The tests of the index by country\<close>

definition test_geo_index_insert_and_lookup :: bool where
  "test_geo_index_insert_and_lookup \<longleftrightarrow>
     (let ix = geo_insert ''DE'' ''9.0.1.2:8080'' (geo_insert ''US'' ''5.6.7.8:3128''
        (geo_insert ''US'' ''1.2.3.4:8080'' []))
      in length (get_keys ''US'' ix) = 2 \<and> ''1.2.3.4:8080'' \<in> set (get_keys ''US'' ix)
         \<and> ''5.6.7.8:3128'' \<in> set (get_keys ''US'' ix) \<and> length (get_keys ''DE'' ix) = 1
         \<and> length (get_keys ''JP'' ix) = 0 \<and> country_count ix = 2)"

definition test_geo_index_no_duplicates :: bool where
  "test_geo_index_no_duplicates \<longleftrightarrow>
     length (get_keys ''US'' (geo_insert ''US'' ''1.2.3.4:8080'' (geo_insert ''US'' ''1.2.3.4:8080'' []))) = 1"

definition test_geo_index_remove :: bool where
  "test_geo_index_remove \<longleftrightarrow>
     (let ks = get_keys ''US'' (geo_remove ''US'' ''1.2.3.4:8080'' (geo_insert ''US'' ''5.6.7.8:3128''
        (geo_insert ''US'' ''1.2.3.4:8080'' [])))
      in length ks = 1 \<and> ks ! 0 = ''5.6.7.8:3128'')"

definition set_country :: "string \<Rightarrow> string \<Rightarrow> tstate \<Rightarrow> tstate" where
  "set_country key c st = st\<lparr>proxies := tbl_modify key (\<lambda>p. p\<lparr>country := Some c\<rparr>) (proxies st)\<rparr>"

definition country_pool :: "(nat \<Rightarrow> clock) \<Rightarrow> tstate" where
  "country_pool t =
     (let st = inserted [(''1.2.3.4'', 8080), (''5.6.7.8'', 3128), (''9.0.1.2'', 8080)];
          st = state_success ''1.2.3.4:8080'' (Fin 100) (t 0) st;
          st = state_success ''5.6.7.8:3128'' (Fin 200) (t 1) st;
          st = state_success ''9.0.1.2:8080'' (Fin 150) (t 2) st;
          st = set_country ''9.0.1.2:8080'' ''DE'' (set_country ''5.6.7.8:3128'' ''US'' (set_country ''1.2.3.4:8080'' ''US'' st))
      in update_geo_index ''9.0.1.2:8080'' ''DE'' (update_geo_index ''5.6.7.8:3128'' ''US''
           (update_geo_index ''1.2.3.4:8080'' ''US'' st)))"

definition test_select_best_by_country_uses_geo_index :: "(nat \<Rightarrow> sampler) \<Rightarrow> (nat \<Rightarrow> clock) \<Rightarrow> bool" where
  "test_select_best_by_country_uses_geo_index rng t \<longleftrightarrow>
     (let st = country_pool t
      in chosen (\<lambda>p. host p = ''1.2.3.4'' \<or> host p = ''5.6.7.8'') (select_best_by_country (rng 0) (t 3) ''US'' st)
         \<and> chosen (\<lambda>p. host p = ''9.0.1.2'') (select_best_by_country (rng 1) (t 4) ''DE'' st)
         \<and> select_best_by_country (rng 2) (t 5) ''JP'' st = Ret None)"

text \<open>\<open>i\<close> and the host are those of the loop; its latencies are \<open>(i as f64 + 1.0) * 100.0\<close>.\<close>

definition host50 :: "nat \<Rightarrow> string" where
  "host50 i = ''10.0.'' @ show_nat (i div 255 + 1) @ ''.'' @ show_nat (i mod 255 + 1)"

definition test_collect_top_n_correctness :: "(nat \<Rightarrow> sampler) \<Rightarrow> (nat \<Rightarrow> clock) \<Rightarrow> bool" where
  "test_collect_top_n_correctness rng t \<longleftrightarrow>
     (let st = filled 50 host50 (\<lambda>i. f_mul (f_add (f_of_nat i) (Fin 1)) (Fin 100)) t
      in verified_count st = 50 \<and> chosen (\<lambda>p. f_lt (latency_ewma p) (Fin 4300)) (select_best (rng 0) (t 50) st))"

section \<open>The tests of TLS marks\<close>

definition test_set_tls_clean :: "(nat \<Rightarrow> clock) \<Rightarrow> bool" where
  "test_set_tls_clean t \<longleftrightarrow>
     (let st = state_success ''1.2.3.4:8080'' (Fin 100) (t 0) (inserted [(''1.2.3.4'', 8080)]);
          st2 = set_tls_clean ''1.2.3.4:8080'' True st;
          st3 = set_tls_clean ''1.2.3.4:8080'' False st2
      in entry_is (\<lambda>p. tls_clean p = None) ''1.2.3.4:8080'' st
         \<and> entry_is (\<lambda>p. tls_clean p = Some True) ''1.2.3.4:8080'' st2
         \<and> entry_is (\<lambda>p. tls_clean p = Some False) ''1.2.3.4:8080'' st3)"

definition test_tls_counts :: "(nat \<Rightarrow> clock) \<Rightarrow> bool" where
  "test_tls_counts t \<longleftrightarrow>
     (let st = inserted [(''1.1.1.1'', 8080), (''2.2.2.2'', 8080), (''3.3.3.3'', 8080)];
          st = state_success ''3.3.3.3:8080'' (Fin 100) (t 2) (state_success ''2.2.2.2:8080'' (Fin 100) (t 1)
            (state_success ''1.1.1.1:8080'' (Fin 100) (t 0) st));
          st = set_tls_clean ''2.2.2.2:8080'' False (set_tls_clean ''1.1.1.1:8080'' True st)
      in tls_clean_count st = 1 \<and> tls_dirty_count st = 1)"

definition test_select_best_for_tls_prefers_clean :: "(nat \<Rightarrow> sampler) \<Rightarrow> (nat \<Rightarrow> clock) \<Rightarrow> bool" where
  "test_select_best_for_tls_prefers_clean rng t \<longleftrightarrow>
     (let st = inserted [(''1.1.1.1'', 8080), (''2.2.2.2'', 8080)];
          st = state_success ''2.2.2.2:8080'' (Fin 100) (t 1) (state_success ''1.1.1.1:8080'' (Fin 100) (t 0) st);
          st = set_tls_clean ''2.2.2.2:8080'' False (set_tls_clean ''1.1.1.1:8080'' True st)
      in list_all (\<lambda>j. chosen (\<lambda>p. host p = ''1.1.1.1'') (select_best_for_tls (rng j) (t (2 + j)) st)) [0..<20])"

definition test_select_best_for_tls_fallback_when_no_clean :: "(nat \<Rightarrow> sampler) \<Rightarrow> (nat \<Rightarrow> clock) \<Rightarrow> bool" where
  "test_select_best_for_tls_fallback_when_no_clean rng t \<longleftrightarrow>
     chosen (\<lambda>_. True) (select_best_for_tls (rng 0) (t 1) (set_tls_clean ''1.1.1.1:8080'' False
       (state_success ''1.1.1.1:8080'' (Fin 100) (t 0) (inserted [(''1.1.1.1'', 8080)]))))"

section \<open>They pass\<close>

lemma make_proxy_fields [simp]:
  "proxy_key (make_proxy h prt) = host_port h prt" "status (make_proxy h prt) = Some Unchecked"
  "last_check (make_proxy h prt) = None" "circuit_open_until (make_proxy h prt) = None"
  "host (make_proxy h prt) = h" "tls_clean (make_proxy h prt) = None" "country (make_proxy h prt) = None"
  "success_count (make_proxy h prt) = 0" "consecutive_fails (make_proxy h prt) = 0"
  "score_ok (make_proxy h prt)"
  by (simp_all add: make_proxy_def) (simp_all add: proxy_new_def)

lemma success_host [simp]: "host (Proxy.record_success l now p) = host p"
  by (auto simp: record_success_def track_uptime_def Let_def split: option.split)

lemma fail_host [simp]: "host (Proxy.record_fail now p) = host p"
  by (auto simp: record_fail_def Let_def split: option.split)

lemmas pool_eval = inserted_def add_def insert_if_absent_def state_success_def state_fail_def set_tls_clean_def
  tbl_len_def tbl_has_def tbl_modify_def tbl_put_def tbl_get_def tbl_vals_def total_count_def

lemma new_state_fields [simp]:
  "proxies state_new = []" "banned state_new = []" "max_proxies state_new = 5000" "excluded state_new = []"
  "geo_index state_new = []"
  by (simp_all add: state_new_def excluded_def)

lemma pass_inserts:
  test_insert_and_get test_insert_duplicate_returns_false test_ban_and_unban test_insert_rejected_when_pool_full
  by (simp_all add: test_insert_and_get_def test_insert_duplicate_returns_false_def test_ban_and_unban_def
      test_insert_rejected_when_pool_full_def Let_def pool_eval ban_step_def unban_step_def tbl_del_def)

lemma pass_marks:
  "test_record_success_updates_status t" "test_record_fail_increments_fail_count t"
  "test_cleanup_stale_removes_old_unchecked t" "test_set_tls_clean t" "test_tls_counts t"
  by (simp_all add: test_record_success_updates_status_def test_record_fail_increments_fail_count_def
      test_cleanup_stale_removes_old_unchecked_def test_set_tls_clean_def test_tls_counts_def Let_def pool_eval
      verified_count_def available_count_def tls_clean_count_def tls_dirty_count_def count_where_def
      cleanup_stale_def tbl_retain_def not_stale_def entry_is_def)

lemma pass_geo_index:
  test_geo_index_insert_and_lookup test_geo_index_no_duplicates test_geo_index_remove
  by (simp_all add: test_geo_index_insert_and_lookup_def test_geo_index_no_duplicates_def test_geo_index_remove_def
      Let_def geo_insert_def geo_remove_def get_keys_def country_count_def tbl_len_def tbl_modify_def tbl_put_def
      tbl_get_def)

lemma pass_needing_check:
  assumes "prompt 60 t" shows "test_proxies_needing_check_priority t"
  using prompt_utc [OF assms, of 1 0]
  by (simp add: test_proxies_needing_check_priority_def Let_def pool_eval proxies_needing_check_def needs_check_def)

text \<open>A selection with a verified candidate returns one, and what holds of all of them.\<close>

lemma chosen_some: "sampler_ok rng \<Longrightarrow> cs \<noteq> [] \<Longrightarrow> \<forall>p \<in> set cs. P p \<Longrightarrow> chosen P (select_some rng now cs)"
  using select_some_total [of rng cs now] by (auto simp: chosen_def)

lemma chosen_verified:
  assumes "sampler_ok rng" "candidate now st (Some Verified) q" "\<And>q. candidate now st (Some Verified) q \<Longrightarrow> P q"
  shows "chosen P (select_best rng now st)"
proof -
  have "verified_top now st \<noteq> []" using assms(2) verified_top_empty by blast
  moreover from this have "chosen P (select_some rng now (verified_top now st))"
    by (rule chosen_some [OF assms(1)]) (auto intro: assms(3) dest: verified_top_candidate)
  ultimately show ?thesis unfolding select_best_eq by (simp only: if_True not_False_eq_True)
qed

lemma chosen_any:
  assumes "sampler_ok rng" "candidate now st s q" "s \<noteq> Some Failed"
  shows "chosen (\<lambda>_. True) (select_best rng now st)"
proof -
  from select_best_total [OF assms(1)] obtain r where r: "select_best rng now st = Ret r"
    by (cases "select_best rng now st") auto
  then have "r \<noteq> None" using assms(2,3) by (cases rule: select_best_cases) auto
  with r show ?thesis by (auto simp: chosen_def)
qed

lemma chosen_clean:
  assumes "sampler_ok rng" "candidate now st (Some Verified) q" "tls_clean q = Some True"
    "\<And>q. candidate now st (Some Verified) q \<Longrightarrow> tls_clean q = Some True \<Longrightarrow> P q"
  shows "chosen P (select_best_for_tls rng now st)"
proof -
  let ?v = "collect_top_n now (\<lambda>p. is_available now p \<and> status p = Some Verified
      \<and> tls_clean p = Some True \<and> \<not> country_excluded (excluded st) p) st"
  have v: "?v \<noteq> []" unfolding collect_top_n_empty using assms(2,3) by (auto simp: candidate_def)
  have "P p" if "p \<in> set ?v" for p
    using collect_top_n_sound [OF that] by (intro assms(4)) (auto simp: candidate_def)
  with v have "chosen P (select_some rng now ?v)" by (intro chosen_some [OF assms(1)]) blast+
  with v show ?thesis unfolding select_best_for_tls_def Let_def by (simp only: if_True not_False_eq_True)
qed

lemma candidate_iff:
  "exclude_countries st = Some [] \<Longrightarrow> candidate now st s p \<longleftrightarrow>
     p \<in> set (tbl_vals (proxies st)) \<and> is_available now p \<and> status p = s"
  by (auto simp: candidate_def excluded_def country_excluded_def)

lemma available_open [simp]: "is_available now (make_proxy h prt)"
  by (simp add: is_available_def)

lemma new_state_excludes [simp]: "exclude_countries state_new = Some []"
  by (simp add: state_new_def)

lemma pass_select:
  assumes "\<And>i. sampler_ok (rng i)"
  shows "test_select_best_returns_none_when_empty rng t" "test_select_best_prefers_verified_over_unchecked rng t"
proof -
  let ?e = "state_new :: tstate"
  have "verified_top (t 0) ?e = []" "presumed_top (t 0) ?e = []" "first_other (t 0) ?e = None"
    by (simp_all add: collect_top_n_empty tbl_vals_def)
  then show "test_select_best_returns_none_when_empty rng t"
    unfolding test_select_best_returns_none_when_empty_def select_best_eq by simp
  show "test_select_best_prefers_verified_over_unchecked rng t"
    unfolding test_select_best_prefers_verified_over_unchecked_def
    by (rule chosen_verified [OF assms(1), where q = "Proxy.record_success (Fin 100) (t 0) (make_proxy ''1.2.3.4'' 8080)"])
      (auto simp: candidate_iff pool_eval)
qed

text \<open>Five failures in a row, the last one at call \<open>i\<close>, disable a proxy for the rest of a prompt test.\<close>

lemma five_fails:
  assumes "prompt 60 t" "consecutive_fails p = 0"
  shows "\<not> is_available (t j) (Proxy.record_fail (t i) (Proxy.record_fail a (Proxy.record_fail b
    (Proxy.record_fail c (Proxy.record_fail d p)))))"
proof -
  have "inst (t j) < inst (t 0) + secs 60" "inst (t 0) \<le> inst (t i)" using assms(1) by (auto simp: prompt_def)
  then have "inst (t j) < inst (t i) + secs 60" by linarith
  with fail_run_open [of p "[d, c, b, a, t i]"] assms(2) show ?thesis
    by (simp add: fail_run_def ladder_def is_available_def)
qed

lemma upt5: "[0..<5] = [0, 1, 2, 3, 4]" "[4..<9] = [4, 5, 6, 7, 8]"
  by (simp_all add: upt_rec)

lemma pass_circuit:
  assumes "prompt 60 t" shows "test_circuit_breaker_opens_after_5_fails t"
  by (simp add: test_circuit_breaker_opens_after_5_fails_def upt5 pool_eval entry_is_def five_fails [OF assms])

lemma pass_lifecycle:
  assumes "\<And>i. sampler_ok (rng i)" "prompt 60 t" shows "test_full_proxy_lifecycle rng t"
proof -
  let ?s = "\<lambda>l i h. Proxy.record_success l (t i) (make_proxy h 8080)"
  define p4 where "p4 = Proxy.record_fail (t 8) (Proxy.record_fail (t 7) (Proxy.record_fail (t 6)
    (Proxy.record_fail (t 5) (Proxy.record_fail (t 4) (?s (Fin 100) 1 ''10.0.0.1'')))))"
  define st1 where "st1 = inserted [(''10.0.0.1'', 8080), (''10.0.0.2'', 8080), (''10.0.0.3'', 8080)]"
  define st3 where "st3 = state_success ''10.0.0.2:8080'' (Fin 200) (t 2) (state_success ''10.0.0.1:8080'' (Fin 100) (t 1) st1)"
  define st4 where "st4 = fold (\<lambda>i. state_fail ''10.0.0.1:8080'' (t i)) [4..<9] st3"
  have c1: "proxies st1 = [(''10.0.0.1:8080'', make_proxy ''10.0.0.1'' 8080), (''10.0.0.2:8080'', make_proxy ''10.0.0.2'' 8080),
      (''10.0.0.3:8080'', make_proxy ''10.0.0.3'' 8080)]" "exclude_countries st1 = Some []"
    by (simp_all add: st1_def pool_eval)
  have c3: "proxies st3 = [(''10.0.0.1:8080'', ?s (Fin 100) 1 ''10.0.0.1''), (''10.0.0.2:8080'', ?s (Fin 200) 2 ''10.0.0.2''),
      (''10.0.0.3:8080'', make_proxy ''10.0.0.3'' 8080)]" "exclude_countries st3 = Some []"
    using c1 by (simp_all add: st3_def pool_eval)
  have c4: "proxies st4 = [(''10.0.0.1:8080'', p4), (''10.0.0.2:8080'', ?s (Fin 200) 2 ''10.0.0.2''),
      (''10.0.0.3:8080'', make_proxy ''10.0.0.3'' 8080)]" "exclude_countries st4 = Some []"
    using c3 by (simp_all add: st4_def upt5 pool_eval p4_def)
  have p4: "\<not> is_available (t j) p4" for j by (simp add: p4_def five_fails [OF assms(2)])
  have "chosen (\<lambda>_. True) (select_best (rng 0) (t 0) st1)"
    by (rule chosen_any [OF assms(1), where s = "Some Unchecked" and q = "make_proxy ''10.0.0.1'' 8080"])
      (simp_all add: candidate_iff c1 tbl_vals_def)
  moreover have "chosen (\<lambda>p. host p = ''10.0.0.1'' \<or> host p = ''10.0.0.2'') (select_best (rng 1) (t 3) st3)"
    by (rule chosen_verified [OF assms(1), where q = "?s (Fin 100) 1 ''10.0.0.1''"])
      (auto simp: candidate_iff c3 tbl_vals_def)
  moreover have "chosen (\<lambda>p. host p = ''10.0.0.2'') (select_best (rng i) (t j) st4)" for i j
    by (rule chosen_verified [OF assms(1), where q = "?s (Fin 200) 2 ''10.0.0.2''"])
      (auto simp: candidate_iff c4 tbl_vals_def p4)
  moreover have "entry_is (\<lambda>p. \<not> is_available (t 9) p) ''10.0.0.1:8080'' st4"
    by (simp add: entry_is_def c4 tbl_get_def p4)
  moreover have "entry_is (is_available (t 21)) ''10.0.0.1:8080'' (state_success ''10.0.0.1:8080'' (Fin 50) (t 20) st4)"
    by (simp add: entry_is_def c4 pool_eval)
  ultimately show ?thesis
    unfolding test_full_proxy_lifecycle_def Let_def st1_def [symmetric] st3_def [symmetric] st4_def [symmetric]
    by (simp add: list_all_iff)
qed

lemma chosen_any_tls:
  assumes "sampler_ok rng" "candidate now st s q" "s \<noteq> Some Failed"
  shows "chosen (\<lambda>_. True) (select_best_for_tls rng now st)"
proof -
  have "chosen (\<lambda>_. True) (select_some rng now cs)" if "cs \<noteq> []" for cs
    using chosen_some [OF assms(1) that, of "\<lambda>_. True"] by simp
  with chosen_any [OF assms] show ?thesis by (simp add: select_best_for_tls_def Let_def)
qed

lemma pass_tls:
  assumes "\<And>i. sampler_ok (rng i)"
  shows "test_select_best_for_tls_prefers_clean rng t" "test_select_best_for_tls_fallback_when_no_clean rng t"
proof -
  let ?p = "\<lambda>i h c. (Proxy.record_success (Fin 100) (t i) (make_proxy h 8080))\<lparr>tls_clean := Some c\<rparr>"
  let ?st = "set_tls_clean ''2.2.2.2:8080'' False (set_tls_clean ''1.1.1.1:8080'' True
    (state_success ''2.2.2.2:8080'' (Fin 100) (t 1) (state_success ''1.1.1.1:8080'' (Fin 100) (t 0)
      (inserted [(''1.1.1.1'', 8080), (''2.2.2.2'', 8080)]))))"
  have a: "is_available now (p\<lparr>tls_clean := c\<rparr>) = is_available now p" for now p c
    by (simp add: is_available_def)
  have "proxies ?st = [(''1.1.1.1:8080'', ?p 0 ''1.1.1.1'' True), (''2.2.2.2:8080'', ?p 1 ''2.2.2.2'' False)]"
    "exclude_countries ?st = Some []" by (simp_all add: pool_eval)
  then have "chosen (\<lambda>p. host p = ''1.1.1.1'') (select_best_for_tls (rng j) (t k) ?st)" for j k
    by (intro chosen_clean [OF assms, where q = "?p 0 ''1.1.1.1'' True"]) (auto simp: candidate_iff a tbl_vals_def)
  then show "test_select_best_for_tls_prefers_clean rng t"
    by (simp add: test_select_best_for_tls_prefers_clean_def list_all_iff)
  show "test_select_best_for_tls_fallback_when_no_clean rng t"
    unfolding test_select_best_for_tls_fallback_when_no_clean_def
    by (rule chosen_any_tls [OF assms, where s = "Some Verified" and q = "?p 0 ''1.1.1.1'' False"]) (simp_all add: candidate_iff a pool_eval)
qed

lemma pass_country:
  assumes "\<And>i. sampler_ok (rng i)" shows "test_select_best_by_country_uses_geo_index rng t"
proof -
  let ?p = "\<lambda>h prt l i c. (Proxy.record_success l (t i) (make_proxy h prt))\<lparr>country := Some c\<rparr>"
  let ?us1 = "?p ''1.2.3.4'' 8080 (Fin 100) 0 ''US''" and ?us2 = "?p ''5.6.7.8'' 3128 (Fin 200) 1 ''US''"
    and ?de = "?p ''9.0.1.2'' 8080 (Fin 150) 2 ''DE''"
  define st0 where "st0 = inserted [(''1.2.3.4'', 8080), (''5.6.7.8'', 3128), (''9.0.1.2'', 8080)]"
  define st1 where "st1 = state_success ''9.0.1.2:8080'' (Fin 150) (t 2) (state_success ''5.6.7.8:3128'' (Fin 200) (t 1)
    (state_success ''1.2.3.4:8080'' (Fin 100) (t 0) st0))"
  define st where "st = country_pool t"
  have "proxies st0 = [(''1.2.3.4:8080'', make_proxy ''1.2.3.4'' 8080), (''5.6.7.8:3128'', make_proxy ''5.6.7.8'' 3128),
      (''9.0.1.2:8080'', make_proxy ''9.0.1.2'' 8080)]" "geo_index st0 = []"
    by (simp_all add: st0_def pool_eval)
  then have s1: "proxies st1 = [(''1.2.3.4:8080'', Proxy.record_success (Fin 100) (t 0) (make_proxy ''1.2.3.4'' 8080)),
      (''5.6.7.8:3128'', Proxy.record_success (Fin 200) (t 1) (make_proxy ''5.6.7.8'' 3128)),
      (''9.0.1.2:8080'', Proxy.record_success (Fin 150) (t 2) (make_proxy ''9.0.1.2'' 8080))]" "geo_index st1 = []"
    by (simp_all add: st1_def pool_eval)
  have st: "st = update_geo_index ''9.0.1.2:8080'' ''DE'' (update_geo_index ''5.6.7.8:3128'' ''US''
      (update_geo_index ''1.2.3.4:8080'' ''US'' (set_country ''9.0.1.2:8080'' ''DE'' (set_country ''5.6.7.8:3128'' ''US''
        (set_country ''1.2.3.4:8080'' ''US'' st1)))))"
    by (simp only: st_def country_pool_def Let_def st0_def [symmetric] st1_def [symmetric])
  have ps: "proxies st = [(''1.2.3.4:8080'', ?us1), (''5.6.7.8:3128'', ?us2), (''9.0.1.2:8080'', ?de)]"
    unfolding st by (simp add: s1 tbl_modify_def tbl_put_def tbl_get_def set_country_def update_geo_index_def)
  have ix: "get_keys ''US'' (geo_index st) = [''1.2.3.4:8080'', ''5.6.7.8:3128'']"
    "get_keys ''DE'' (geo_index st) = [''9.0.1.2:8080'']" "get_keys ''JP'' (geo_index st) = []"
    unfolding st by (simp_all add: s1 tbl_put_def tbl_get_def set_country_def update_geo_index_def geo_insert_def get_keys_def)
  have a: "is_available now (p\<lparr>country := c\<rparr>) = is_available now p" for now p c
    by (simp add: is_available_def)
  have cs: "filter (\<lambda>p. is_available now p \<and> status p = Some Verified)
      (List.map_filter (tbl_get (proxies st)) (get_keys ''US'' (geo_index st))) = [?us1, ?us2]"
    "filter (\<lambda>p. is_available now p \<and> status p = Some Verified)
      (List.map_filter (tbl_get (proxies st)) (get_keys ''DE'' (geo_index st))) = [?de]" for now
    by (simp_all add: ix ps a tbl_get_def List.map_filter_def)
  have "take 10 (sort_key (score now) [?us1, ?us2]) \<noteq> []" for now by (simp add: insort_key_def)
  then have "chosen (\<lambda>p. host p = ''1.2.3.4'' \<or> host p = ''5.6.7.8'')
      (select_some (rng 0) now (take 10 (sort_key (score now) [?us1, ?us2])))" for now
    by (rule chosen_some [OF assms]) (auto dest!: in_set_takeD)
  moreover have "chosen (\<lambda>p. host p = ''9.0.1.2'') (select_some (rng 1) now (take 10 (sort_key (score now) [?de])))" for now
    by (rule chosen_some [OF assms]) simp_all
  moreover have "select_best_by_country r now ''US'' st = select_some r now (take 10 (sort_key (score now) [?us1, ?us2]))"
    "select_best_by_country r now ''DE'' st = select_some r now (take 10 (sort_key (score now) [?de]))"
    "select_best_by_country r now ''JP'' st = Ret None" for r now
    unfolding select_best_by_country_def Let_def cs by (simp_all add: ix)
  ultimately show ?thesis
    unfolding test_select_best_by_country_uses_geo_index_def Let_def st_def [symmetric] by (simp only:)
qed

section \<open>The two tests with many proxies\<close>

lemma update_fresh: "k \<notin> fst ` set m \<Longrightarrow> AList.update k v m = m @ [(k, v)]"
  by (induction m) auto

lemma update_last: "k \<notin> fst ` set m \<Longrightarrow> AList.update k v (m @ [(k, u)]) = m @ [(k, v)]"
  by (induction m) auto

text \<open>Adding and verifying a proxy under a key that is new.\<close>

lemma add_success:
  assumes "host_port h 8080 \<notin> fst ` set (proxies st)" "length (proxies st) < max_proxies st"
  shows "state_success (h @ '':8080'') l now (add (h, 8080) st) =
    st\<lparr>proxies := proxies st @ [(h @ '':8080'', Proxy.record_success l now (make_proxy h 8080))]\<rparr>"
proof -
  have "map_of (proxies st) (h @ '':8080'') = None" using assms(1) by (simp add: map_of_eq_None_iff)
  moreover have "h @ '':8080'' \<notin> fst ` set (proxies st)" using assms(1) by simp
  ultimately show ?thesis
    using assms(2)
    by (simp add: pool_eval update_fresh update_last map_add_def)
qed

abbreviation nth_proxy :: "(nat \<Rightarrow> string) \<Rightarrow> (nat \<Rightarrow> f64) \<Rightarrow> (nat \<Rightarrow> clock) \<Rightarrow> nat \<Rightarrow> proxy" where
  "nth_proxy h l t i \<equiv> Proxy.record_success (l i) (t i) (make_proxy (h i) 8080)"

lemma filled_entries:
  assumes "inj_on h {..<n}" "n \<le> 5000"
  shows "filled n h l t = state_new\<lparr>proxies := map (\<lambda>i. (h i @ '':8080'', nth_proxy h l t i)) [0..<n]\<rparr>"
  using assms
proof (induction n)
  case 0
  then show ?case by (simp add: filled_def state_new_def)
next
  case (Suc n)
  then have "inj_on h {..<n}" by (auto intro: inj_on_subset)
  with Suc have IH: "filled n h l t = state_new\<lparr>proxies := map (\<lambda>i. (h i @ '':8080'', nth_proxy h l t i)) [0..<n]\<rparr>"
    by simp
  have "h n \<notin> h ` {..<n}" using Suc.prems(1) by (auto dest: inj_onD)
  then have "host_port (h n) 8080 \<notin> fst ` set (proxies (filled n h l t))" by (auto simp: IH)
  moreover have "length (proxies (filled n h l t)) < max_proxies (filled n h l t)" using Suc.prems(2) by (simp add: IH)
  ultimately have "state_success (h n @ '':8080'') (l n) (t n) (add (h n, 8080) (filled n h l t)) =
      state_new\<lparr>proxies := map (\<lambda>i. (h i @ '':8080'', nth_proxy h l t i)) [0..<Suc n]\<rparr>"
    by (subst add_success) (simp_all add: IH)
  then show ?case by (simp add: filled_def)
qed

lemma recently_first: "recently now (Proxy.record_success l now (make_proxy h prt))"
  "uptime_max_secs (Proxy.record_success l now (make_proxy h prt)) = 0"
  by (simp_all add: recently_def record_success_def Let_def track_uptime_def make_proxy_def proxy_new_def)

text \<open>What all proxies of a filled state share, and its list of verified candidates.\<close>

lemma filled_facts:
  assumes "inj_on h {..<n}" "n \<le> 5000" "prompt 300 t"
  shows "tbl_vals (proxies (filled n h l t)) = map (nth_proxy h l t) [0..<n]"
    and "well_keyed (proxies (filled n h l t))" "exclude_countries (filled n h l t) = Some []"
    and "verified_top (t j) (filled n h l t) =
      map snd (top_n 10 (map (\<lambda>i. (recent_score (latency_ewma (nth_proxy h l t i)), nth_proxy h l t i)) [0..<n]))"
    and "i < n \<Longrightarrow> score (t j) (nth_proxy h l t i) = recent_score (latency_ewma (nth_proxy h l t i))"
proof -
  let ?st = "filled n h l t"
  note f = filled_entries [OF assms(1,2), of l t]
  show v: "tbl_vals (proxies ?st) = map (nth_proxy h l t) [0..<n]"
    by (simp add: f tbl_vals_def comp_def)
  have "inj_on (\<lambda>i. h i @ '':8080'') {0..<n}" using assms(1) by (auto simp: inj_on_def)
  then show "well_keyed (proxies ?st)"
    by (auto simp: f well_keyed_def keys_ok_def comp_def distinct_map score_ok_success)
  show e: "exclude_countries ?st = Some []" by (simp add: f)
  show sc: "score (t j) (nth_proxy h l t i) = recent_score (latency_ewma (nth_proxy h l t i))" for i j
    by (rule score_first [OF assms(3) recently_first])
  have "filter (\<lambda>p. is_available (t j) p \<and> status p = Some Verified \<and> \<not> country_excluded (excluded ?st) p)
      (map (nth_proxy h l t) [0..<n]) = map (nth_proxy h l t) [0..<n]"
    by (intro filter_True) (auto simp: excluded_def e country_excluded_def)
  then show "verified_top (t j) ?st =
      map snd (top_n 10 (map (\<lambda>i. (recent_score (latency_ewma (nth_proxy h l t i)), nth_proxy h l t i)) [0..<n]))"
    by (simp add: collect_top_n_def scored_def v sc comp_def)
qed

text \<open>The latency of a proxy after a first sample of \<open>100 k\<close> milliseconds, and its score.\<close>

lemma first_latency_bounds:
  assumes "1 \<le> k" "k \<le> 100"
  shows "\<exists>a. latency_ewma (Proxy.record_success (Fin (of_int (100 * k))) now (make_proxy h prt)) = Fin a
    \<and> of_int (4000 + 20 * k) \<le> a \<and> a \<le> of_int (4001 + 20 * k)
    \<and> (\<exists>s. recent_score (Fin a) = Fin s \<and> of_int (3900 + 20 * k) \<le> s \<and> s \<le> of_int (3901 + 20 * k))"
proof -
  let ?x = "of_int (100 * k) * (7205759403792794 / 2 ^ 55) :: rat"
  have k: "1 \<le> (of_int k :: rat)" "(of_int k :: rat) \<le> 100"
    using assms of_int_le_iff [of 1 k, where ?'a = rat] of_int_le_iff [of k 100, where ?'a = rat] by simp_all
  then have "\<exists>y. f_mk ?x = Fin y \<and> of_int (20 * k) \<le> y \<and> y \<le> of_int (20 * k + 1)"
    using assms by (intro f_mk_between) simp_all
  then obtain y where y: "f_mk ?x = Fin y" "of_int (20 * k) \<le> y" "y \<le> of_int (20 * k + 1)" by blast
  have "\<exists>a. f_mk (4000 + y) = Fin a \<and> of_int (4000 + 20 * k) \<le> a \<and> a \<le> of_int (4001 + 20 * k)"
    using assms y by (intro f_mk_between) simp_all
  then obtain a where a: "f_mk (4000 + y) = Fin a" "of_int (4000 + 20 * k) \<le> a" "a \<le> of_int (4001 + 20 * k)" by blast
  have "latency_sample (Fin (of_int (100 * k))) = Fin (of_int (100 * k))"
    using assms k by (intro latency_sample_int) simp_all
  moreover have "latency_ewma (make_proxy h prt) = Fin 5000" by (simp add: make_proxy_def proxy_new_def)
  moreover have "f_mul (Fin (of_int (100 * k))) (f_mk (2 / 10)) = Fin y" unfolding weight_02 using y(1) by simp
  then have "ewma (Fin 5000) (Fin (of_int (100 * k))) = Fin a"
    unfolding ewma_def start_08 using a(1) by (simp only: f_add.simps)
  ultimately have l: "latency_ewma (Proxy.record_success (Fin (of_int (100 * k))) now (make_proxy h prt)) = Fin a"
    by (simp only: latency_first)
  have "\<exists>b. f_mk a = Fin b \<and> of_int (4000 + 20 * k) \<le> b \<and> b \<le> of_int (4001 + 20 * k)"
    using assms a by (intro f_mk_between) simp_all
  then obtain b where b: "f_mk a = Fin b" "of_int (4000 + 20 * k) \<le> b" "b \<le> of_int (4001 + 20 * k)" by blast
  have "\<exists>c. f_mk b = Fin c \<and> of_int (4000 + 20 * k) \<le> c \<and> c \<le> of_int (4001 + 20 * k)"
    using assms b by (intro f_mk_between) simp_all
  then obtain c where c: "f_mk b = Fin c" "of_int (4000 + 20 * k) \<le> c" "c \<le> of_int (4001 + 20 * k)" by blast
  have "\<exists>s. f_mk (c - 100) = Fin s \<and> of_int (3900 + 20 * k) \<le> s \<and> s \<le> of_int (3901 + 20 * k)"
    using assms c by (intro f_mk_between) simp_all
  with l a b(1) c(1) show ?thesis by (auto simp: recent_score_def f_sub_def)
qed

lemma inj_host20: "inj_on host20 A"
  by (auto simp: inj_on_def host20_def dest: show_nat_inj)

lemma inj_host50: "inj_on host50 {..<50}"
  by (auto simp: inj_on_def host50_def dest: show_nat_inj)

text \<open>No verified candidate of the top ten comes after ten better ones.\<close>

lemma not_after_ten:
  assumes "well_keyed (proxies st)" "exclude_countries st = Some []" "p \<in> set (verified_top now st)"
    and "tbl_vals (proxies st) = xs @ ys" "length xs = 10"
  shows "\<exists>q \<in> set xs. \<not> (is_available now q \<and> status q = Some Verified \<and> score now q < score now p)"
proof (rule ccontr)
  let ?Q = "\<lambda>q. (is_available now q \<and> status q = Some Verified \<and> \<not> country_excluded (excluded st) q)
    \<and> score now q < score now p"
  assume "\<not> ?thesis"
  then have "filter ?Q xs = xs"
    by (intro filter_True) (auto simp: excluded_def assms(2) country_excluded_def)
  then have "10 \<le> length (filter ?Q (tbl_vals (proxies st)))" unfolding assms(4) filter_append by (simp add: assms(5))
  then show False using collect_top_n_rank [OF assms(1,3)] by linarith
qed

lemma sample50: "i < 50 \<Longrightarrow> f_mul (f_add (f_of_nat i) (Fin 1)) (Fin 100) = Fin (of_int (100 * (int i + 1)))"
proof -
  assume "i < 50"
  then have "int i < 50" by simp
  then have "f_of_nat i = Fin (of_nat i)" "f_mk (of_int (int i + 1)) = Fin (of_int (int i + 1))"
    "f_mk (of_int (100 * (int i + 1))) = Fin (of_int (100 * (int i + 1)))"
    by (intro f_of_nat_exact f_mk_int; simp)+
  then show ?thesis by (simp add: algebra_simps)
qed

lemma upt50: "[0..<50] = [0..<10] @ [10..<50]"
  using upt_add_eq_append [of 0 10 40] by simp

lemma pass_top_n:
  assumes "\<And>i. sampler_ok (rng i)" "prompt 300 t" shows "test_collect_top_n_correctness rng t"
proof -
  let ?l = "\<lambda>i. f_mul (f_add (f_of_nat i) (Fin 1)) (Fin 100)"
  let ?p = "nth_proxy host50 ?l t"
  define st where "st = filled 50 host50 ?l t"
  have lat: "\<exists>a. latency_ewma (?p i) = Fin a \<and> of_int (4020 + 20 * int i) \<le> a \<and> a \<le> of_int (4021 + 20 * int i)
    \<and> (\<exists>s. recent_score (Fin a) = Fin s \<and> of_int (3920 + 20 * int i) \<le> s \<and> s \<le> of_int (3921 + 20 * int i))"
    if "i < 50" for i
    using first_latency_bounds [of "int i + 1" "t i" "host50 i" 8080] that unfolding sample50 [OF that]
    by (simp add: algebra_simps)
  note f = filled_facts [OF inj_host50 _ assms(2), where l = ?l, folded st_def]
  have len: "(50 :: nat) \<le> 5000" by simp
  note f = f(1,2,3) [OF len] f(5) [OF len]
  have count: "verified_count st = 50" by (simp add: verified_count_def count_where_def f(1))
  have top: "f_lt (latency_ewma p) (Fin 4300)" if "p \<in> set (verified_top (t 50) st)" for p
  proof -
    from collect_top_n_sound [OF that] obtain i where i: "i < 50" "p = ?p i" by (auto simp: f(1))
    have vals: "tbl_vals (proxies st) = map ?p [0..<10] @ map ?p [10..<50]" by (simp only: f(1) upt50 map_append)
    have "length (map ?p [0..<10]) = 10" by simp
    from not_after_ten [OF f(2,3) that vals this] obtain j where
      j: "j < 10" "\<not> score (t 50) (?p j) < score (t 50) (?p i)" using i(2) by auto
    have "i < 14"
    proof (rule ccontr)
      assume "\<not> i < 14"
      from lat [of j] j(1) obtain s where s: "score (t 50) (?p j) = Fin s" "s \<le> of_int (3921 + 20 * int j)"
        using f(4) [of j] by auto
      from lat [OF i(1)] obtain r where r: "score (t 50) (?p i) = Fin r" "of_int (3920 + 20 * int i) \<le> r"
        using f(4) [OF i(1)] by auto
      have "of_int (3921 + 20 * int j) < (of_int (3920 + 20 * int i) :: rat)"
        using j(1) \<open>\<not> i < 14\<close> unfolding of_int_less_iff by linarith
      then show False using s r j(2) by simp
    qed
    from lat [OF i(1)] obtain a where a: "latency_ewma p = Fin a" "a \<le> of_int (4021 + 20 * int i)" using i(2) by auto
    have "of_int (4021 + 20 * int i) < (of_int 4300 :: rat)"
      using \<open>i < 14\<close> unfolding of_int_less_iff by linarith
    with a show ?thesis by (simp add: f_lt_def)
  qed
  have "tbl_vals (proxies st) \<noteq> []" by (simp add: f(1))
  have "candidate (t 50) st (Some Verified) (?p 0)" by (simp add: candidate_iff f(1,3))
  then have "verified_top (t 50) st \<noteq> []" using verified_top_empty by blast
  moreover from this have "chosen (\<lambda>p. f_lt (latency_ewma p) (Fin 4300)) (select_some (rng 0) (t 50) (verified_top (t 50) st))"
    by (rule chosen_some [OF assms(1)]) (use top in blast)
  ultimately have "chosen (\<lambda>p. f_lt (latency_ewma p) (Fin 4300)) (select_best (rng 0) (t 50) st)"
    unfolding select_best_eq by (simp only: if_True not_False_eq_True)
  with count show ?thesis unfolding test_collect_top_n_correctness_def Let_def st_def [symmetric] by blast
qed

text \<open>The ten proxies among which every draw of the other test chooses.\<close>

lemma filled_top:
  assumes "inj_on h {..<n}" "10 \<le> n" "n \<le> 5000" "prompt 300 t"
  shows "\<exists>cs. (\<forall>j. verified_top (t j) (filled n h l t) = cs) \<and> length cs = 10 \<and> distinct (map host cs)"
proof -
  let ?p = "nth_proxy h l t"
  let ?es = "map (\<lambda>i. (recent_score (latency_ewma (?p i)), ?p i)) [0..<n]"
  note f = filled_facts [OF assms(1,3,4), where l = l]
  have "score_ok (?p i)" for i by (simp add: score_ok_success)
  then have "f_min_val \<le> recent_score (latency_ewma (?p i)) \<and> recent_score (latency_ewma (?p i)) \<noteq> NaN"
    if "i < n" for i
    using score_ok_number [of "?p i" "t 0"] that f(5) [of i 0] by simp
  then have "numbers ?es" by (auto simp: numbers_def)
  then obtain rest where r: "mset (top_n 10 ?es) + mset rest = mset ?es" "length (top_n 10 ?es) = min 10 (length ?es)"
    by (rule top_n_optimal)
  have "image_mset (\<lambda>e. host (snd e)) (mset (top_n 10 ?es) + mset rest) = image_mset (\<lambda>e. host (snd e)) (mset ?es)"
    by (simp only: r(1))
  moreover have "map (\<lambda>e. host (snd e)) ?es = map h [0..<n]" by simp
  ultimately have "mset (map (\<lambda>e. host (snd e)) (top_n 10 ?es @ rest)) = mset (map h [0..<n])"
    by (metis mset_append mset_map)
  moreover have "distinct (map h [0..<n])" using assms(1) by (simp add: distinct_map atLeast0LessThan)
  ultimately have "distinct (map (\<lambda>e. host (snd e)) (top_n 10 ?es @ rest))" using mset_eq_imp_distinct_iff by blast
  then have "distinct (map host (map snd (top_n 10 ?es)))" by (simp add: comp_def)
  moreover have "length (map snd (top_n 10 ?es)) = 10" using r(2) assms(2) by simp
  ultimately show ?thesis using f(4) by blast
qed

text \<open>
  The index that draw \<open>j\<close> of that test comes to; without one, the first candidate is taken.
\<close>

definition test_draw :: "(nat \<Rightarrow> sampler) \<Rightarrow> (nat \<Rightarrow> clock) \<Rightarrow> nat \<Rightarrow> nat" where
  "test_draw rng t j =
     (let st = filled 20 host20 (\<lambda>i. f_mul (f_of_nat (i + 1)) (Fin 10)) t
      in case rng j (select_weights (t (20 + j)) (verified_top (t (20 + j)) st)) of
           Some i \<Rightarrow> i | None \<Rightarrow> 0)"

lemma pass_weighted:
  assumes "\<And>i. sampler_ok (rng i)" "prompt 300 t"
  shows "test_weighted_random_select_from_top_n rng t \<longleftrightarrow>
    (\<exists>i < 50. \<exists>j < 50. test_draw rng t i \<noteq> test_draw rng t j)"
proof -
  define st where "st = filled 20 host20 (\<lambda>i. f_mul (f_of_nat (i + 1)) (Fin 10)) t"
  define pick where "pick = (\<lambda>j. select_best (rng j) (t (20 + j)) st)"
  from filled_top [OF inj_host20 _ _ assms(2), of 20] obtain cs where
    cs: "\<And>j. verified_top (t j) st = cs" "length cs = 10" "distinct (map host cs)" unfolding st_def by auto
  let ?ws = "\<lambda>j. select_weights (t (20 + j)) cs" and ?d = "test_draw rng t"
  have d: "?d j = (case rng j (?ws j) of Some i \<Rightarrow> i | None \<Rightarrow> 0)" for j
    by (simp only: test_draw_def Let_def st_def [symmetric] cs(1))
  have ws: "length (?ws j) = 10" for j by (simp add: select_weights_def Let_def cs(2))
  have lt: "?d j < 10" for j
    unfolding d using assms(1) [of j] ws [of j] unfolding sampler_ok_def by (force split: option.split)
  have p: "pick j = Ret (Some (cs ! ?d j))" for j
    using lt [of j] cs(1) [of "20 + j"] cs(2) unfolding pick_def select_best_eq d
    by (auto simp: select_some_def weighted_random_select_def index_proxy_def split: option.splits)
  let ?hosts = "set (List.map_filter answer_host (map pick [0..<50]))"
  have h: "?hosts = (\<lambda>j. host (cs ! ?d j)) ` {..<50}"
    by (auto simp: map_filter_def p answer_host_def)
  have eq: "host (cs ! ?d i) = host (cs ! ?d j) \<longleftrightarrow> ?d i = ?d j" for i j
    using nth_eq_iff_index_eq [OF cs(3), of "?d i" "?d j"] lt [of i] lt [of j] cs(2) by simp
  have "1 < card ?hosts \<longleftrightarrow> \<not> card ?hosts \<le> Suc 0" by linarith
  also have "\<dots> \<longleftrightarrow> (\<exists>i < 50. \<exists>j < 50. ?d i \<noteq> ?d j)"
    unfolding h by (subst card_le_Suc0_iff_eq) (auto simp: eq)
  finally have "1 < card ?hosts \<longleftrightarrow> (\<exists>i < 50. \<exists>j < 50. ?d i \<noteq> ?d j)" .
  moreover have "Panic \<notin> set (map pick [0..<50])" by (auto simp: p)
  ultimately show ?thesis
    unfolding test_weighted_random_select_from_top_n_def Let_def st_def [symmetric] pick_def [symmetric]
      length_remdups_card_conv by blast
qed

text \<open>
  C12: the tests of the shared state pass for every sampler that stays in range, as long as a test
  is not held up for a minute, but for one that leaves its result to chance: the test of the
  weighted draw, which wants different answers, passes exactly if two of its fifty draws differ.
\<close>

theorem state_tests_pass:
  assumes "\<And>i. sampler_ok (rng i)" "prompt 60 t"
  shows "test_insert_and_get \<and> test_insert_duplicate_returns_false \<and> test_record_success_updates_status t
    \<and> test_record_fail_increments_fail_count t \<and> test_circuit_breaker_opens_after_5_fails t
    \<and> test_select_best_returns_none_when_empty rng t \<and> test_select_best_prefers_verified_over_unchecked rng t
    \<and> (test_weighted_random_select_from_top_n rng t \<longleftrightarrow>
        (\<exists>i < 50. \<exists>j < 50. test_draw rng t i \<noteq> test_draw rng t j))
    \<and> test_proxies_needing_check_priority t \<and> test_ban_and_unban
    \<and> test_insert_rejected_when_pool_full \<and> test_cleanup_stale_removes_old_unchecked t
    \<and> test_full_proxy_lifecycle rng t \<and> test_geo_index_insert_and_lookup \<and> test_geo_index_no_duplicates
    \<and> test_geo_index_remove \<and> test_select_best_by_country_uses_geo_index rng t
    \<and> test_collect_top_n_correctness rng t \<and> test_set_tls_clean t \<and> test_tls_counts t
    \<and> test_select_best_for_tls_prefers_clean rng t \<and> test_select_best_for_tls_fallback_when_no_clean rng t"
proof -
  have t: "prompt 300 t" using prompt_mono [OF assms(2)] by simp
  show ?thesis
    by (intro conjI pass_inserts pass_marks pass_circuit [OF assms(2)] pass_select [OF assms(1)]
        pass_weighted [OF assms(1) t] pass_needing_check [OF assms(2)] pass_lifecycle [OF assms(1,2)]
        pass_geo_index pass_country [OF assms(1)] pass_top_n [OF assms(1) t] pass_tls [OF assms(1)])
qed

text \<open>Draws that go round pass all the tests; a sampler that always draws the first does not.\<close>

theorem state_tests_pass_witness:
  "test_full_proxy_lifecycle (\<lambda>i ws. if ws = [] then None else Some (i mod length ws)) (\<lambda>_. \<lparr>inst = 5, utc = 7\<rparr>)
   \<and> test_weighted_random_select_from_top_n (\<lambda>i ws. if ws = [] then None else Some (i mod length ws)) (\<lambda>_. \<lparr>inst = 5, utc = 7\<rparr>)
   \<and> \<not> test_weighted_random_select_from_top_n (\<lambda>i ws. if ws = [] then None else Some 0) (\<lambda>_. \<lparr>inst = 5, utc = 7\<rparr>)"
proof -
  let ?rng = "\<lambda>i ws. if ws = [] then None else Some (i mod length ws)"
  let ?one = "\<lambda>i ws. if ws = [] then None else Some (0 :: nat)" and ?t = "\<lambda>_. \<lparr>inst = 5, utc = 7\<rparr>"
  have ok: "sampler_ok (?rng i)" "sampler_ok (?one i)" for i by (auto simp: sampler_ok_def)
  have pr: "prompt 60 ?t" "prompt 300 ?t" by (rule prompt_const, simp)+
  obtain cs where cs: "\<And>j. verified_top (?t j) (filled 20 host20 (\<lambda>i. f_mul (f_of_nat (i + 1)) (Fin 10)) ?t) = cs"
    "length cs = 10" using filled_top [OF inj_host20 _ _ pr(2), of 20] by auto
  have "length (select_weights (?t j) cs) = 10" for j by (simp add: select_weights_def Let_def cs(2))
  then have d: "test_draw ?rng ?t j = j mod 10" "test_draw ?one ?t j = 0" for j
    using cs(1) unfolding test_draw_def Let_def by auto
  have "\<exists>i < 50. \<exists>j < 50. test_draw ?rng ?t i \<noteq> test_draw ?rng ?t j"
    unfolding d by (intro exI [of _ 0] conjI exI [of _ 1]) simp_all
  then show ?thesis
    using state_tests_pass [OF ok(1) pr(1)] state_tests_pass [OF ok(2) pr(1)] d(2) by simp
qed

end
