(* ===== verification/Benches.thy ===== *)
theory Benches
  imports TestsState
begin

text \<open>
  \<open>benches/proxy_bench.rs\<close>: what the benchmarks do in one iteration and to what they do it, so
  that one can say what it is that they measure.  Every call reads its own clock.  Criterion
  decides how often an iteration runs; the theorems are about any number of them.
\<close>

section \<open>The pool of the benchmarks\<close>

definition bench_host :: "nat \<Rightarrow> string" where
  "bench_host i = ''10.'' @ show_nat (i div 65536 mod 256) @ ''.'' @ show_nat (i div 256 mod 256)
     @ ''.'' @ show_nat (i mod 256 + 1)"

definition bench_latency :: "nat \<Rightarrow> f64" where
  "bench_latency i = f_mul (f_add (f_of_nat i) (Fin 1)) (Fin 10)"

definition setup_pool :: "nat \<Rightarrow> (nat \<Rightarrow> clock) \<Rightarrow> tstate" where
  "setup_pool n t =
     fold (\<lambda>i st. state_success (bench_host i @ '':8080'') (bench_latency i) (t i) (add (bench_host i, 8080) st))
       [0..<n] state_new"

section \<open>Selection and scoring\<close>

definition bench_collect_top_n :: "sampler \<Rightarrow> clock \<Rightarrow> tstate \<Rightarrow> proxy option comp" where
  "bench_collect_top_n rng now st = select_best rng now st"

definition bench_proxy :: proxy where
  "bench_proxy = make_proxy ''10.0.0.1'' 8080"

definition bench_record_success :: "clock list \<Rightarrow> proxy" where
  "bench_record_success ts = fold (Proxy.record_success (Fin 150)) ts bench_proxy"

definition record_fail_iteration :: "clock \<Rightarrow> proxy \<Rightarrow> proxy" where
  "record_fail_iteration now p =
     (let p = Proxy.record_fail now p
      in if 50 \<le> consecutive_fails p then p\<lparr>consecutive_fails := 0, circuit_open_until := None\<rparr> else p)"

definition bench_record_fail :: "clock list \<Rightarrow> proxy" where
  "bench_record_fail ts = fold record_fail_iteration ts bench_proxy"

definition bench_score :: "clock \<Rightarrow> clock \<Rightarrow> f64" where
  "bench_score t now = score now (Proxy.record_success (Fin 150) t bench_proxy)"

definition bench_is_available :: "clock \<Rightarrow> clock \<Rightarrow> bool" where
  "bench_is_available t now = is_available now (Proxy.record_success (Fin 100) t bench_proxy)"

section \<open>Insertion\<close>

text \<open>The answers of the iterations, the counter going up by one each time.\<close>

fun new_proxy_iterations :: "nat \<Rightarrow> nat \<Rightarrow> tstate \<Rightarrow> bool list" where
  "new_proxy_iterations 0 i st = []"
| "new_proxy_iterations (Suc n) i st =
     (case insert_if_absent (make_proxy (bench_host i) 8080) st of
        (ok, st') \<Rightarrow> ok # new_proxy_iterations n (Suc i) st')"

definition bench_new_proxy :: "nat \<Rightarrow> bool list" where
  "bench_new_proxy n = new_proxy_iterations n 0 state_new"

fun duplicate_iterations :: "nat \<Rightarrow> tstate \<Rightarrow> bool list" where
  "duplicate_iterations 0 st = []"
| "duplicate_iterations (Suc n) st =
     (case insert_if_absent bench_proxy st of (ok, st') \<Rightarrow> ok # duplicate_iterations n st')"

definition bench_duplicate :: "nat \<Rightarrow> bool list" where
  "bench_duplicate n = duplicate_iterations n (snd (insert_if_absent bench_proxy state_new))"

section \<open>The benchmark of the country index\<close>

definition bench_countries :: "string list" where
  "bench_countries = [''US'', ''DE'', ''NL'', ''JP'', ''GB'']"

text \<open>
  The loop over \<open>state.proxies.iter().enumerate()\<close>.  \<open>get_mut\<close> blocks while the shard of its key
  has a reader (\<open>None\<close>: the loop does not go on).  The reader is the iterator itself, if it
  keeps the guard of the shard it is in between two entries; the guard of the entry is dropped.
\<close>

fun assign_countries :: "(string \<Rightarrow> nat) \<Rightarrow> bool \<Rightarrow> nat \<Rightarrow> string list \<Rightarrow> tstate \<Rightarrow> tstate option" where
  "assign_countries shard iter_guard i [] st = Some st"
| "assign_countries shard iter_guard i (key # keys) st =
     (let c = bench_countries ! (i mod length bench_countries);
          held = (if iter_guard then [shard key] else [])
      in if shard key \<in> set held then None
         else assign_countries shard iter_guard (Suc i) keys
           (update_geo_index key c
             (st\<lparr>proxies := tbl_modify key (\<lambda>p. p\<lparr>country := Some c\<rparr>) (proxies st)\<rparr>)))"

definition bench_select_best_by_country ::
  "(string \<Rightarrow> nat) \<Rightarrow> bool \<Rightarrow> (nat \<Rightarrow> clock) \<Rightarrow> sampler \<Rightarrow> clock \<Rightarrow> proxy option comp option" where
  "bench_select_best_by_country shard iter_guard t rng now =
     (let st = setup_pool 1000 t
      in map_option (select_best_by_country rng now ''US'')
        (assign_countries shard iter_guard 0 (map fst (proxies st)) st))"

section \<open>The pool they run on\<close>

lemma split_at_dot:
  assumes "a @ CHR ''.'' # s = b @ CHR ''.'' # s'" "CHR ''.'' \<notin> set a" "CHR ''.'' \<notin> set b"
  shows "a = b \<and> s = s'"
  using assms by (induction a arbitrary: b) (case_tac b; auto)+

lemma show_nat_no_dot: "CHR ''.'' \<notin> set (show_nat n)"
  using show_nat_digits [of "CHR ''.''" n] by (auto simp: is_digit_def)

lemma three_bytes:
  assumes "i < 2 ^ 24"
  shows "(i div 65536 mod 256) * 65536 + (i div 256 mod 256) * 256 + i mod 256 = (i :: nat)"
proof -
  have d: "i div 65536 = i div 256 div 256" by (simp flip: div_mult2_eq)
  have "i div 256 div 256 < 256" using assms by (simp flip: div_mult2_eq)
  with d have m: "i div 65536 mod 256 = i div 256 div 256" by simp
  have "i div 256 * 256 + i mod 256 = i" "i div 256 div 256 * 256 + i div 256 mod 256 = i div 256"
    by (rule div_mult_mod_eq)+
  then show ?thesis unfolding m by linarith
qed

lemma bench_host_inj: "inj_on bench_host {..<2 ^ 24}"
proof (rule inj_onI)
  fix i j :: nat
  assume ij: "i \<in> {..<2 ^ 24}" "j \<in> {..<2 ^ 24}" and eq: "bench_host i = bench_host j"
  have e: "show_nat (i div 65536 mod 256) @ CHR ''.'' # show_nat (i div 256 mod 256) @ CHR ''.'' # show_nat (i mod 256 + 1)
      = show_nat (j div 65536 mod 256) @ CHR ''.'' # show_nat (j div 256 mod 256) @ CHR ''.'' # show_nat (j mod 256 + 1)"
    using eq unfolding bench_host_def by simp
  note split_at_dot [OF e show_nat_no_dot show_nat_no_dot]
  then have "i div 65536 mod 256 = j div 65536 mod 256"
      and r: "show_nat (i div 256 mod 256) @ CHR ''.'' # show_nat (i mod 256 + 1)
        = show_nat (j div 256 mod 256) @ CHR ''.'' # show_nat (j mod 256 + 1)"
    by (blast dest: show_nat_inj)+
  moreover from split_at_dot [OF r show_nat_no_dot show_nat_no_dot]
  have "i div 256 mod 256 = j div 256 mod 256" "i mod 256 + 1 = j mod 256 + 1" by (blast dest: show_nat_inj)+
  ultimately show "i = j" using three_bytes [of i] three_bytes [of j] ij by simp
qed

lemma bench_host_distinct: "n \<le> 2 ^ 24 \<Longrightarrow> inj_on bench_host {..<n}"
  by (rule inj_on_subset [OF bench_host_inj]) auto

lemma setup_pool_filled: "setup_pool n t = filled n bench_host bench_latency t"
  by (simp add: setup_pool_def filled_def)

lemma setup_pool_entries:
  assumes "n \<le> 5000"
  shows "setup_pool n t =
    state_new\<lparr>proxies := map (\<lambda>i. (bench_host i @ '':8080'', nth_proxy bench_host bench_latency t i)) [0..<n]\<rparr>"
  unfolding setup_pool_filled by (rule filled_entries) (use assms bench_host_distinct [of n] in auto)

lemma setup_pool_keys:
  "n \<le> 5000 \<Longrightarrow> map fst (proxies (setup_pool n t)) = map (\<lambda>i. bench_host i @ '':8080'') [0..<n]"
  by (simp add: setup_pool_entries comp_def)

lemma setup_pool_nonempty: "0 < n \<Longrightarrow> n \<le> 5000 \<Longrightarrow> map fst (proxies (setup_pool n t)) \<noteq> []"
  unfolding setup_pool_keys by simp

text \<open>The pools that the benchmarks of the selection use have as many verified proxies as asked for.\<close>

lemma setup_pool_verified: "n \<le> 5000 \<Longrightarrow> total_count (setup_pool n t) = n \<and> verified_count (setup_pool n t) = n"
  by (simp add: setup_pool_entries total_count_def tbl_len_def verified_count_def count_where_def tbl_vals_def
      comp_def record_success_def Let_def track_uptime_def make_proxy_def proxy_new_def)

section \<open>What they measure\<close>

lemma bench_collect_top_n_selects:
  assumes "0 < n" "n \<le> 5000" "sampler_ok rng"
  shows "\<exists>p. bench_collect_top_n rng now (setup_pool n t) = Ret (Some p)"
proof -
  have "candidate now (setup_pool n t) (Some Verified) (nth_proxy bench_host bench_latency t 0)"
    using assms(1,2) by (auto simp: candidate_def setup_pool_entries tbl_vals_def country_excluded_def excluded_def state_new_def)
  then have "verified_top now (setup_pool n t) \<noteq> []" unfolding verified_top_empty by blast
  with select_some_total [OF assms(3) this, of now] show ?thesis
    unfolding bench_collect_top_n_def select_best_eq by auto
qed

text \<open>The benchmark of \<open>record_fail\<close> never reaches the permanent failure.\<close>

lemma record_fail_iteration_bounded: "consecutive_fails (record_fail_iteration now p) < 50"
  by (simp add: record_fail_iteration_def Let_def not_le)

lemma bench_record_fail_bounded: "consecutive_fails (bench_record_fail ts) < 50"
  unfolding bench_record_fail_def
  by (cases ts rule: rev_cases)
    (simp_all add: record_fail_iteration_bounded bench_proxy_def make_proxy_def proxy_new_def)

lemma bench_is_available_true: "bench_is_available t now"
  by (simp add: bench_is_available_def)

text \<open>
  The benchmark of inserting new proxies inserts five thousand of them; every later iteration
  measures the refusal of a full pool.
\<close>

lemma new_proxy_full:
  "length (proxies st) = 5000 \<Longrightarrow> max_proxies st = 5000 \<Longrightarrow> new_proxy_iterations n i st = replicate n False"
  by (induction n arbitrary: i) (simp_all add: insert_if_absent_def tbl_len_def)

abbreviation bench_entry :: "nat \<Rightarrow> string \<times> proxy" where
  "bench_entry i \<equiv> (bench_host i @ '':8080'', make_proxy (bench_host i) 8080)"

lemma new_proxy_inserts:
  assumes "i < 5000" "proxies st = map bench_entry [0..<i]" "max_proxies st = 5000"
  shows "insert_if_absent (make_proxy (bench_host i) 8080) st =
    (True, st\<lparr>proxies := map bench_entry [0..<Suc i]\<rparr>)"
proof -
  have "bench_host i \<notin> bench_host ` {..<i}"
    using inj_onD [OF bench_host_inj, of i] assms(1) by fastforce
  then have new: "bench_host i @ '':8080'' \<notin> fst ` set (proxies st)" by (auto simp: assms(2))
  have key: "proxy_key (make_proxy (bench_host i) 8080) = bench_host i @ '':8080''"
    by (simp add: make_proxy_def proxy_new_def proxy_key_def)
  have "tbl_put (bench_host i @ '':8080'') (make_proxy (bench_host i) 8080) (proxies st) = proxies st @ [bench_entry i]"
    unfolding tbl_put_def using new by (simp add: update_fresh)
  moreover have "\<not> tbl_has (proxies st) (bench_host i @ '':8080'')" using new by (simp add: tbl_has_iff)
  ultimately show ?thesis using assms by (simp add: insert_if_absent_def key tbl_len_def)
qed

lemma new_proxy_from:
  assumes "i \<le> 5000" "proxies st = map bench_entry [0..<i]" "max_proxies st = 5000"
  shows "new_proxy_iterations n i st = map (\<lambda>j. j < 5000) [i..<i + n]"
  using assms
proof (induction n arbitrary: i st)
  case (Suc n)
  show ?case
  proof (cases "i = 5000")
    case True
    then have "map (\<lambda>j. j < 5000) [i..<i + Suc n] = replicate (Suc n) False"
      by (intro nth_equalityI) (simp_all del: upt_Suc replicate_Suc)
    moreover have "length (proxies st) = 5000" using True Suc.prems(2) by simp
    ultimately show ?thesis using new_proxy_full Suc.prems(3) by metis
  next
    case False
    with Suc.prems have "i < 5000" by simp
    from new_proxy_inserts [OF this Suc.prems(2,3)]
      Suc.IH [of "Suc i" "st\<lparr>proxies := map bench_entry [0..<Suc i]\<rparr>"] Suc.prems(3) \<open>i < 5000\<close>
    show ?thesis by (simp add: upt_conv_Cons del: upt_Suc)
  qed
qed simp

theorem new_proxy_measures_refusals: "bench_new_proxy n = map (\<lambda>i. i < 5000) [0..<n]"
  unfolding bench_new_proxy_def using new_proxy_from [of 0 state_new n] by (simp add: state_new_def)

lemma duplicate_never_inserts: "bench_duplicate n = replicate n False"
proof -
  let ?st = "snd (insert_if_absent bench_proxy state_new) :: tstate"
  have "insert_if_absent bench_proxy ?st = (False, ?st)"
    by (simp add: insert_if_absent_def state_new_def tbl_len_def tbl_put_def tbl_has_iff)
  then have "duplicate_iterations n ?st = replicate n False" by (induction n) simp_all
  then show ?thesis by (simp add: bench_duplicate_def)
qed

lemma assign_hangs: "keys \<noteq> [] \<Longrightarrow> assign_countries shard True i keys st = None"
  by (cases keys) (simp_all add: Let_def)

text \<open>
  With an iterator that keeps the guard of its shard, which is what \<open>DashMap\<close> documents, the
  set-up of the benchmark of the country index stops at its first entry.
\<close>

theorem country_benchmark_hangs: "bench_select_best_by_country shard True t rng now = None"
  by (simp only: bench_select_best_by_country_def Let_def assign_hangs setup_pool_nonempty
      zero_less_numeral numeral_le_iff semiring_norm option.map simp_thms)

section \<open>The country benchmark without the guard\<close>

text \<open>What the loop keeps: the proxies listed under US are the ones it has marked.\<close>

definition marked :: "clock \<Rightarrow> string list \<Rightarrow> tstate \<Rightarrow> bool" where
  "marked now rest st \<longleftrightarrow>
     (\<forall>k \<in> set rest. \<exists>p. tbl_get (proxies st) k = Some p \<and> is_available now p \<and> status p = Some Verified)
     \<and> (\<forall>k \<in> set (get_keys ''US'' (geo_index st)). k \<notin> set rest
          \<and> (\<exists>p. tbl_get (proxies st) k = Some p \<and> is_available now p \<and> status p = Some Verified
               \<and> country p = Some ''US''))"

lemma is_available_country [simp]: "is_available now (p\<lparr>country := c\<rparr>) = is_available now p"
  by (simp add: is_available_def)

lemma get_keys_insert:
  "set (get_keys c' (geo_insert c key ix)) = (if c' = c then insert key (set (get_keys c ix)) else set (get_keys c' ix))"
  by (auto simp: get_keys_def geo_insert_def Let_def split: option.split)

lemma assign_countries_marks:
  assumes "distinct keys" "marked now keys st"
  shows "\<exists>st'. assign_countries shard False i keys st = Some st' \<and> marked now [] st'
    \<and> set (get_keys ''US'' (geo_index st)) \<subseteq> set (get_keys ''US'' (geo_index st'))
    \<and> (keys \<noteq> [] \<and> i = 0 \<longrightarrow> get_keys ''US'' (geo_index st') \<noteq> [])"
  using assms
proof (induction keys arbitrary: i st)
  case (Cons key keys)
  define c where "c = bench_countries ! (i mod length bench_countries)"
  define st1 where "st1 = update_geo_index key c
    (st\<lparr>proxies := tbl_modify key (\<lambda>p. p\<lparr>country := Some c\<rparr>) (proxies st)\<rparr>)"
  have ix: "set (get_keys ''US'' (geo_index st1)) =
      (if c = ''US'' then insert key (set (get_keys ''US'' (geo_index st))) else set (get_keys ''US'' (geo_index st)))"
    by (simp add: st1_def update_geo_index_def get_keys_insert)
  have "marked now keys st1"
    unfolding marked_def ix using Cons.prems
    by (auto simp: marked_def st1_def update_geo_index_def split: if_splits)
  from Cons.IH [OF _ this, of "Suc i"] Cons.prems(1) obtain st' where
    st': "assign_countries shard False (Suc i) keys st1 = Some st'" "marked now [] st'"
      "set (get_keys ''US'' (geo_index st1)) \<subseteq> set (get_keys ''US'' (geo_index st'))" by auto
  have "c = ''US''" if "i = 0" using that by (simp add: c_def bench_countries_def)
  with st'(3) ix have "i = 0 \<longrightarrow> get_keys ''US'' (geo_index st') \<noteq> []" by fastforce
  with st' ix show ?case by (auto simp: Let_def c_def [symmetric] st1_def [symmetric] split: if_splits)
qed auto

text \<open>Were the iterator to hold nothing, the benchmark would measure selections of US proxies.\<close>

theorem country_benchmark_selects:
  assumes "sampler_ok rng"
  shows "\<exists>p. bench_select_best_by_country shard False t rng now = Some (Ret (Some p)) \<and> country p = Some ''US''"
proof -
  let ?st = "setup_pool 1000 t" and ?p = "nth_proxy bench_host bench_latency t"
  note e = setup_pool_entries [of 1000 t]
  have keys: "map fst (proxies ?st) = map (\<lambda>i. bench_host i @ '':8080'') [0..<1000]" by (simp add: e comp_def)
  have "inj_on (\<lambda>i. bench_host i @ '':8080'') {0..<1000}"
    using bench_host_distinct [of 1000] by (auto simp: inj_on_def)
  then have d: "distinct (map fst (proxies ?st))" unfolding keys by (simp add: distinct_map)
  have "\<exists>p. tbl_get (proxies ?st) k = Some p \<and> is_available now p \<and> status p = Some Verified"
    if "k \<in> set (map fst (proxies ?st))" for k
  proof -
    from that obtain p where kp: "(k, p) \<in> set (proxies ?st)" by auto
    with d have "tbl_get (proxies ?st) k = Some p" by (simp add: tbl_get_def)
    moreover from kp obtain i where "p = ?p i" by (auto simp: e)
    ultimately show ?thesis by simp
  qed
  then have "marked now (map fst (proxies ?st)) ?st"
    by (auto simp: marked_def e state_new_def get_keys_def)
  from assign_countries_marks [OF d this, of shard 0] obtain st' where
    st': "assign_countries shard False 0 (map fst (proxies ?st)) ?st = Some st'" "marked now [] st'"
      "get_keys ''US'' (geo_index st') \<noteq> []" by (auto simp: keys)
  define cs where "cs = filter (\<lambda>p. is_available now p \<and> status p = Some Verified)
      (List.map_filter (tbl_get (proxies st')) (get_keys ''US'' (geo_index st')))"
  have us: "p \<in> set cs \<Longrightarrow> country p = Some ''US''" for p
    using st'(2) by (fastforce simp: cs_def marked_def List.map_filter_def)
  obtain k ks where "get_keys ''US'' (geo_index st') = k # ks" using st'(3) by (cases "get_keys ''US'' (geo_index st')") auto
  with st'(2) have "cs \<noteq> []" by (auto simp: cs_def marked_def List.map_filter_def)
  then have "take 10 (sort_key (score now) cs) \<noteq> []" by (metis length_greater_0_conv length_sort take_eq_Nil2 zero_neq_numeral)
  from select_some_total [OF assms this, of now] obtain p where
    p: "p \<in> set (take 10 (sort_key (score now) cs))" "select_some rng now (take 10 (sort_key (score now) cs)) = Ret (Some p)" by blast
  then have "select_best_by_country rng now ''US'' st' = Ret (Some p)"
    using st'(3) \<open>cs \<noteq> []\<close> by (simp add: select_best_by_country_def Let_def cs_def [symmetric])
  moreover have "country p = Some ''US''" using us p(1) by (metis in_set_takeD set_sort)
  ultimately show ?thesis by (simp add: bench_select_best_by_country_def Let_def st'(1))
qed

end
