(* ===== verification/TestsProxy.thy ===== *)
theory TestsProxy
  imports Testing
begin

text \<open>The unit tests of \<open>src/pool/proxy.rs\<close>.\<close>

section \<open>The tests\<close>

definition p1234 :: "protocol \<Rightarrow> proxy" where
  "p1234 proto = proxy_new ''1.2.3.4'' 8080 proto"

text \<open>\<open>n\<close> successes with a latency, or \<open>n\<close> failures, the calls numbered from \<open>i\<close>.\<close>

definition succeed :: "(nat \<Rightarrow> clock) \<Rightarrow> nat \<Rightarrow> nat \<Rightarrow> f64 \<Rightarrow> proxy \<Rightarrow> proxy" where
  "succeed t i n l p = fold (\<lambda>j. Proxy.record_success l (t j)) [i..<i + n] p"

definition fail_times :: "(nat \<Rightarrow> clock) \<Rightarrow> nat \<Rightarrow> nat \<Rightarrow> proxy \<Rightarrow> proxy" where
  "fail_times t i n p = fold (\<lambda>j. Proxy.record_fail (t j)) [i..<i + n] p"

definition test_ewma_convergence :: "(nat \<Rightarrow> clock) \<Rightarrow> bool" where
  "test_ewma_convergence t \<longleftrightarrow> latency_ewma (p1234 Http) = Fin 5000
     \<and> f_lt (latency_ewma (succeed t 0 10 (Fin 200) (p1234 Http))) (Fin 1000)"

text \<open>Failure number \<open>n\<close> is call \<open>2 n\<close>, the look at the proxy after it call \<open>2 n + 1\<close>.\<close>

definition test_circuit_breaker :: "(nat \<Rightarrow> clock) \<Rightarrow> bool" where
  "test_circuit_breaker t \<longleftrightarrow>
     (let after = \<lambda>n. fail_times (\<lambda>j. t (2 * j)) 0 n (p1234 Http)
      in list_all (\<lambda>n. is_available (t (2 * n - 1)) (after n)) [1, 2, 3, 4]
         \<and> \<not> is_available (t 9) (after 5))"

definition test_serialization_roundtrip :: "(f64 \<Rightarrow> f64) \<Rightarrow> (nat \<Rightarrow> clock) \<Rightarrow> bool" where
  "test_serialization_roundtrip fp t \<longleftrightarrow>
     (let p2 = reload fp (Proxy.record_success (Fin 150) (t 0) (p1234 Socks5))
      in host p2 = ''1.2.3.4'' \<and> port p2 = 8080 \<and> protocol p2 = Socks5 \<and> circuit_open_until p2 = None)"

definition test_score_lower_is_better :: "(nat \<Rightarrow> clock) \<Rightarrow> bool" where
  "test_score_lower_is_better t \<longleftrightarrow>
     (let fast = Proxy.record_success (Fin 50) (t 0) (p1234 Http);
          slow = Proxy.record_success (Fin 500) (t 1) (proxy_new ''5.6.7.8'' 3128 Http)
      in f_lt (score (t 2) fast) (score (t 3) slow))"

definition test_score_penalizes_consecutive_fails :: "(nat \<Rightarrow> clock) \<Rightarrow> bool" where
  "test_score_penalizes_consecutive_fails t \<longleftrightarrow>
     f_lt (score (t 0) (p1234 Http)) (score (t 2) (Proxy.record_fail (t 1) (p1234 Http)))"

definition test_circuit_breaker_escalation :: "(nat \<Rightarrow> clock) \<Rightarrow> bool" where
  "test_circuit_breaker_escalation t \<longleftrightarrow>
     (let p = fail_times t 0 4 (p1234 Http); q = Proxy.record_fail (t 5) p
      in is_available (t 4) p \<and> \<not> is_available (t 6) q
         \<and> is_available (t 7) (q\<lparr>circuit_open_until := None\<rparr>))"

definition test_permanent_failure_after_50_fails :: "(nat \<Rightarrow> clock) \<Rightarrow> bool" where
  "test_permanent_failure_after_50_fails t \<longleftrightarrow> status (fail_times t 0 50 (p1234 Http)) = Some Failed"

definition test_recovery_after_success :: "(nat \<Rightarrow> clock) \<Rightarrow> bool" where
  "test_recovery_after_success t \<longleftrightarrow>
     (let p = fail_times t 0 4 (p1234 Http); q = Proxy.record_success (Fin 100) (t 5) p
      in is_available (t 4) p \<and> is_available (t 6) q \<and> consecutive_fails q = 0)"

definition test_mark_presumed_alive :: "(nat \<Rightarrow> clock) \<Rightarrow> bool" where
  "test_mark_presumed_alive t \<longleftrightarrow>
     (let p = mark_presumed_alive (Proxy.record_fail (t 0) (p1234 Http))
      in status p = Some PresumedAlive \<and> is_available (t 1) p \<and> consecutive_fails p = 0)"

definition test_ewma_alpha_is_0_2 :: "(nat \<Rightarrow> clock) \<Rightarrow> bool" where
  "test_ewma_alpha_is_0_2 t \<longleftrightarrow>
     f_lt (f_abs (f_sub (latency_ewma (Proxy.record_success (Fin 100) (t 0) (p1234 Http))) (Fin 4020))) (Fin 1)"

definition test_ewma_handles_nan_and_infinity :: "(nat \<Rightarrow> clock) \<Rightarrow> bool" where
  "test_ewma_handles_nan_and_infinity t \<longleftrightarrow>
     (let p = Proxy.record_success NaN (t 0) (p1234 Http);
          q = Proxy.record_success PInf (t 1) p;
          r = Proxy.record_success (Fin (- 100)) (t 2) q
      in f_is_finite (latency_ewma p) \<and> f_is_finite (latency_ewma q) \<and> f_is_finite (latency_ewma r))"

text \<open>The derived \<open>Debug\<close> prints the name of the variant.\<close>

fun debug_protocol :: "protocol \<Rightarrow> string" where
  "debug_protocol Http = ''Http''"
| "debug_protocol Socks5 = ''Socks5''"
| "debug_protocol Https = ''Https''"

definition test_protocol_display :: bool where
  "test_protocol_display \<longleftrightarrow> debug_protocol Http = ''Http'' \<and> debug_protocol Socks5 = ''Socks5''"

definition test_addr_format :: bool where
  "test_addr_format \<longleftrightarrow> proxy_addr (proxy_new ''10.0.0.1'' 8080 Http) = ''10.0.0.1:8080''"

definition test_stability_bonus_in_score :: "(nat \<Rightarrow> clock) \<Rightarrow> bool" where
  "test_stability_bonus_in_score t \<longleftrightarrow>
     (let stable = (Proxy.record_success (Fin 200) (t 0) (p1234 Http))\<lparr>uptime_max_secs := 3600\<rparr>;
          fresh = Proxy.record_success (Fin 200) (t 1) (proxy_new ''5.6.7.8'' 8080 Http)
      in f_lt (score (t 2) stable) (score (t 3) fresh))"

definition test_uptime_streak_starts_on_success :: "(nat \<Rightarrow> clock) \<Rightarrow> bool" where
  "test_uptime_streak_starts_on_success t \<longleftrightarrow> uptime_streak_start (p1234 Http) = None
     \<and> uptime_streak_start (Proxy.record_success (Fin 100) (t 0) (p1234 Http)) \<noteq> None"

definition test_uptime_streak_resets_on_fail :: "(nat \<Rightarrow> clock) \<Rightarrow> bool" where
  "test_uptime_streak_resets_on_fail t \<longleftrightarrow>
     (let p = Proxy.record_success (Fin 100) (t 0) (p1234 Http)
      in uptime_streak_start p \<noteq> None \<and> uptime_streak_start (Proxy.record_fail (t 1) p) = None)"

definition test_uptime_max_persists_across_failures :: "(nat \<Rightarrow> clock) \<Rightarrow> bool" where
  "test_uptime_max_persists_across_failures t \<longleftrightarrow>
     (let p = Proxy.record_fail (t 0) ((p1234 Http)\<lparr>uptime_max_secs := 600\<rparr>);
          q = Proxy.record_success (Fin 200) (t 1) p;
          no_history = Proxy.record_success (Fin 200) (t 3) (proxy_new ''5.6.7.8'' 8080 Http)
      in uptime_max_secs p = 600 \<and> f_lt (score (t 2) q) (score (t 4) no_history))"

definition test_stability_bonus_caps_at_500 :: "(nat \<Rightarrow> clock) \<Rightarrow> bool" where
  "test_stability_bonus_caps_at_500 t \<longleftrightarrow>
     (let p = (Proxy.record_success (Fin 200) (t 0) (p1234 Http))\<lparr>uptime_max_secs := 86400\<rparr>;
          base = Proxy.record_success (Fin 200) (t 1) (proxy_new ''5.6.7.8'' 8080 Http);
          diff = f_sub (score (t 2) base) (score (t 3) p)
      in f_lt (f_abs (f_sub diff (Fin 500))) (Fin 1))"

definition test_serialization_roundtrip_with_uptime :: "(f64 \<Rightarrow> f64) \<Rightarrow> (nat \<Rightarrow> clock) \<Rightarrow> bool" where
  "test_serialization_roundtrip_with_uptime fp t \<longleftrightarrow>
     (let p2 = reload fp ((Proxy.record_success (Fin 150) (t 0) (p1234 Socks5))\<lparr>uptime_max_secs := 3600\<rparr>)
      in uptime_max_secs p2 = 3600 \<and> uptime_streak_start p2 = None)"

section \<open>They pass\<close>

text \<open>One step of the average, from an integer bound to an integer bound.\<close>

lemma ewma_below:
  assumes "0 \<le> a" "a \<le> of_int n" "0 \<le> n" "n \<le> 60000" "4 * n + 1 \<le> 5 * m" "m \<le> 60000"
  shows "\<exists>b. ewma (Fin a) (Fin 200) = Fin b \<and> 0 \<le> b \<and> b \<le> of_int (m + 40)"
proof -
  have "a * (7205759403792794 / 2 ^ 53) \<le> of_int n * (7205759403792794 / 2 ^ 53)"
    using assms(2) by (intro mult_right_mono) simp_all
  also have "\<dots> \<le> of_int m"
  proof -
    have "5 * (of_int n * (7205759403792794 / 2 ^ 53)) \<le> 4 * of_int n + (1 :: rat)"
      using assms(4) of_int_le_iff [of n 60000, where ?'a = rat] by simp
    moreover have "4 * of_int n + 1 \<le> 5 * (of_int m :: rat)"
      using assms(5) of_int_le_iff [of "4 * n + 1" "5 * m", where ?'a = rat] by simp
    ultimately show ?thesis by linarith
  qed
  finally have up: "a * (7205759403792794 / 2 ^ 53) \<le> of_int m" .
  have lo: "of_int 0 \<le> a * (7205759403792794 / 2 ^ 53)" using assms(1) by simp
  have m: "0 \<le> m" using assms(3,5) by linarith
  from f_mk_between [OF lo up] m assms(6) obtain r where
    r: "f_mul (Fin a) (f_mk (8 / 10)) = Fin r" "0 \<le> r" "r \<le> of_int m"
    unfolding weight_08 by auto
  have "of_int 0 \<le> r + 40" "r + 40 \<le> of_int (m + 40)" using r by simp_all
  from f_mk_between [OF this] m assms(6) r(1) show ?thesis
    unfolding ewma_def sample_02 by auto
qed

lemma succeed_below:
  assumes "latency_ewma p = Fin a" "0 \<le> a" "a \<le> of_int n" "0 \<le> n" "n \<le> 60000" "4 * n + 1 \<le> 5 * m" "m \<le> 60000"
  shows "\<exists>b. latency_ewma (Proxy.record_success (Fin 200) now p) = Fin b \<and> 0 \<le> b \<and> b \<le> of_int (m + 40)"
  using ewma_below [OF assms(2-7)] by (simp add: latency_first assms(1) latency_sample_int)

lemma fail_times_run: "fail_times t i n p = fail_run (map t [i..<i + n]) p"
  unfolding fail_times_def fail_run_def by (simp add: fold_map comp_def)

lemma p1234_fields [simp]:
  "latency_ewma (p1234 pr) = Fin 5000" "consecutive_fails (p1234 pr) = 0" "circuit_open_until (p1234 pr) = None"
  "uptime_streak_start (p1234 pr) = None" "priority_boost (p1234 pr) = Fin 0" "uptime_max_secs (p1234 pr) = 0"
  "last_success (p1234 pr) = None"
  by (simp_all add: p1234_def proxy_new_def)

lemma pass_ewma_convergence: "test_ewma_convergence t"
proof -
  let ?s = "\<lambda>i p. Proxy.record_success (Fin 200) (t i) p"
  have u: "[0..<10] = [0, 1, 2, 3, 4, 5, 6, 7, 8, 9]" by (simp add: upt_rec)
  have step: "\<exists>b. latency_ewma (?s i p) = Fin b \<and> 0 \<le> b \<and> b \<le> of_int m'"
    if "\<exists>a. latency_ewma p = Fin a \<and> 0 \<le> a \<and> a \<le> of_int n" "0 \<le> n" "n \<le> 60000"
      "4 * n + 1 \<le> 5 * (m' - 40)" "m' \<le> 60000" for i p n m'
    using that succeed_below [of p _ n "m' - 40" "t i"] by auto
  have "\<exists>a. latency_ewma (p1234 Http) = Fin a \<and> 0 \<le> a \<and> a \<le> of_int 5000" by simp
  from step [OF this, of 4041 0] have "\<exists>a. latency_ewma (?s 0 (p1234 Http)) = Fin a \<and> 0 \<le> a \<and> a \<le> of_int 4041" by simp
  from step [OF this, of 3274 1] have "\<exists>a. latency_ewma (?s 1 (?s 0 (p1234 Http))) = Fin a \<and> 0 \<le> a \<and> a \<le> of_int 3274" by simp
  from step [OF this, of 2660 2] step [of _ 2660 2169 3] step [of _ 2169 1776 4] step [of _ 1776 1461 5]
    step [of _ 1461 1209 6] step [of _ 1209 1008 7] step [of _ 1008 847 8] step [of _ 847 718 9]
  have "\<exists>a. latency_ewma (succeed t 0 10 (Fin 200) (p1234 Http)) = Fin a \<and> 0 \<le> a \<and> a \<le> of_int 718"
    unfolding succeed_def add_0 u by simp
  then show ?thesis by (auto simp: test_ewma_convergence_def f_lt_def)
qed

lemma pass_circuit_breaker:
  assumes "prompt 60 t" shows "test_circuit_breaker t"
proof -
  have closed: "is_available u (fail_times s 0 n (p1234 Http))" if "n \<le> 4" for n u s
    using fail_run_closed [of "p1234 Http" "map s [0..<n]"] that
    by (simp add: fail_times_run is_available_def)
  have "circuit_open_until (fail_times (\<lambda>j. t (2 * j)) 0 5 (p1234 Http)) = Some (inst (t 8) + secs 60)"
    using fail_run_open [of "p1234 Http" "map (\<lambda>j. t (2 * j)) [0..<5]"]
    by (simp add: fail_times_run ladder_def last_map)
  moreover have "inst (t 9) < inst (t 0) + secs 60" "inst (t 0) \<le> inst (t 8)"
    using assms by (auto simp: prompt_def)
  then have "inst (t 9) < inst (t 8) + secs 60" by linarith
  ultimately have "\<not> is_available (t 9) (fail_times (\<lambda>j. t (2 * j)) 0 5 (p1234 Http))"
    by (simp add: is_available_def)
  with closed show ?thesis by (simp add: test_circuit_breaker_def)
qed

lemma pass_circuit_breaker_escalation:
  assumes "prompt 60 t" shows "test_circuit_breaker_escalation t"
proof -
  let ?p = "fail_times t 0 4 (p1234 Http)"
  have p: "circuit_open_until ?p = None" "unat (consecutive_fails ?p) = 4"
    using fail_run_closed [of "p1234 Http" "map t [0..<4]"] unat_fails_run [of "p1234 Http" "map t [0..<4]"]
    by (simp_all add: fail_times_run)
  then have "disable_secs (consecutive_fails ?p + 1) = Some 60"
    using unat_add1_u32 [of "consecutive_fails ?p"] by (simp add: disable_secs_def)
  from record_fail_opens(1) [OF this, of "t 5"]
  have "circuit_open_until (Proxy.record_fail (t 5) ?p) = Some (inst (t 5) + secs 60)" by simp
  moreover have "inst (t 6) < inst (t 0) + secs 60" "inst (t 0) \<le> inst (t 5)"
    using assms by (auto simp: prompt_def)
  then have "inst (t 6) < inst (t 5) + secs 60" by linarith
  ultimately show ?thesis using p(1) by (simp add: test_circuit_breaker_escalation_def Let_def is_available_def)
qed

lemma pass_permanent_failure: "test_permanent_failure_after_50_fails t"
proof -
  let ?p = "fail_run (map t [0..<49]) (p1234 Http)"
  have "[0..<50] = [0..<49] @ [49 :: nat]" by (simp add: upt_rec)
  then have f: "fail_times t 0 50 (p1234 Http) = Proxy.record_fail (t 49) ?p"
    by (simp add: fail_times_def fail_run_def fold_map comp_def)
  have "unat (consecutive_fails ?p) = 49" using unat_fails_run [of "p1234 Http" "map t [0..<49]"] by simp
  then have "disable_secs (consecutive_fails ?p + 1) = None"
    using unat_add1_u32 [of "consecutive_fails ?p"] by (simp add: disable_secs_def)
  from record_fail_exhausted(2) [OF this] f show ?thesis
    by (simp add: test_permanent_failure_after_50_fails_def)
qed

lemma pass_recovery: "test_recovery_after_success t"
  using fail_run_closed [of "p1234 Http" "map t [0..<4]"]
  by (simp add: test_recovery_after_success_def Let_def fail_times_run is_available_def)

text \<open>The same with a latency that is a whole number.\<close>

definition just_checked :: "clock \<Rightarrow> int \<Rightarrow> proxy \<Rightarrow> bool" where
  "just_checked t n p \<longleftrightarrow> latency_ewma p = Fin (of_int n) \<and> \<bar>n\<bar> \<le> 60000 \<and> recently t p"

lemma score_recent:
  assumes "prompt 300 t" "just_checked (t i) n p"
  shows "score (t j) p = (if f_lt (Fin 300) (uptime_of (t j) p)
    then f_sub (Fin (of_int (n - 100))) (stability_bonus (uptime_of (t j) p)) else Fin (of_int (n - 100)))"
proof -
  from assms(2) have p: "recently (t i) p" "latency_ewma p = Fin (of_int n)" "n \<le> 60000" "- 60000 \<le> n"
    by (auto simp: just_checked_def)
  then have "f_add (Fin (of_int n)) (Fin 0) = Fin (of_int n)" "f_sub (Fin (of_int n)) (Fin 0) = Fin (of_int n)"
    using f_mk_int [of n] by (simp_all add: f_sub_def)
  then show ?thesis
    using score_recently [OF assms(1) p(1), of j] p f_sub_ints [of n 100] by (simp add: Let_def recent_score_def)
qed

lemma uptime_recent:
  assumes "prompt 300 t" "just_checked (t i) n p"
  shows "\<exists>e. uptime_of (t j) p = f_max (Fin e) (f_of_nat (unat (uptime_max_secs p))) \<and> 0 \<le> e \<and> e < 300"
  using uptime_recently [OF assms(1)] assms(2) by (auto simp: just_checked_def)

lemma score_young:
  assumes "prompt 300 t" "just_checked (t i) n p" "uptime_max_secs p = 0"
  shows "score (t j) p = Fin (of_int (n - 100))"
proof -
  have "f_of_nat 0 = Fin 0" using f_of_nat_exact [of 0] by simp
  with uptime_recent [OF assms(1,2), of j] assms(3) have "\<not> f_lt (Fin 300) (uptime_of (t j) p)"
    by (auto simp: f_max_def f_lt_def max_def split: if_splits)
  with score_recent [OF assms(1,2), of j] show ?thesis by simp
qed

lemma score_old:
  assumes "prompt 300 t" "just_checked (t i) n p" "300 < unat (uptime_max_secs p)" "unat (uptime_max_secs p) \<le> 100000"
  shows "score (t j) p = f_sub (Fin (of_int (n - 100))) (stability_bonus (Fin (of_nat (unat (uptime_max_secs p)))))"
proof -
  let ?u = "unat (uptime_max_secs p)"
  have u: "f_of_nat ?u = Fin (of_nat ?u)" by (rule f_of_nat_exact) (use assms(4) in simp)
  have "(300 :: rat) < of_nat ?u" using assms(3) of_nat_less_iff [of 300 ?u, where ?'a = rat] by simp
  with uptime_recent [OF assms(1,2), of j] u have "uptime_of (t j) p = Fin (of_nat ?u)"
    by (auto simp: f_max_def max_def)
  with score_recent [OF assms(1,2), of j] \<open>(300 :: rat) < of_nat ?u\<close> show ?thesis by (simp add: f_lt_def)
qed

lemma first_success_checked:
  assumes "latency_ewma p = Fin 5000" "uptime_streak_start p = None" "priority_boost p = Fin 0"
    "l \<in> {50, 100, 150, 200, 500}"
  shows "just_checked now (4000 + l div 5) (Proxy.record_success (Fin (of_int l)) now p)"
proof -
  have "latency_sample (Fin (of_int l)) = Fin (of_int l)" using assms(4) by (auto intro: latency_sample_int)
  then have "latency_ewma (Proxy.record_success (Fin (of_int l)) now p) = Fin (of_int (4000 + l div 5))"
    using assms(1,4) ewma_first by (auto simp: latency_first)
  then show ?thesis using assms(2-4)
    by (auto simp: just_checked_def recently_def record_success_def Let_def track_uptime_def)
qed

lemma checked_frame [simp]: "just_checked now n (p\<lparr>uptime_max_secs := u\<rparr>) = just_checked now n p"
  by (simp add: just_checked_def recently_def)

lemma uptime_max_first [simp]:
  "uptime_streak_start p = None \<Longrightarrow> uptime_max_secs (Proxy.record_success l now p) = uptime_max_secs p"
  by (simp add: record_success_def Let_def track_uptime_def)

lemma bonus_3600: "stability_bonus (Fin 3600) = Fin 500"
  using f_sub_ints [of 3600 300] f_mk_int [of 1] f_mk_int [of 450] f_add_ints [of 450 50]
  by (simp add: stability_bonus_def f_min_def)

lemma bonus_86400: "stability_bonus (Fin 86400) = Fin 500"
proof -
  have s: "f_sub (Fin 86400) (Fin 300) = Fin 86100" using f_sub_ints [of 86400 300] by simp
  from f_mk_between [of 26 "86100 / 3300" 27] obtain r where r: "f_div (Fin 86100) (Fin 3300) = Fin r" "26 \<le> r" "r \<le> 27"
    by auto
  from f_mk_between [of 11700 "r * 450" 12150] r obtain q where q: "f_mul (Fin r) (Fin 450) = Fin q" "11700 \<le> q" "q \<le> 12150"
    by auto
  from f_mk_between [of 11750 "q + 50" 12200] q obtain w where "f_add (Fin q) (Fin 50) = Fin w" "11750 \<le> w" by auto
  with s r q show ?thesis by (simp add: stability_bonus_def f_min_def)
qed

lemma fresh_fields [simp]:
  "latency_ewma (proxy_new h q pr) = Fin 5000" "uptime_streak_start (proxy_new h q pr) = None"
  "priority_boost (proxy_new h q pr) = Fin 0" "uptime_max_secs (proxy_new h q pr) = 0"
  by (simp_all add: proxy_new_def)

lemma pass_score_lower:
  assumes "prompt 300 t" shows "test_score_lower_is_better t"
proof -
  have "score (t 2) (Proxy.record_success (Fin 50) (t 0) (p1234 Http)) = Fin 3910"
    using score_young [OF assms first_success_checked [of "p1234 Http" 50 "t 0"], of 2] by simp
  moreover have "score (t 3) (Proxy.record_success (Fin 500) (t 1) (proxy_new ''5.6.7.8'' 3128 Http)) = Fin 4000"
    using score_young [OF assms first_success_checked [of "proxy_new ''5.6.7.8'' 3128 Http" 500 "t 1"], of 3] by simp
  ultimately show ?thesis by (simp add: test_score_lower_is_better_def f_lt_def)
qed

lemma pass_score_penalty: "test_score_penalizes_consecutive_fails t"
proof -
  have u: "uptime_of now p = Fin 0" if "uptime_streak_start p = None" "uptime_max_secs p = 0" for now p
    using that f_of_nat_exact [of 0] by (simp add: uptime_of_def f_max_def)
  have s: "score now p = f_sub (f_add (Fin 5000) (f_mul (f_of_nat (unat (consecutive_fails p))) (Fin 50))) (Fin 0)"
    if "latency_ewma p = Fin 5000" "priority_boost p = Fin 0" "last_success p = None"
      "uptime_streak_start p = None" "uptime_max_secs p = 0" for now p
    using that u [OF that(4,5), of now] by (simp add: score_def Let_def recency_bonus_def f_lt_def)
  have l: "last_success (Proxy.record_fail now p) = last_success p"
    "uptime_streak_start (Proxy.record_fail now p) = None" for now p
    by (simp_all add: record_fail_def Let_def split: option.split)
  have c: "f_of_nat 0 = Fin 0" "f_of_nat (Suc 0) = Fin 1" using f_of_nat_exact [of 0] f_of_nat_exact [of 1] by simp_all
  have "score (t 0) (p1234 Http) = Fin 5000"
    using s [of "p1234 Http" "t 0"] c f_mk_int [of 5000] by (simp add: f_sub_def)
  moreover have "score (t 2) (Proxy.record_fail (t 1) (p1234 Http)) = Fin 5050"
    using s [of "Proxy.record_fail (t 1) (p1234 Http)" "t 2"] l c f_mk_int [of 5050] f_mk_int [of 50]
    by (simp add: f_sub_def)
  ultimately show ?thesis by (simp add: test_score_penalizes_consecutive_fails_def f_lt_def)
qed

lemma pass_stability_bonus:
  assumes "prompt 300 t" shows "test_stability_bonus_in_score t"
proof -
  have c: "just_checked (t 0) 4040 (Proxy.record_success (Fin 200) (t 0) (p1234 Http))"
    using first_success_checked [of "p1234 Http" 200 "t 0"] by simp
  then have "score (t 2) ((Proxy.record_success (Fin 200) (t 0) (p1234 Http))\<lparr>uptime_max_secs := 3600\<rparr>) = Fin 3440"
    using score_old [OF assms, of 0 4040 "(Proxy.record_success (Fin 200) (t 0) (p1234 Http))\<lparr>uptime_max_secs := 3600\<rparr>" 2]
      f_sub_ints [of 3940 500] by (simp add: bonus_3600)
  moreover have "score (t 3) (Proxy.record_success (Fin 200) (t 1) (proxy_new ''5.6.7.8'' 8080 Http)) = Fin 3940"
    using score_young [OF assms first_success_checked [of "proxy_new ''5.6.7.8'' 8080 Http" 200 "t 1"], of 3] by simp
  ultimately show ?thesis by (simp add: test_stability_bonus_in_score_def f_lt_def)
qed

lemma pass_bonus_caps:
  assumes "prompt 300 t" shows "test_stability_bonus_caps_at_500 t"
proof -
  have c: "just_checked (t 0) 4040 (Proxy.record_success (Fin 200) (t 0) (p1234 Http))"
    using first_success_checked [of "p1234 Http" 200 "t 0"] by simp
  then have "score (t 3) ((Proxy.record_success (Fin 200) (t 0) (p1234 Http))\<lparr>uptime_max_secs := 86400\<rparr>) = Fin 3440"
    using score_old [OF assms, of 0 4040 "(Proxy.record_success (Fin 200) (t 0) (p1234 Http))\<lparr>uptime_max_secs := 86400\<rparr>" 3]
      f_sub_ints [of 3940 500] by (simp add: bonus_86400)
  moreover have "score (t 2) (Proxy.record_success (Fin 200) (t 1) (proxy_new ''5.6.7.8'' 8080 Http)) = Fin 3940"
    using score_young [OF assms first_success_checked [of "proxy_new ''5.6.7.8'' 8080 Http" 200 "t 1"], of 2] by simp
  ultimately show ?thesis
    using f_sub_ints [of 3940 3440] f_sub_ints [of 500 500]
    by (simp add: test_stability_bonus_caps_at_500_def Let_def f_lt_def)
qed

lemma pass_uptime_max:
  assumes "prompt 300 t" shows "test_uptime_max_persists_across_failures t"
proof -
  let ?p = "Proxy.record_fail (t 0) ((p1234 Http)\<lparr>uptime_max_secs := 600\<rparr>)"
  let ?q = "Proxy.record_success (Fin 200) (t 1) ?p"
  have p: "uptime_streak_start ?p = None" by (simp add: record_fail_def Let_def split: option.split)
  then have c: "just_checked (t 1) 4040 ?q" "uptime_max_secs ?q = 600"
    using first_success_checked [of ?p 200 "t 1"] by simp_all
  have "f_lt (Fin 300) (Fin 600)" by (simp add: f_lt_def)
  from stability_bonus_range [OF this] obtain b where b: "stability_bonus (Fin 600) = Fin b" "50 \<le> b" "b \<le> 500" by auto
  have "score (t 2) ?q = f_sub (Fin 3940) (Fin b)"
    using score_old [OF assms c(1), of 2] c(2) b(1) by simp
  moreover have "\<exists>r. f_sub (Fin 3940) (Fin b) = Fin r \<and> of_int (3940 - 500) \<le> r \<and> r \<le> of_int (3940 - 50)"
    using b by (intro f_sub_between) simp_all
  moreover have "score (t 4) (Proxy.record_success (Fin 200) (t 3) (proxy_new ''5.6.7.8'' 8080 Http)) = Fin 3940"
    using score_young [OF assms first_success_checked [of "proxy_new ''5.6.7.8'' 8080 Http" 200 "t 3"], of 4] by simp
  ultimately show ?thesis by (auto simp: test_uptime_max_persists_across_failures_def Let_def f_lt_def)
qed

lemma pass_alpha: "test_ewma_alpha_is_0_2 t"
  using f_sub_ints [of 4020 4020]
  by (simp add: test_ewma_alpha_is_0_2_def latency_first latency_sample_int ewma_first f_lt_def)

lemma pass_nan: "test_ewma_handles_nan_and_infinity t"
proof -
  have "f_is_finite (latency_ewma p)" if "ewma_ok p" for p using that by (auto simp: ewma_ok_def)
  moreover have "ewma_ok (p1234 Http)" by (simp add: p1234_def)
  ultimately show ?thesis by (simp add: test_ewma_handles_nan_and_infinity_def Let_def ewma_ok_success)
qed

lemma pass_display: test_protocol_display
  by (simp add: test_protocol_display_def)

lemma pass_addr: test_addr_format
  by (simp add: test_addr_format_def proxy_key_def proxy_new_def host_port_def show_u16_def show_nat.simps digit_chars)

lemma pass_untimed:
  "test_serialization_roundtrip fp t" "test_mark_presumed_alive t" "test_uptime_streak_starts_on_success t"
  "test_uptime_streak_resets_on_fail t" "test_serialization_roundtrip_with_uptime fp t"
  by (simp_all add: test_serialization_roundtrip_def test_mark_presumed_alive_def
      test_uptime_streak_starts_on_success_def test_uptime_streak_resets_on_fail_def
      test_serialization_roundtrip_with_uptime_def Let_def reload_def record_success_def track_uptime_def
      mark_presumed_alive_def is_available_def record_fail_def p1234_def proxy_new_def split: option.split)

text \<open>
  The tests of a proxy pass on the model, whatever serde makes of doubles, as long as a test is
  not held up: the two about the circuit breaker must end within the sixty seconds for which it
  opens, and those that compare scores within the five minutes of the bonuses.
\<close>

theorem proxy_tests_pass:
  assumes "prompt 60 t"
  shows "test_ewma_convergence t \<and> test_circuit_breaker t \<and> test_serialization_roundtrip fp t
    \<and> test_score_lower_is_better t \<and> test_score_penalizes_consecutive_fails t
    \<and> test_circuit_breaker_escalation t \<and> test_permanent_failure_after_50_fails t
    \<and> test_recovery_after_success t \<and> test_mark_presumed_alive t \<and> test_ewma_alpha_is_0_2 t
    \<and> test_ewma_handles_nan_and_infinity t \<and> test_addr_format \<and> test_protocol_display \<and> test_stability_bonus_in_score t
    \<and> test_uptime_streak_starts_on_success t \<and> test_uptime_streak_resets_on_fail t
    \<and> test_uptime_max_persists_across_failures t \<and> test_stability_bonus_caps_at_500 t
    \<and> test_serialization_roundtrip_with_uptime fp t"
proof -
  have "prompt 300 t" using prompt_mono [OF assms] by simp
  with assms show ?thesis
    by (intro conjI pass_untimed pass_ewma_convergence pass_circuit_breaker pass_score_lower pass_score_penalty
        pass_circuit_breaker_escalation pass_permanent_failure pass_recovery pass_alpha pass_nan pass_addr pass_display
        pass_stability_bonus pass_uptime_max pass_bonus_caps)
qed

lemma proxy_tests_pass_witness: "test_circuit_breaker (\<lambda>_. \<lparr>inst = 5, utc = 7\<rparr>)"
  using proxy_tests_pass [OF prompt_const [of 60 "\<lparr>inst = 5, utc = 7\<rparr>"]] by simp

end
