(* ===== verification/TestsStores.thy ===== *)
theory TestsStores
  imports Testing WarmPool ConnPool GeoIp
begin

text \<open>
  The unit tests of the stores: sticky sessions, the warm pool, the connection pool and the
  look-up of countries.  \<open>cl\<close> are the limits of chrono; a test that sleeps has calls after the
  sleep that read a later clock.
\<close>

section \<open>Sticky sessions\<close>

definition client1 :: sockaddr where "client1 = (V4 3232235777, 12345)"

definition client2 :: sockaddr where "client2 = (V4 3232235778, 12346)"

text \<open>What a look-up answers, and the manager after it; a panic would fail the test.\<close>

definition asked ::
  "chrono_limits \<Rightarrow> clock \<Rightarrow> sockaddr \<Rightarrow> sticky_manager \<Rightarrow> (string option \<times> sticky_manager) option" where
  "asked cl now client m = (case sticky_get cl now client m of Ret r \<Rightarrow> Some r | Panic \<Rightarrow> None)"

definition test_sticky_session :: "chrono_limits \<Rightarrow> (nat \<Rightarrow> clock) \<Rightarrow> bool" where
  "test_sticky_session cl t \<longleftrightarrow>
     (case asked cl (t 0) client1 sticky_new of
        Some (None, m) \<Rightarrow>
          (case asked cl (t 2) client1 (sticky_set (t 1) client1 ''1.2.3.4:8080'' m) of
             Some (Some _, m) \<Rightarrow>
               (case asked cl (t 3) client1 (sticky_remove client1 m) of
                  Some (None, _) \<Rightarrow> True | _ \<Rightarrow> False)
           | _ \<Rightarrow> False)
      | _ \<Rightarrow> False)"

definition test_session_cleanup :: "chrono_limits \<Rightarrow> (nat \<Rightarrow> clock) \<Rightarrow> bool" where
  "test_session_cleanup cl t \<longleftrightarrow>
     (let m = sticky_set (t 0) client1 ''1.2.3.4:8080'' (sticky_with_ttl 1)
      in sticky_count m = 1 \<and>
         (case sticky_cleanup cl (t 1) m of Ret m \<Rightarrow> sticky_count m = 1 | Panic \<Rightarrow> False))"

definition test_session_expires :: "chrono_limits \<Rightarrow> (nat \<Rightarrow> clock) \<Rightarrow> bool" where
  "test_session_expires cl t \<longleftrightarrow>
     (case asked cl (t 1) client1 (sticky_set (t 0) client1 ''1.2.3.4:8080'' (sticky_with_ttl 1)) of
        Some (Some _, m) \<Rightarrow> (case asked cl (t 2) client1 m of Some (None, _) \<Rightarrow> True | _ \<Rightarrow> False)
      | _ \<Rightarrow> False)"

definition two_clients :: "(nat \<Rightarrow> clock) \<Rightarrow> sticky_manager" where
  "two_clients t =
     sticky_set (t 1) client2 ''proxy2:8080'' (sticky_set (t 0) client1 ''proxy1:8080'' sticky_new)"

definition test_multiple_sessions :: "chrono_limits \<Rightarrow> (nat \<Rightarrow> clock) \<Rightarrow> bool" where
  "test_multiple_sessions cl t \<longleftrightarrow>
     (let m = two_clients t
      in sticky_count m = 2 \<and>
         (case asked cl (t 2) client1 m of
            Some (r, m) \<Rightarrow> r = Some ''proxy1:8080'' \<and>
              (case asked cl (t 3) client2 m of Some (r, _) \<Rightarrow> r = Some ''proxy2:8080'' | None \<Rightarrow> False)
          | None \<Rightarrow> False))"

definition test_clear_all_sessions :: "chrono_limits \<Rightarrow> (nat \<Rightarrow> clock) \<Rightarrow> bool" where
  "test_clear_all_sessions cl t \<longleftrightarrow>
     (let m = sticky_clear (two_clients t)
      in sticky_count m = 0 \<and>
         (case asked cl (t 2) client1 m of
            Some (None, m) \<Rightarrow> (case asked cl (t 3) client2 m of Some (None, _) \<Rightarrow> True | _ \<Rightarrow> False)
          | _ \<Rightarrow> False))"

definition test_set_or_touch_same_proxy :: "(nat \<Rightarrow> clock) \<Rightarrow> bool" where
  "test_set_or_touch_same_proxy t \<longleftrightarrow>
     (case tbl_get (sessions (fold (\<lambda>i. set_or_touch (t i) client1 ''proxy1:8080'') [0, 1, 2] sticky_new)) client1 of
        Some s \<Rightarrow> ss_success_count s = 3 \<and> ss_proxy_key s = ''proxy1:8080'' \<and> ss_backup_proxy_key s = None
      | None \<Rightarrow> False)"

definition test_set_or_touch_different_proxy_creates_backup :: "(nat \<Rightarrow> clock) \<Rightarrow> bool" where
  "test_set_or_touch_different_proxy_creates_backup t \<longleftrightarrow>
     (case tbl_get (sessions (set_or_touch (t 1) client1 ''proxy2:8080''
         (set_or_touch (t 0) client1 ''proxy1:8080'' sticky_new))) client1 of
        Some s \<Rightarrow> ss_proxy_key s = ''proxy2:8080'' \<and> ss_backup_proxy_key s = Some ''proxy1:8080''
          \<and> ss_success_count s = 1
      | None \<Rightarrow> False)"

definition test_get_backup :: "(nat \<Rightarrow> clock) \<Rightarrow> bool" where
  "test_get_backup t \<longleftrightarrow>
     (let m1 = set_or_touch (t 0) client1 ''proxy1:8080'' sticky_new;
          m2 = set_or_touch (t 1) client1 ''proxy2:8080'' m1
      in get_backup client1 sticky_new = None \<and> get_backup client1 m1 = None
         \<and> get_backup client1 m2 = Some ''proxy1:8080'')"

definition test_dynamic_ttl_extends_for_active_sessions :: "chrono_limits \<Rightarrow> (nat \<Rightarrow> clock) \<Rightarrow> bool" where
  "test_dynamic_ttl_extends_for_active_sessions cl t \<longleftrightarrow>
     (let m = set_or_touch (t 0) client1 ''proxy1:8080'' (sticky_with_ttl 1);
          m = m\<lparr>sessions := tbl_modify client1 (\<lambda>s. s\<lparr>ss_success_count := 20\<rparr>) (sessions m)\<rparr>
      in case asked cl (t 1) client1 m of Some (Some _, _) \<Rightarrow> True | _ \<Rightarrow> False)"

section \<open>The warm pool\<close>

text \<open>
  The listener of a test accepts every connect and sends nothing, so a peek would block; the
  i-th connect is stream \<open>i\<close>, established when \<open>t i\<close> is read.
\<close>

definition test_listener :: "(nat \<Rightarrow> clock) \<Rightarrow> string \<Rightarrow> nat \<Rightarrow> (nat \<times> nat) option" where
  "test_listener t addr i = Some (i, inst (t i))"

definition quiet_peek :: "nat \<Rightarrow> recv_outcome" where
  "quiet_peek s = RecvFailed True"

definition warm_key :: string where "warm_key = ''127.0.0.1:4040''"

definition test_warm_pool_take_returns_none_when_empty :: "(nat \<Rightarrow> clock) \<Rightarrow> bool" where
  "test_warm_pool_take_returns_none_when_empty t \<longleftrightarrow>
     fst (warm_take quiet_peek (t 0) ''1.2.3.4:8080'' (warm_pool_new 2 5 45)) = None"

definition test_warm_pool_refresh_and_take :: "(nat \<Rightarrow> clock) \<Rightarrow> bool" where
  "test_warm_pool_refresh_and_take t \<longleftrightarrow>
     fst (warm_take quiet_peek (t 3) warm_key
       (warm_refresh (test_listener t) (\<lambda>_. t 0) [(warm_key, warm_key)] (warm_pool_new 2 5 45))) \<noteq> None"

definition test_warm_pool_stale_connections_evicted :: "(nat \<Rightarrow> clock) \<Rightarrow> bool" where
  "test_warm_pool_stale_connections_evicted t \<longleftrightarrow>
     fst (warm_take quiet_peek (t 3) warm_key
       (warm_refresh (test_listener t) (\<lambda>_. t 0) [(warm_key, warm_key)] (warm_pool_new 2 5 1))) = None"

definition test_warm_pool_removes_untracked_proxies :: "(nat \<Rightarrow> clock) \<Rightarrow> bool" where
  "test_warm_pool_removes_untracked_proxies t \<longleftrightarrow>
     (let wp = warm_refresh (test_listener t) (\<lambda>_. t 0) [(warm_key, warm_key)] (warm_pool_new 2 5 45)
      in tbl_len (connections wp) = 1
         \<and> tbl_len (connections (warm_refresh (test_listener t) (\<lambda>_. t 3) [] wp)) = 0)"

definition test_warm_pool_hit_miss_counters :: "(nat \<Rightarrow> clock) \<Rightarrow> bool" where
  "test_warm_pool_hit_miss_counters t \<longleftrightarrow>
     (let st = warm_stats (snd (warm_take quiet_peek (t 0) ''1.2.3.4:8080'' (warm_pool_new 2 5 45)))
      in st_misses st = 1 \<and> st_hits st = 0)"

section \<open>The connection pool\<close>

definition test_pool_creation :: bool where
  "test_pool_creation \<longleftrightarrow> fst (conn_stats (\<lambda>_. False) (conn_pool_new :: nat connection_pool)) = 0"

definition test_pool_with_config :: bool where
  "test_pool_with_config \<longleftrightarrow> max_idle (conn_pool_with_config 30 5 :: nat connection_pool) div 1000000000 = 30"

section \<open>Countries\<close>

definition test_geoip_creation :: bool where
  "test_geoip_creation \<longleftrightarrow> is_loaded geo_new"

definition test_geoip_auto_detect :: "(string \<Rightarrow> bool) \<Rightarrow> bool" where
  "test_geoip_auto_detect exists_file \<longleftrightarrow> is_loaded (with_auto_detect exists_file)"

definition test_geoip_cache_stores_and_returns :: "(ipaddr \<Rightarrow> api_response option) \<Rightarrow> bool" where
  "test_geoip_cache_stores_and_returns fetch \<longleftrightarrow>
     (case parse_ip ''1.2.3.4'' of
        None \<Rightarrow> False
      | Some ip \<Rightarrow>
          (let g = geo_new\<lparr>cache := tbl_put ip \<lparr>country_code = Some ''US'',
                 country_name = Some ''United States'', city = None\<rparr> (cache geo_new)\<rparr>
           in cache_size g = 1 \<and>
              (case fst (geo_lookup fetch ip g) of
                 Some info \<Rightarrow> country_code info = Some ''US'' | None \<Rightarrow> False)))"

section \<open>They pass\<close>

definition chrono_fits :: "chrono_limits \<Rightarrow> (nat \<Rightarrow> clock) \<Rightarrow> bool" where
  "chrono_fits cl t \<longleftrightarrow> (\<forall>i. ttl_fits cl (t i) 300)"

lemma chrono_fits_ttl: "chrono_fits cl t \<Longrightarrow> ttl_fits cl (t i) 300 \<and> ttl_fits cl (t i) 1"
proof -
  assume "chrono_fits cl t"
  then have "ttl_fits cl (t i) 300" by (simp add: chrono_fits_def)
  moreover from this have "ttl_fits cl (t i) 1" by (auto simp: ttl_fits_def)
  ultimately show ?thesis by simp
qed

lemma lifetime_first:
  "ss_success_count s = 1 \<Longrightarrow> lifetime 300 s = 300000000000" "ss_success_count s = 1 \<Longrightarrow> lifetime 1 s = 1000000000"
  "ss_success_count s = 20 \<Longrightarrow> lifetime 1 s = 3000000000"
  by (simp_all add: lifetime_def effective_secs_small)

lemma sticky_set_session:
  "tbl_get (sessions (sticky_set now client key m)) c =
     (if c = client then Some \<lparr>ss_client_ip = client, ss_proxy_key = key, ss_backup_proxy_key = None,
        ss_created_at = utc now, ss_last_access = utc now, ss_success_count = 1\<rparr> else tbl_get (sessions m) c)"
  "ttl_secs (sticky_set now client key m) = ttl_secs m"
  by (simp_all add: sticky_set_def)

lemma asked_fits:
  assumes "ttl_fits cl now (ttl_secs m)"
  shows "asked cl now client m = Some (case tbl_get (sessions m) client of
            None \<Rightarrow> (None, m)
          | Some s \<Rightarrow> if lifetime (ttl_secs m) s < utc now - ss_last_access s
              then (None, m\<lparr>sessions := tbl_del client (sessions m)\<rparr>)
              else (Some (ss_proxy_key s), m))"
  by (simp add: asked_def sticky_get_fits [OF assms])

lemma new_fields [simp]:
  "sessions sticky_new = []" "ttl_secs sticky_new = 300" "sessions (sticky_with_ttl n) = []"
  "ttl_secs (sticky_with_ttl n) = n"
  by (simp_all add: sticky_new_def sticky_with_ttl_def)

lemma clients_differ [simp]: "client1 \<noteq> client2" "client2 \<noteq> client1"
  by (simp_all add: client1_def client2_def)

lemma pass_sticky_session:
  assumes "chrono_fits cl t" "prompt 300 t" shows "test_sticky_session cl t"
proof -
  have "utc (t 2) - utc (t 1) < 300000000000" using prompt_utc [OF assms(2), of 2 1] by (simp add: secs_def)
  then show ?thesis
    using chrono_fits_ttl [OF assms(1)]
    by (simp add: test_sticky_session_def asked_fits sticky_set_session lifetime_first sticky_remove_def)
qed

lemma pass_session_cleanup:
  assumes "chrono_fits cl t" "prompt 1 t" shows "test_session_cleanup cl t"
proof -
  have "utc (t 1) - utc (t 0) < 1000000000" using prompt_utc [OF assms(2), of 1 0] by (simp add: secs_def)
  then show ?thesis
    using chrono_fits_ttl [OF assms(1), of 1]
    by (simp add: test_session_cleanup_def sticky_cleanup_fits sticky_set_def sticky_count_def tbl_len_def
        tbl_put_def tbl_retain_def lifetime_first)
qed

lemma pass_session_expires:
  assumes "chrono_fits cl t" "utc (t 1) \<le> utc (t 0) + 1000000000" "utc (t 0) + 1000000000 < utc (t 2)"
  shows "test_session_expires cl t"
  using assms(2,3) chrono_fits_ttl [OF assms(1)]
  by (simp add: test_session_expires_def asked_fits sticky_set_session lifetime_first)

lemma pass_multiple_sessions:
  assumes "chrono_fits cl t" "prompt 300 t" shows "test_multiple_sessions cl t"
proof -
  have "utc (t 2) - utc (t 0) < 300000000000" "utc (t 3) - utc (t 1) < 300000000000"
    using prompt_utc [OF assms(2), of 2 0] prompt_utc [OF assms(2), of 3 1] by (simp_all add: secs_def)
  then show ?thesis
    using chrono_fits_ttl [OF assms(1)]
    by (simp add: test_multiple_sessions_def two_clients_def asked_fits sticky_set_session lifetime_first)
      (simp add: sticky_count_def sticky_set_def tbl_len_def tbl_put_def)
qed

lemma pass_clear:
  assumes "chrono_fits cl t" shows "test_clear_all_sessions cl t"
  using chrono_fits_ttl [OF assms]
  by (simp add: test_clear_all_sessions_def two_clients_def sticky_clear_def asked_fits sticky_set_session
      sticky_count_def tbl_len_def)

lemma set_or_touch_session:
  "tbl_get (sessions (set_or_touch now client key m)) client =
     Some (case tbl_get (sessions m) client of
       Some s \<Rightarrow> if ss_proxy_key s = key
         then s\<lparr>ss_last_access := utc now, ss_success_count := ss_success_count s + 1\<rparr>
         else s\<lparr>ss_proxy_key := key, ss_backup_proxy_key := Some (ss_proxy_key s),
                ss_last_access := utc now, ss_success_count := 1\<rparr>
     | None \<Rightarrow> \<lparr>ss_client_ip = client, ss_proxy_key = key, ss_backup_proxy_key = None,
                ss_created_at = utc now, ss_last_access = utc now, ss_success_count = 1\<rparr>)"
  by (simp add: set_or_touch_def split: option.split)

lemma pass_touch:
  "test_set_or_touch_same_proxy t" "test_set_or_touch_different_proxy_creates_backup t" "test_get_backup t"
  by (simp_all add: test_set_or_touch_same_proxy_def test_set_or_touch_different_proxy_creates_backup_def
      test_get_backup_def get_backup_def set_or_touch_session)

lemma pass_dynamic_ttl:
  assumes "chrono_fits cl t" "utc (t 1) \<le> utc (t 0) + 3000000000"
  shows "test_dynamic_ttl_extends_for_active_sessions cl t"
  using assms(2) chrono_fits_ttl [OF assms(1), of 1]
  by (simp add: test_dynamic_ttl_extends_for_active_sessions_def asked_fits set_or_touch_session lifetime_first)

text \<open>The two connections that a refresh of an empty pool opens to the listener.\<close>

lemma listener_queue:
  assumes "0 < age"
  shows "connections (warm_refresh (test_listener t) now_at [(warm_key, warm_key)] (warm_pool_new 2 5 age)) =
    [(warm_key, [\<lparr>wc_stream = 0, wc_proxy_key = warm_key, wc_established_at = inst (t 0)\<rparr>,
                 \<lparr>wc_stream = 1, wc_proxy_key = warm_key, wc_established_at = inst (t 1)\<rparr>])]"
    "wp_max_age (warm_refresh (test_listener t) now_at [(warm_key, warm_key)] (warm_pool_new 2 5 age)) = secs age"
  by (simp_all add: warm_refresh_def warm_pool_new_def refresh_one_def fill.simps [of "test_listener t warm_key"]
      test_listener_def tbl_retain_def tbl_put_def)

lemma pass_refresh_and_take:
  assumes "prompt 45 t" shows "test_warm_pool_refresh_and_take t"
proof -
  have "inst (t 3) - inst (t 0) < secs 45" using assms unfolding prompt_def by (metis less_diff_conv2 add.commute)
  then show ?thesis
    unfolding test_warm_pool_refresh_and_take_def warm_take_def
    by (simp add: listener_queue tbl_get_def quiet_peek_def Let_def)
qed

lemma pass_stale_evicted:
  assumes "inst (t 0) + secs 1 \<le> inst (t 3)" "inst (t 1) + secs 1 \<le> inst (t 3)"
  shows "test_warm_pool_stale_connections_evicted t"
proof -
  have "secs 1 \<le> inst (t 3) - inst (t 0)" "secs 1 \<le> inst (t 3) - inst (t 1)" using assms by linarith+
  then show ?thesis
    unfolding test_warm_pool_stale_connections_evicted_def warm_take_def
    by (simp add: listener_queue tbl_get_def quiet_peek_def Let_def)
qed

lemma pass_warm_counts:
  "test_warm_pool_take_returns_none_when_empty t" "test_warm_pool_hit_miss_counters t"
  "test_warm_pool_removes_untracked_proxies t"
  by (simp_all add: test_warm_pool_take_returns_none_when_empty_def test_warm_pool_hit_miss_counters_def
      test_warm_pool_removes_untracked_proxies_def warm_take_def warm_pool_new_def warm_stats_def
      listener_queue [unfolded warm_pool_new_def] tbl_len_def)
    (simp add: warm_refresh_def tbl_retain_def listener_queue [unfolded warm_pool_new_def])

lemma pass_pools: test_pool_creation test_pool_with_config
  by (simp_all add: test_pool_creation_def test_pool_with_config_def conn_stats_def conn_pool_new_def
      conn_pool_with_config_def secs_def)

lemma parse_1234: "parse_ip ''1.2.3.4'' = Some (V4 16909060)"
  by (simp add: parse_ip_def read_v4_def read_octet_def dot_octet_def read_char_def octet_ok_def is_digit_def
      digits_val_def digit_val_def)

lemma pass_geoip: test_geoip_creation "test_geoip_auto_detect ex" "test_geoip_cache_stores_and_returns fetch"
  by (simp_all add: test_geoip_creation_def test_geoip_auto_detect_def test_geoip_cache_stores_and_returns_def
      is_loaded_def parse_1234 geo_new_def cache_size_def tbl_len_def tbl_put_def geo_lookup_def tbl_get_def)

text \<open>
  The tests of the stores pass.  The readings \<open>t\<close> belong to the tests that do not wait, \<open>s\<close> to
  those that sleep until their entries have expired and \<open>u\<close> to the one that sleeps for a second
  and a half and finds its session alive: its twenty successes have tripled the lifetime.
\<close>

theorem store_tests_pass:
  assumes "chrono_fits cl t" "prompt 1 t"
    and "chrono_fits cl s" "utc (s 1) \<le> utc (s 0) + 1000000000" "utc (s 0) + 1000000000 < utc (s 2)"
    and "inst (s 0) + secs 1 \<le> inst (s 3)" "inst (s 1) + secs 1 \<le> inst (s 3)"
    and "chrono_fits cl u" "utc (u 1) \<le> utc (u 0) + 3000000000"
  shows "test_sticky_session cl t \<and> test_session_cleanup cl t \<and> test_session_expires cl s
    \<and> test_multiple_sessions cl t \<and> test_clear_all_sessions cl t \<and> test_set_or_touch_same_proxy t
    \<and> test_set_or_touch_different_proxy_creates_backup t \<and> test_get_backup t
    \<and> test_dynamic_ttl_extends_for_active_sessions cl u
    \<and> test_warm_pool_take_returns_none_when_empty t \<and> test_warm_pool_refresh_and_take t
    \<and> test_warm_pool_stale_connections_evicted s \<and> test_warm_pool_removes_untracked_proxies t
    \<and> test_warm_pool_hit_miss_counters t \<and> test_pool_creation \<and> test_pool_with_config
    \<and> test_geoip_creation \<and> test_geoip_auto_detect ex \<and> test_geoip_cache_stores_and_returns fetch"
proof -
  have "prompt 300 t" "prompt 45 t" using prompt_mono [OF assms(2)] by simp_all
  with assms show ?thesis
    by (intro conjI pass_sticky_session pass_session_cleanup pass_session_expires pass_multiple_sessions
        pass_clear pass_touch pass_dynamic_ttl pass_warm_counts pass_refresh_and_take pass_stale_evicted
        pass_pools pass_geoip)
qed

lemma store_tests_pass_witness:
  "test_session_expires \<lparr>delta_max = 9223372036854775, utc_min = - 8334601228800000000000\<rparr>
     (\<lambda>i. if i < 2 then \<lparr>inst = 0, utc = 0\<rparr> else \<lparr>inst = 2000000000, utc = 2000000000\<rparr>)"
proof -
  let ?cl = "\<lparr>delta_max = 9223372036854775, utc_min = - 8334601228800000000000\<rparr>"
  let ?t = "\<lambda>_ :: nat. \<lparr>inst = 0, utc = 0\<rparr>"
  let ?s = "\<lambda>i :: nat. if i < 2 then \<lparr>inst = 0, utc = 0\<rparr> else \<lparr>inst = 2000000000, utc = 2000000000\<rparr>"
  have t: "chrono_fits ?cl ?t" by (simp add: chrono_fits_def ttl_fits_def)
  have s: "chrono_fits ?cl ?s" by (simp add: chrono_fits_def ttl_fits_def)
  have p: "prompt 1 ?t" by (rule prompt_const) simp
  from store_tests_pass [OF t p s _ _ _ _ t] show ?thesis by (simp add: secs_def)
qed

end
