(* ===== verification/TestsProtocols.thy ===== *)
theory TestsProtocols
  imports Testing Transparent Sources Udp
begin

text \<open>
  The unit tests of sniffing, of the handshakes with upstream proxies, of the UDP relay and of
  the transparent proxy.  The mock servers of the handshake tests are translated too: what they
  write is a function of what they have read, and a test passes only if what the gateway has
  written is what the mock was given to read.
\<close>

section \<open>Sniffing\<close>

definition test_parse_http_connect :: bool where
  "test_parse_http_connect \<longleftrightarrow>
     parse_http_host (bytes_of (''CONNECT example.com:443 HTTP/1.1'' @ crlf @ ''Host: example.com:443'' @ crlf @ crlf))
       = Some ''example.com''"

definition test_parse_http_get :: bool where
  "test_parse_http_get \<longleftrightarrow>
     parse_http_host (bytes_of (''GET /path HTTP/1.1'' @ crlf @ ''Host: www.example.com'' @ crlf
       @ ''Accept: */*'' @ crlf @ crlf)) = Some ''www.example.com''"

definition test_parse_http_host_with_port :: bool where
  "test_parse_http_host_with_port \<longleftrightarrow>
     parse_http_host (bytes_of (''GET / HTTP/1.1'' @ crlf @ ''Host: example.com:8080'' @ crlf @ crlf))
       = Some ''example.com''"

definition test_sniff_unknown :: bool where
  "test_sniff_unknown \<longleftrightarrow> sniff [0x00, 0x01, 0x02, 0x03] = Ret Unknown"

definition test_sniff_empty_buffer :: bool where
  "test_sniff_empty_buffer \<longleftrightarrow> sniff [] = Ret Unknown"

definition test_parse_tls_sni_not_handshake :: bool where
  "test_parse_tls_sni_not_handshake \<longleftrightarrow> parse_tls_sni [0x17, 0x03, 0x03, 0x00, 0x10] = Ret None"

definition test_parse_tls_sni_too_short :: bool where
  "test_parse_tls_sni_too_short \<longleftrightarrow> parse_tls_sni [0x16, 0x03, 0x01] = Ret None"

definition test_parse_http_post :: bool where
  "test_parse_http_post \<longleftrightarrow>
     parse_http_host (bytes_of (''POST /api HTTP/1.1'' @ crlf @ ''Host: api.example.com'' @ crlf @ crlf))
       = Some ''api.example.com''"

definition test_parse_http_no_host :: bool where
  "test_parse_http_no_host \<longleftrightarrow>
     parse_http_host (bytes_of (''GET /path HTTP/1.1'' @ crlf @ ''Accept: */*'' @ crlf @ crlf)) = None"

definition test_parse_http_malformed :: bool where
  "test_parse_http_malformed \<longleftrightarrow> parse_http_host (bytes_of ''INVALID'') = None"

section \<open>UDP\<close>

definition test_dns :: string where "test_dns = ''10.13.13.1:53''"

definition test_detect_upstream_dns_query :: bool where
  "test_detect_upstream_dns_query \<longleftrightarrow>
     detect_upstream [0x12, 0x34, 0x01, 0x00, 0x00, 0x01, 0x00, 0x00, 0x00, 0x00, 0x00, 0x00] test_dns = test_dns"

definition test_detect_upstream_dns_response :: bool where
  "test_detect_upstream_dns_response \<longleftrightarrow>
     detect_upstream [0x12, 0x34, 0x81, 0x80, 0x00, 0x01, 0x00, 0x01, 0x00, 0x00, 0x00, 0x00] test_dns = test_dns"

definition test_detect_upstream_short_packet :: bool where
  "test_detect_upstream_short_packet \<longleftrightarrow> detect_upstream [0x01, 0x02, 0x03] test_dns = test_dns"

definition test_detect_upstream_empty_packet :: bool where
  "test_detect_upstream_empty_packet \<longleftrightarrow> detect_upstream [] test_dns = test_dns"

definition test_detect_upstream_custom_dns :: bool where
  "test_detect_upstream_custom_dns \<longleftrightarrow>
     detect_upstream [0x12, 0x34, 0x01, 0x00, 0x00, 0x01, 0x00, 0x00, 0x00, 0x00, 0x00, 0x00, 0x00] ''8.8.8.8:53''
       = ''8.8.8.8:53''"

section \<open>The transparent proxy\<close>

text \<open>\<open>so\<close> is what the kernel fills in for a connection that was not redirected.\<close>

definition test_get_original_dst_does_not_panic :: "sockopt \<Rightarrow> bool" where
  "test_get_original_dst_does_not_panic so \<longleftrightarrow>
     (case get_original_dst so of Some (ip, prt) \<Rightarrow> 0 < prt | None \<Rightarrow> True)"

text \<open>The permits of the listener: taken if one is free, given back when dropped.\<close>

definition try_acquire_owned :: "nat \<Rightarrow> bool \<times> nat" where
  "try_acquire_owned n = (0 < n, n - 1)"

definition drop_permit :: "bool \<Rightarrow> nat \<Rightarrow> nat" where
  "drop_permit taken n = (if taken then n + 1 else n)"

definition test_semaphore_rejects_when_full :: bool where
  "test_semaphore_rejects_when_full \<longleftrightarrow>
     (let (permit1, n) = try_acquire_owned 1;
          (permit2, n) = try_acquire_owned n;
          (permit3, _) = try_acquire_owned (drop_permit permit1 n)
      in permit1 \<and> \<not> permit2 \<and> permit3)"

definition test_metrics_increment_on_connection_attempt :: "(nat \<Rightarrow> clock) \<Rightarrow> bool" where
  "test_metrics_increment_on_connection_attempt t \<longleftrightarrow>
     (let st = snd (insert_if_absent (proxy_new ''192.0.2.1'' 8080 Http) (state_new :: gstate));
          st = state_success ''192.0.2.1:8080'' (Fin 100) (t 0) st;
          st1 = st\<lparr>total_requests := total_requests st + 1, active_connections := active_connections st + 1\<rparr>;
          st2 = st1\<lparr>active_connections := active_connections st1 - 1\<rparr>
      in total_requests st = 0 \<and> active_connections st = 0
         \<and> total_requests st1 = 1 \<and> active_connections st1 = 1 \<and> active_connections st2 = 0)"

section \<open>Header ends\<close>

definition header_text :: string where
  "header_text = ''HTTP/1.1 200 OK'' @ crlf @ ''Content-Length: 0'' @ crlf"

definition test_find_header_end_with_complete_headers :: bool where
  "test_find_header_end_with_complete_headers \<longleftrightarrow> find_header_end (bytes_of (header_text @ crlf)) = Some 38"

definition test_find_header_end_without_terminator :: bool where
  "test_find_header_end_without_terminator \<longleftrightarrow> find_header_end (bytes_of header_text) = None"

definition test_find_header_end_empty_buffer :: bool where
  "test_find_header_end_empty_buffer \<longleftrightarrow> find_header_end [] = None"

definition test_find_header_end_short_buffer :: bool where
  "test_find_header_end_short_buffer \<longleftrightarrow> find_header_end (bytes_of crlf) = None"

definition test_find_header_end_exact :: bool where
  "test_find_header_end_exact \<longleftrightarrow> find_header_end (bytes_of (crlf @ crlf)) = Some 4"

section \<open>Texts of the errors\<close>

definition socks_failure :: "u8 \<Rightarrow> string" where
  "socks_failure code =
     (if code = 0x01 then ''general SOCKS server failure''
      else if code = 0x02 then ''connection not allowed by ruleset''
      else if code = 0x03 then ''network unreachable''
      else if code = 0x04 then ''host unreachable''
      else if code = 0x05 then ''connection refused''
      else if code = 0x06 then ''TTL expired''
      else if code = 0x07 then ''command not supported''
      else if code = 0x08 then ''address type not supported''
      else ''unknown error'')"

text \<open>
  The message of an error, given the address of the proxy, the wanted host and what the system
  says of an I/O error.
\<close>

definition connect_error_text :: "string \<Rightarrow> string \<Rightarrow> net_error \<Rightarrow> string option" where
  "connect_error_text addr os e =
     (case e of
        ConnectTimedOut \<Rightarrow> Some (''TCP connect to proxy '' @ addr @ '' timed out'')
      | ConnectFailed \<Rightarrow> Some (''TCP connect to proxy '' @ addr @ '' failed: '' @ os)
      | _ \<Rightarrow> None)"

definition http_error_text :: "net_error \<Rightarrow> string option" where
  "http_error_text e =
     (case e of
        ResponseTooLarge \<Rightarrow> Some ''HTTP CONNECT response too large''
      | ClosedBeforeResponse \<Rightarrow> Some ''HTTP CONNECT: connection closed before response''
      | BadStatus s l \<Rightarrow> Some (''HTTP CONNECT failed with status '' @ show_u16 s @ '': '' @ l)
      | _ \<Rightarrow> None)"

definition socks_error_text :: "string \<Rightarrow> net_error \<Rightarrow> string option" where
  "socks_error_text h e =
     (case e of
        WrongVersion v \<Rightarrow> Some (''SOCKS5: server returned wrong version: '' @ show_nat (unat v))
      | NoAuthMethod \<Rightarrow> Some ''SOCKS5: no acceptable auth methods''
      | DomainTooLong \<Rightarrow> Some (''SOCKS5: domain too long: '' @ h)
      | WrongReplyVersion v \<Rightarrow> Some (''SOCKS5: wrong version in response: '' @ show_nat (unat v))
      | ReplyCode c \<Rightarrow> Some (''SOCKS5 CONNECT failed: '' @ socks_failure c @ '' (code '' @ show_nat (unat c) @ '')'')
      | UnknownAtyp a \<Rightarrow> Some (''SOCKS5: unknown ATYP in response: '' @ show_nat (unat a))
      | _ \<Rightarrow> None)"

text \<open>Every error has one of these texts, that of the warm connection or the one of the system.\<close>

definition error_text :: "string \<Rightarrow> string \<Rightarrow> string \<Rightarrow> net_error \<Rightarrow> string" where
  "error_text addr h os e =
     (case List.map_filter id [connect_error_text addr os e, http_error_text e, socks_error_text h e] of
        t # _ \<Rightarrow> t
      | [] \<Rightarrow> if e = WarmTimedOut then ''Handshake on warm connection timed out'' else os)"

lemmas error_text_defs =
  error_text_def connect_error_text_def http_error_text_def socks_error_text_def List.map_filter_def

section \<open>The mock servers\<close>

definition mock_http_response :: "u16 \<Rightarrow> string" where
  "mock_http_response code =
     ''HTTP/1.1 '' @ show_u16 code @ '' '' @ (if code = 200 then ''Connection established'' else ''Forbidden'')
       @ crlf @ crlf"

text \<open>
  \<open>request\<close> is what the first read of the mock returns, \<open>data\<close> what the read after the response
  does; the stream is dropped at the end.
\<close>

definition mock_http_proxy :: "u16 \<Rightarrow> u8 list \<Rightarrow> u8 list \<Rightarrow> conn" where
  "mock_http_proxy code request data =
     peer (if contains_str ''CONNECT'' (str_of (utf8_lossy (take 1024 request)))
           then bytes_of (mock_http_response code) # (if code = 200 \<and> data \<noteq> [] then [take 4096 data] else [])
           else []) Closed"

text \<open>\<open>received\<close> is all that the client writes before it waits for the tunnel.\<close>

definition mock_socks5_proxy :: "bool \<Rightarrow> u8 list \<Rightarrow> u8 list \<Rightarrow> conn" where
  "mock_socks5_proxy ok received data =
     peer (if length received < 3 then []
           else [0x05, 0x00] #
             (let header = drop 3 received
              in if length header < 4 \<or> header ! 3 \<noteq> 0x03 \<and> header ! 3 \<noteq> 0x01 then []
                 else [0x05, if ok then 0x00 else 0x05, 0x00, 0x01, 0x00, 0x00, 0x00, 0x00, 0x00, 0x00]
                   # (if ok \<and> data \<noteq> [] then [take 4096 data] else []))) Closed"

definition mock_host :: string where "mock_host = ''example.com''"

text \<open>What the gateway writes to a proxy of either protocol before the tunnel is open.\<close>

definition http_words :: "u8 list" where "http_words = bytes_of (connect_request mock_host 80)"

definition socks_words :: "u8 list" where "socks_words = [0x05, 0x01, 0x00] @ socks_request mock_host 80"

definition local_proxy :: "protocol \<Rightarrow> proxy" where
  "local_proxy proto = proxy_new ''127.0.0.1'' 4040 proto"

text \<open>Through an open tunnel: write, then read five bytes, and compare.\<close>

definition echoes :: "string \<Rightarrow> conn \<Rightarrow> bool" where
  "echoes s c \<longleftrightarrow> fst (net_bind (sock_write (bytes_of s)) (\<lambda>_. sock_read 5) c) = Done (bytes_of s)"

definition connects :: "protocol \<Rightarrow> conn \<Rightarrow> conn io" where
  "connects proto c = connect_through_proxy (\<lambda>_. Some (1, Some c)) (local_proxy proto) mock_host 80 5000"

text \<open>The message of a failed connect.\<close>

definition message :: "string \<Rightarrow> proxy \<Rightarrow> conn io \<Rightarrow> string option" where
  "message os p r = (case r of Failure e \<Rightarrow> Some (error_text (proxy_addr p) mock_host os e) | _ \<Rightarrow> None)"

definition says :: "string \<Rightarrow> string option \<Rightarrow> bool" where
  "says s m \<longleftrightarrow> (case m of Some txt \<Rightarrow> contains_str s txt | None \<Rightarrow> False)"

section \<open>The handshake tests\<close>

definition test_http_connect_success :: bool where
  "test_http_connect_success \<longleftrightarrow>
     (case connects Http (mock_http_proxy 200 http_words (bytes_of ''hello'')) of
        Done c \<Rightarrow> sent c = http_words \<and> echoes ''hello'' c | _ \<Rightarrow> False)"

definition test_http_connect_rejected :: "string \<Rightarrow> bool" where
  "test_http_connect_rejected os \<longleftrightarrow>
     says ''403'' (message os (local_proxy Http) (connects Http (mock_http_proxy 403 http_words [])))"

text \<open>A connect to an address that nothing routes times out or fails at once.\<close>

definition test_http_connect_timeout :: "string \<Rightarrow> (nat \<times> conn option) option \<Rightarrow> bool" where
  "test_http_connect_timeout os answer \<longleftrightarrow>
     (let p = proxy_new ''192.0.2.1'' 1 Http;
          m = message os p (connect_through_proxy (\<lambda>_. answer) p mock_host 80 100)
      in says ''timed out'' m \<or> says ''failed'' m)"

definition test_socks5_handshake_success :: bool where
  "test_socks5_handshake_success \<longleftrightarrow>
     (case connects Socks5 (mock_socks5_proxy True socks_words (bytes_of ''world'')) of
        Done c \<Rightarrow> sent c = socks_words \<and> echoes ''world'' c | _ \<Rightarrow> False)"

definition test_socks5_connection_refused :: "string \<Rightarrow> bool" where
  "test_socks5_connection_refused os \<longleftrightarrow>
     says ''refused'' (message os (local_proxy Socks5) (connects Socks5 (mock_socks5_proxy False socks_words [])))"

definition test_connect_to_target_uses_correct_protocol :: bool where
  "test_connect_to_target_uses_correct_protocol \<longleftrightarrow>
     (case connect_to_target (\<lambda>_. Some (1, Some (mock_http_proxy 200 http_words []))) (local_proxy Http) mock_host 80 of
        Done c \<Rightarrow> sent c = http_words | _ \<Rightarrow> False)
     \<and> (case connect_to_target (\<lambda>_. Some (1, Some (mock_socks5_proxy True socks_words []))) (local_proxy Socks5)
             mock_host 80 of
          Done c \<Rightarrow> sent c = socks_words | _ \<Rightarrow> False)"

text \<open>A server that drops the stream at once; the writes may fail too.\<close>

definition test_http_connect_server_closes_connection :: "nat option \<Rightarrow> bool" where
  "test_http_connect_server_closes_connection writes \<longleftrightarrow>
     (case connects Http ((peer [] Closed)\<lparr>writes_left := writes\<rparr>) of Failure e \<Rightarrow> True | _ \<Rightarrow> False)"

definition test_socks5_wrong_version_response :: "string \<Rightarrow> bool" where
  "test_socks5_wrong_version_response os \<longleftrightarrow>
     says ''wrong version'' (message os (local_proxy Socks5) (connects Socks5 (peer [[0x04, 0x00]] Closed)))"

definition test_socks5_no_acceptable_auth :: "string \<Rightarrow> bool" where
  "test_socks5_no_acceptable_auth os \<longleftrightarrow>
     says ''auth'' (message os (local_proxy Socks5) (connects Socks5 (peer [[0x05, 0xFF]] Closed)))"

section \<open>They pass\<close>

lemma ascii_parse_host:
  assumes "\<forall>b \<in> set (bytes_of s). unat b < 128"
  shows "parse_http_host (bytes_of s) =
    (case rust_lines s of [] \<Rightarrow> None
     | l # rest \<Rightarrow> if starts_with ''CONNECT '' l then
         (case split_whitespace l of _ # target # _ \<Rightarrow> Some (before_colon target) | _ \<Rightarrow> None)
         else find_host rest)"
  using utf8_ok_ascii [OF assms] by (simp add: parse_http_host_def from_utf8_def)

lemma pass_parse_http:
  test_parse_http_connect test_parse_http_get test_parse_http_host_with_port test_parse_http_post
  test_parse_http_no_host test_parse_http_malformed
proof -
  let ?h = "\<lambda>s. case rust_lines s of [] \<Rightarrow> None
     | l # rest \<Rightarrow> if starts_with ''CONNECT '' l then
         (case split_whitespace l of _ # target # _ \<Rightarrow> Some (before_colon target) | _ \<Rightarrow> None)
         else find_host rest"
  have e: "?h s = r \<Longrightarrow> (\<forall>b \<in> set (bytes_of s). unat b < 128) \<Longrightarrow> parse_http_host (bytes_of s) = r" for s r
    by (simp only: ascii_parse_host)
  show test_parse_http_connect unfolding test_parse_http_connect_def
    by (rule e, code_simp, simp add: bytes_of_def crlf_def)
  show test_parse_http_get unfolding test_parse_http_get_def
    by (rule e, code_simp, simp add: bytes_of_def crlf_def)
  show test_parse_http_host_with_port unfolding test_parse_http_host_with_port_def
    by (rule e, code_simp, simp add: bytes_of_def crlf_def)
  show test_parse_http_post unfolding test_parse_http_post_def
    by (rule e, code_simp, simp add: bytes_of_def crlf_def)
  show test_parse_http_no_host unfolding test_parse_http_no_host_def
    by (rule e, code_simp, simp add: bytes_of_def crlf_def)
  show test_parse_http_malformed unfolding test_parse_http_malformed_def
    by (rule e, code_simp, simp add: bytes_of_def crlf_def)
qed

lemma pass_sniff:
  test_sniff_unknown test_sniff_empty_buffer test_parse_tls_sni_not_handshake test_parse_tls_sni_too_short
proof -
  have "parse_http_host [0, 1, 2, 3] = None" by code_simp
  then show test_sniff_unknown by (simp add: test_sniff_unknown_def sniff_def idx_def)
  show test_sniff_empty_buffer by (simp add: test_sniff_empty_buffer_def sniff_def)
  show test_parse_tls_sni_not_handshake by (simp add: test_parse_tls_sni_not_handshake_def parse_tls_sni_def)
  show test_parse_tls_sni_too_short by (simp add: test_parse_tls_sni_too_short_def parse_tls_sni_def)
qed

lemma pass_detect:
  test_detect_upstream_dns_query test_detect_upstream_dns_response test_detect_upstream_short_packet
  test_detect_upstream_empty_packet test_detect_upstream_custom_dns
  by (simp_all add: test_detect_upstream_dns_query_def test_detect_upstream_dns_response_def
      test_detect_upstream_short_packet_def test_detect_upstream_empty_packet_def
      test_detect_upstream_custom_dns_def detect_upstream_def Let_def)

lemma pass_semaphore: test_semaphore_rejects_when_full
  by (simp add: test_semaphore_rejects_when_full_def try_acquire_owned_def drop_permit_def)

text \<open>The listener takes its permits like the test does.\<close>

lemma accept_client_permit:
  "try_acquire_owned (permits g) =
     (handlers (accept_client client g) \<noteq> handlers g, permits (accept_client client g))"
  by (simp add: try_acquire_owned_def accept_client_def)

lemma pass_original_dst:
  assumes "so = None \<or> (\<exists>ip hi lo. so = Some (ip, hi, lo) \<and> (hi, lo) \<noteq> (0, 0))"
  shows "test_get_original_dst_does_not_panic so"
  using assms
proof (elim disjE exE conjE)
  fix ip hi lo assume so: "so = Some (ip, hi, lo)" "(hi, lo) \<noteq> (0 :: u8, 0 :: u8)"
  have "unat hi < 256" "unat lo < 256" using unsigned_less [of hi] unsigned_less [of lo] by simp_all
  then have "be16 hi lo < 65536" unfolding be16_def by linarith
  then have "unat (of_nat (be16 hi lo) :: u16) = be16 hi lo" by (simp add: unsigned_of_nat take_bit_nat_eq_self)
  moreover have "be16 hi lo \<noteq> 0" using so(2) by (auto simp: be16_def unsigned_eq_0_iff)
  ultimately have "(of_nat (be16 hi lo) :: u16) \<noteq> 0" by auto
  with so(1) show ?thesis by (simp add: test_get_original_dst_does_not_panic_def get_original_dst_def word_gt_0)
qed (simp add: test_get_original_dst_does_not_panic_def get_original_dst_def)

lemma pass_counters: "test_metrics_increment_on_connection_attempt t"
  by (simp add: test_metrics_increment_on_connection_attempt_def Let_def insert_if_absent_def state_success_def
      state_new_def tbl_len_def tbl_has_def)

lemma pass_header_end:
  test_find_header_end_with_complete_headers test_find_header_end_without_terminator
  test_find_header_end_empty_buffer test_find_header_end_short_buffer test_find_header_end_exact
  by (simp_all add: test_find_header_end_with_complete_headers_def test_find_header_end_without_terminator_def
      test_find_header_end_empty_buffer_def test_find_header_end_short_buffer_def test_find_header_end_exact_def
      header_text_def crlf_def bytes_of_def header_mark_def)

text \<open>One exchange of HTTP CONNECT with a peer whose first segment is the whole response.\<close>

lemma http_exchange:
  assumes "find_header_end s = Some e" "length s \<le> 1024" "s \<noteq> []"
  shows "http_connect_handshake h p (peer (s # segs) en) =
    (judge_header (take e s), (peer segs en)\<lparr>sent := bytes_of (connect_request h p), waited := 1\<rparr>)"
proof -
  let ?c = "(peer (s # segs) en)\<lparr>sent := bytes_of (connect_request h p)\<rparr>"
  let ?d = "(peer segs en)\<lparr>sent := bytes_of (connect_request h p), waited := 1\<rparr>"
  have "sock_read 1024 ?c = (Done s, ?d)"
    using assms(2,3) by (simp add: sock_read_def peer_def)
  then have "http_loop [] ?c = (judge_header (take e s), ?d)"
    using assms by (subst http_loop.simps) simp
  then show ?thesis by (simp add: http_connect_handshake_def net_bind_def sock_write_def peer_def)
qed

lemma echoes_peer:
  assumes "length s = 5" shows "echoes s ((peer [bytes_of s] en)\<lparr>sent := x, waited := w\<rparr>)"
  using assms by (auto simp: echoes_def net_bind_def sock_write_def sock_read_def peer_def bytes_of_def)

lemma http_words_request: "contains_str ''CONNECT'' (str_of (utf8_lossy (take 1024 http_words)))"
proof -
  let ?t = "connect_request mock_host 80"
  have t: "?t = ''CONNECT example.com:80 HTTP/1.1'' @ crlf @ ''Host: example.com:80'' @ crlf
      @ ''Proxy-Connection: keep-alive'' @ crlf @ crlf"
    by (simp add: connect_request_def mock_host_def host_port_def crlf_def show_u16_def show_nat.simps digit_chars)
  then have "\<forall>b \<in> set http_words. unat b < 128" "length http_words \<le> 1024"
    by (simp_all add: http_words_def bytes_of_def crlf_def)
  then have "str_of (utf8_lossy (take 1024 http_words)) = ?t"
    by (simp add: utf8_lossy_ascii http_words_def str_of_bytes_of)
  moreover have "contains_str ''CONNECT'' ?t" unfolding t by simp
  ultimately show ?thesis by simp
qed

lemma mock_responses:
  "mock_http_response 200 = ''HTTP/1.1 200 Connection established'' @ crlf @ crlf"
  "mock_http_response 403 = ''HTTP/1.1 403 Forbidden'' @ crlf @ crlf"
  by (simp_all add: mock_http_response_def show_u16_def show_nat.simps digit_chars)

lemma judge_text:
  assumes "\<forall>b \<in> set (bytes_of s). unat b < 128" "rust_lines s = l # ls" "split_whitespace l = v # w # ws" "parse_u16 w = Some n"
  shows "judge_header (bytes_of s) = (if n = 200 then Done () else Failure (BadStatus n l))"
  using assms utf8_lossy_ascii [OF assms(1)]
  by (simp add: judge_header_def first_line_def status_code_def)

lemma judge_mock:
  "judge_header (bytes_of (mock_http_response 200)) = Done ()"
  "judge_header (bytes_of (mock_http_response 403)) = Failure (BadStatus 403 ''HTTP/1.1 403 Forbidden'')"
proof -
  have "rust_lines (''HTTP/1.1 200 Connection established'' @ crlf @ crlf) = [''HTTP/1.1 200 Connection established'', []]"
    "split_whitespace ''HTTP/1.1 200 Connection established'' = [''HTTP/1.1'', ''200'', ''Connection'', ''established'']"
    by code_simp+
  then show "judge_header (bytes_of (mock_http_response 200)) = Done ()"
    unfolding mock_responses by (subst judge_text [OF _ _ _ parse_200]) (simp_all add: bytes_of_def crlf_def)
  have lines: "rust_lines (''HTTP/1.1 403 Forbidden'' @ crlf @ crlf) = [''HTTP/1.1 403 Forbidden'', []]"
    and words: "split_whitespace ''HTTP/1.1 403 Forbidden'' = [''HTTP/1.1'', ''403'', ''Forbidden'']"
    by code_simp+
  have ascii: "\<forall>b \<in> set (bytes_of (''HTTP/1.1 403 Forbidden'' @ crlf @ crlf)). unat b < 128"
    by (simp add: bytes_of_def crlf_def)
  have "parse_u16 ''403'' = Some 403"
    by (simp add: parse_u16_def is_digit_def digits_val_def digit_val_def)
  from judge_text [OF ascii lines words this]
  show "judge_header (bytes_of (mock_http_response 403)) = Failure (BadStatus 403 ''HTTP/1.1 403 Forbidden'')"
    unfolding mock_responses by (simp del: append.simps)
qed

lemma mock_header_ends:
  "find_header_end (bytes_of (mock_http_response 200)) = Some (length (mock_http_response 200))"
  "find_header_end (bytes_of (mock_http_response 403)) = Some (length (mock_http_response 403))"
  by (simp_all add: mock_responses crlf_def bytes_of_def header_mark_def)

lemma mock_http_answers:
  assumes "code \<in> {200, 403}"
  shows "connects Http (mock_http_proxy code http_words data) =
    (case judge_header (bytes_of (mock_http_response code)) of
       Done _ \<Rightarrow> Done ((peer (if code = 200 \<and> data \<noteq> [] then [take 4096 data] else []) Closed)
         \<lparr>sent := http_words, waited := 1\<rparr>)
     | Failure e \<Rightarrow> Failure e | Hang \<Rightarrow> Hang)"
proof -
  let ?r = "bytes_of (mock_http_response code)"
  have "find_header_end ?r = Some (length ?r)" using assms mock_header_ends by (auto simp: bytes_of_def)
  moreover have "length ?r \<le> 1024" "?r \<noteq> []" using assms by (auto simp: mock_responses bytes_of_def crlf_def)
  ultimately show ?thesis
    using http_exchange [of ?r "length ?r" mock_host 80] http_words_request
    by (simp add: connects_def connect_through_proxy_def mock_http_proxy_def local_proxy_def proxy_new_def
        handshake_def tunnel_def http_words_def split: io.split)
qed

lemma pass_http:
  test_http_connect_success "test_http_connect_rejected os" "test_http_connect_server_closes_connection w"
proof -
  have "length ''hello'' = 5" by simp
  note e = echoes_peer [OF this]
  have "bytes_of ''hello'' \<noteq> []" "take 4096 (bytes_of ''hello'') = bytes_of ''hello''" by (simp_all add: bytes_of_def)
  with e show test_http_connect_success
    by (simp add: test_http_connect_success_def mock_http_answers judge_mock)
  have "says ''403'' (Some (''HTTP CONNECT failed with status '' @ ''403'' @ x))" for x
    unfolding says_def option.case by (rule contains_in)
  moreover have "show_u16 403 = ''403''" by (simp add: show_u16_def show_nat.simps digit_chars)
  ultimately show "test_http_connect_rejected os"
    by (simp add: test_http_connect_rejected_def mock_http_answers judge_mock message_def error_text_defs
        del: contains_str.simps append.simps)
  have l: "http_loop [] c = (Failure ClosedBeforeResponse, c')"
    if "sock_read 1024 c = (Done [], c')" for c c'
    using that by (subst http_loop.simps) simp
  have "\<exists>e c'. http_connect_handshake mock_host 80 ((peer [] Closed)\<lparr>writes_left := w\<rparr>) = (Failure e, c')"
    by (cases "w = Some 0") (auto simp: http_connect_handshake_def net_bind_def sock_write_def peer_def
        sock_read_def Let_def l)
  then show "test_http_connect_server_closes_connection w"
    by (auto simp: test_http_connect_server_closes_connection_def connects_def connect_through_proxy_def
        local_proxy_def proxy_new_def handshake_def tunnel_def)
qed

text \<open>A read of exactly \<open>k\<close> bytes that the next segment holds.\<close>

lemma read_exact_seg:
  assumes "inbox c = (d, s) # ss" "0 < k" "k \<le> length s"
  shows "read_exact k c =
    (Done (take k s), c\<lparr>inbox := if drop k s = [] then ss else (0, drop k s) # ss, waited := waited c + d\<rparr>)"
proof -
  have "s \<noteq> []" using assms(2,3) by auto
  then have "sock_read k c =
      (Done (take k s), c\<lparr>inbox := if drop k s = [] then ss else (0, drop k s) # ss, waited := waited c + d\<rparr>)"
    using assms(1) by (simp add: sock_read_def)
  then show ?thesis using assms \<open>s \<noteq> []\<close>
    by (simp add: read_exact.simps [of k c] read_exact.simps [of 0])
qed

lemma pass_timeout:
  assumes "answer = None \<or> (\<exists>t. answer = Some (t, None)) \<or> (\<exists>t c. answer = Some (t, Some c) \<and> 100 < t)"
  shows "test_http_connect_timeout os answer"
proof -
  let ?p = "proxy_new ''192.0.2.1'' 1 Http"
  let ?r = "connect_through_proxy (\<lambda>_. answer) ?p mock_host 80 100"
  have r: "?r = Failure ConnectTimedOut \<or> ?r = Failure ConnectFailed"
    using assms by (auto simp: connect_through_proxy_def split: if_splits)
  have "contains_str ''timed out'' ((''TCP connect to proxy '' @ proxy_addr ?p @ '' '') @ ''timed out'' @ [])"
    and "contains_str ''failed'' ((''TCP connect to proxy '' @ proxy_addr ?p @ '' '') @ ''failed'' @ '': '' @ os)"
    by (rule contains_in)+
  with r show ?thesis
    by (auto simp: test_http_connect_timeout_def Let_def message_def error_text_defs says_def
        simp del: contains_str.simps)
qed

lemmas socks_eval = socks5_handshake_def net_bind_def net_fail_def net_return_def sock_write_def peer_def
  read_exact_seg

lemma socks_refusals:
  "fst (socks5_handshake mock_host 80 (peer [[4, 0]] Closed)) = Failure (WrongVersion 4)"
  "fst (socks5_handshake mock_host 80 (peer [[5, 255]] Closed)) = Failure NoAuthMethod"
  "fst (socks5_handshake mock_host 80 (peer [[5, 0], [5, 5, 0, 1, 0, 0, 0, 0, 0, 0]] Closed)) = Failure (ReplyCode 5)"
  by (simp_all add: socks_eval mock_host_def bytes_of_def)

lemma socks_accepts:
  "socks5_handshake mock_host 80 (peer ([5, 0] # [5, 0, 0, 1, 0, 0, 0, 0, 0, 0] # segs) Closed) =
     (Done (), (peer segs Closed)\<lparr>sent := socks_words, waited := 2\<rparr>)"
  by (simp add: socks_eval mock_host_def bytes_of_def socks_words_def skip_bound_addr_def)

lemma socks_words_header:
  "\<not> length socks_words < 3" "\<not> length socks_words - 3 < 4" "drop 3 socks_words ! 3 = 3"
  by (simp_all add: socks_words_def socks_request_def)

lemma mock_socks_peer:
  "mock_socks5_proxy True socks_words data =
     peer ([5, 0] # [5, 0, 0, 1, 0, 0, 0, 0, 0, 0] # (if data \<noteq> [] then [take 4096 data] else [])) Closed"
  "mock_socks5_proxy False socks_words data = peer [[5, 0], [5, 5, 0, 1, 0, 0, 0, 0, 0, 0]] Closed"
  by (simp_all add: mock_socks5_proxy_def socks_words_header)

lemma connects_socks:
  "connects Socks5 c = (case socks5_handshake mock_host 80 c of
     (Done _, c') \<Rightarrow> Done c' | (Failure e, _) \<Rightarrow> Failure e | (Hang, _) \<Rightarrow> Hang)"
  by (simp add: connects_def connect_through_proxy_def local_proxy_def proxy_new_def handshake_def tunnel_def)

lemma pass_socks5:
  test_socks5_handshake_success "test_socks5_connection_refused os"
  "test_socks5_wrong_version_response os" "test_socks5_no_acceptable_auth os"
proof -
  have five: "length ''world'' = 5" by simp
  have "bytes_of ''world'' \<noteq> []" "take 4096 (bytes_of ''world'') = bytes_of ''world''" by (simp_all add: bytes_of_def)
  with echoes_peer [OF five] show test_socks5_handshake_success
    by (simp add: test_socks5_handshake_success_def mock_socks_peer connects_socks socks_accepts)
  have c: "connects Socks5 c = Failure e" if "fst (socks5_handshake mock_host 80 c) = Failure e" for c e
    using that by (auto simp: connects_socks split: prod.split)
  have "contains_str ''refused'' (''SOCKS5 CONNECT failed: connection '' @ ''refused'' @ '' (code 5)'')"
    "contains_str ''wrong version'' (''SOCKS5: server returned '' @ ''wrong version'' @ '': 4'')"
    "contains_str ''auth'' (''SOCKS5: no acceptable '' @ ''auth'' @ '' methods'')"
    by (rule contains_in)+
  then show "test_socks5_connection_refused os" "test_socks5_wrong_version_response os"
    "test_socks5_no_acceptable_auth os"
    by (simp_all add: test_socks5_connection_refused_def test_socks5_wrong_version_response_def
        test_socks5_no_acceptable_auth_def mock_socks_peer c [OF socks_refusals(1)] c [OF socks_refusals(2)]
        c [OF socks_refusals(3)] message_def says_def error_text_defs socks_failure_def show_nat.simps digit_chars
        del: contains_str.simps)
qed

lemma pass_either_protocol: test_connect_to_target_uses_correct_protocol
proof -
  have "connect_through_proxy (\<lambda>_. Some (1, Some c)) (local_proxy p) mock_host 80 10000 = connects p c" for p c
    by (simp add: connects_def connect_through_proxy_def)
  then show ?thesis
    by (simp add: test_connect_to_target_uses_correct_protocol_def connect_to_target_def mock_http_answers
        connects_socks mock_socks_peer judge_mock socks_accepts [of "[]"] del: One_nat_def)
qed

text \<open>
  The unit tests of sniffing, UDP, the transparent proxy and the handshakes pass, whatever the
  clock, the texts of the system's errors, the way an unreachable address fails, the write at
  which a closed stream breaks and the original destination that the kernel reports, if any,
  as long as its port is not zero.
\<close>

theorem protocol_tests_pass:
  assumes "answer = None \<or> (\<exists>t. answer = Some (t, None)) \<or> (\<exists>t c. answer = Some (t, Some c) \<and> 100 < t)"
    and "so = None \<or> (\<exists>ip hi lo. so = Some (ip, hi, lo) \<and> (hi, lo) \<noteq> (0, 0))"
  shows "test_parse_http_connect \<and> test_parse_http_get \<and> test_parse_http_host_with_port \<and> test_sniff_unknown
    \<and> test_sniff_empty_buffer \<and> test_parse_tls_sni_not_handshake \<and> test_parse_tls_sni_too_short
    \<and> test_parse_http_post \<and> test_parse_http_no_host \<and> test_parse_http_malformed
    \<and> test_detect_upstream_dns_query \<and> test_detect_upstream_dns_response \<and> test_detect_upstream_short_packet
    \<and> test_detect_upstream_empty_packet \<and> test_detect_upstream_custom_dns
    \<and> test_get_original_dst_does_not_panic so \<and> test_semaphore_rejects_when_full
    \<and> test_metrics_increment_on_connection_attempt clk
    \<and> test_find_header_end_with_complete_headers \<and> test_find_header_end_without_terminator
    \<and> test_find_header_end_empty_buffer \<and> test_find_header_end_short_buffer \<and> test_find_header_end_exact
    \<and> test_http_connect_success \<and> test_http_connect_rejected os \<and> test_http_connect_timeout os answer
    \<and> test_socks5_handshake_success \<and> test_socks5_connection_refused os
    \<and> test_connect_to_target_uses_correct_protocol \<and> test_http_connect_server_closes_connection w
    \<and> test_socks5_wrong_version_response os \<and> test_socks5_no_acceptable_auth os"
  by (intro conjI pass_parse_http pass_sniff pass_detect pass_original_dst [OF assms(2)] pass_semaphore pass_counters
      pass_header_end pass_http pass_timeout [OF assms(1)] pass_socks5 pass_either_protocol)

theorem protocol_tests_pass_witness:
  "test_http_connect_timeout ''Network is unreachable (os error 101)'' (Some (0, None)) \<and> test_http_connect_success"
  using protocol_tests_pass [of "Some (0, None)" None "\<lambda>_. undefined" "''Network is unreachable (os error 101)''" None]
  by blast

end
