(* ===== verification/TestsServices.thy ===== *)
theory TestsServices
  imports Testing Router Persistence Sources Health Config
begin

text \<open>
  The unit tests of the services around the pool: the API, the health checker, persistence, the
  sources and the configuration.  What they rely on of axum and serde are named conditions on
  the parameters of the model.
\<close>

type_synonym sstate = "nat shared_state"

section \<open>The API\<close>

text \<open>
  Of the matching of paths the tests use: a path without captures that is a pattern matches
  itself, and a pattern that ends in a capture matches a path with one segment in its place.
\<close>

definition matches_paths :: "matcher \<Rightarrow> bool" where
  "matches_paths matcher \<longleftrightarrow>
     (\<forall>p \<in> set (map fst create_router). CHR ''{'' \<notin> set p \<longrightarrow> matcher (map fst create_router) p = Some (p, None))
     \<and> (\<forall>s. s \<noteq> [] \<and> CHR ''/'' \<notin> set s \<and> CHR ''%'' \<notin> set s \<longrightarrow>
          matcher (map fst create_router) (''/api/proxy/ban/'' @ s) = Some (''/api/proxy/ban/{proxy_key}'', Some s)
          \<and> matcher (map fst create_router) (''/api/proxy/unban/'' @ s) = Some (''/api/proxy/unban/{proxy_key}'', Some s))"

fun answered_ok :: "response \<Rightarrow> bool" where
  "answered_ok NoRoute = False"
| "answered_ok MethodNotAllowed = False"
| "answered_ok Rejected = False"
| "answered_ok (Download (BadRequest _)) = False"
| "answered_ok (Download (NotFound _)) = False"
| "answered_ok _ = True"

text \<open>The success field of a reply, as the tests read it back from JSON.\<close>

definition replied :: "bool \<Rightarrow> response \<Rightarrow> bool" where
  "replied b r \<longleftrightarrow> (case r of ReplyJson a \<Rightarrow> success a = b | _ \<Rightarrow> False)"

definition get_ok :: "matcher \<Rightarrow> web_env \<Rightarrow> string \<Rightarrow> bool" where
  "get_ok matcher env path \<longleftrightarrow> answered_ok (fst (serve matcher env Get path None (state_new :: sstate)))"

definition test_health_endpoint :: "matcher \<Rightarrow> web_env \<Rightarrow> bool" where
  "test_health_endpoint matcher env \<longleftrightarrow> get_ok matcher env ''/health''"

definition test_metrics_endpoint :: "matcher \<Rightarrow> web_env \<Rightarrow> bool" where
  "test_metrics_endpoint matcher env \<longleftrightarrow> get_ok matcher env ''/api/metrics''"

definition test_list_proxies_empty :: "matcher \<Rightarrow> web_env \<Rightarrow> bool" where
  "test_list_proxies_empty matcher env \<longleftrightarrow> get_ok matcher env ''/api/proxies''"

definition test_network_status_no_net_manager :: "matcher \<Rightarrow> web_env \<Rightarrow> bool" where
  "test_network_status_no_net_manager matcher env \<longleftrightarrow> get_ok matcher env ''/api/network-status''"

definition test_wg_peers_empty :: "matcher \<Rightarrow> web_env \<Rightarrow> bool" where
  "test_wg_peers_empty matcher env \<longleftrightarrow> get_ok matcher env ''/api/wg/peers''"

text \<open>The body of the requests, as serde reads it: a host, a port and no protocol.\<close>

definition add_body :: add_proxy_request where
  "add_body = \<lparr>ar_host = ''1.2.3.4'', ar_port = 8080, ar_protocol = None\<rparr>"

definition holding :: "string \<Rightarrow> u16 \<Rightarrow> sstate" where
  "holding h prt = state_new\<lparr>proxies := tbl_put (host_port h prt) (proxy_new h prt Http) []\<rparr>"

definition test_add_proxy_valid :: "matcher \<Rightarrow> web_env \<Rightarrow> bool" where
  "test_add_proxy_valid matcher env \<longleftrightarrow>
     answered_ok (fst (serve matcher env Post ''/api/proxy/add'' (Some add_body) (state_new :: sstate)))"

definition test_add_proxy_duplicate :: "matcher \<Rightarrow> web_env \<Rightarrow> bool" where
  "test_add_proxy_duplicate matcher env \<longleftrightarrow>
     replied False (fst (serve matcher env Post ''/api/proxy/add'' (Some add_body) (holding ''1.2.3.4'' 8080)))"

definition test_ban_proxy_invalid_key :: "matcher \<Rightarrow> web_env \<Rightarrow> bool" where
  "test_ban_proxy_invalid_key matcher env \<longleftrightarrow>
     replied False (fst (serve matcher env Post ''/api/proxy/ban/invalid-no-port'' None (state_new :: sstate)))"

definition test_ban_proxy_invalid_port :: "matcher \<Rightarrow> web_env \<Rightarrow> bool" where
  "test_ban_proxy_invalid_port matcher env \<longleftrightarrow>
     replied False (fst (serve matcher env Post ''/api/proxy/ban/1.2.3.4:notaport'' None (state_new :: sstate)))"

definition test_ban_and_unban_proxy :: "matcher \<Rightarrow> web_env \<Rightarrow> bool" where
  "test_ban_and_unban_proxy matcher env \<longleftrightarrow>
     (let (r1, st1) = serve matcher env Post ''/api/proxy/ban/5.6.7.8:3128'' None (holding ''5.6.7.8'' 3128);
          (r2, st2) = serve matcher env Post ''/api/proxy/unban/5.6.7.8:3128'' None st1
      in replied True r1 \<and> tbl_len (proxies st1) = 0 \<and> tbl_len (banned st1) = 1
         \<and> replied True r2 \<and> tbl_len (proxies st2) = 1 \<and> tbl_len (banned st2) = 0)"

definition verified_one :: "clock \<Rightarrow> sstate" where
  "verified_one now = state_success ''1.2.3.4:8080'' (Fin 100) now (holding ''1.2.3.4'' 8080)"

text \<open>The body is read up to 4096 bytes; a longer one would fail the test.\<close>

definition test_prometheus_metrics_format :: "matcher \<Rightarrow> web_env \<Rightarrow> clock \<Rightarrow> bool" where
  "test_prometheus_metrics_format matcher env now \<longleftrightarrow>
     (case fst (serve matcher env Get ''/metrics'' None (verified_one now)) of
        Plain txt \<Rightarrow> length txt \<le> 4096 \<and> contains_str ''vpn_proxies_total'' txt | _ \<Rightarrow> False)"

text \<open>serde writes the two fields under their names; the test looks for them in the text.\<close>

definition test_health_with_proxies :: "matcher \<Rightarrow> web_env \<Rightarrow> clock \<Rightarrow> bool" where
  "test_health_with_proxies matcher env now \<longleftrightarrow>
     (case fst (serve matcher env Get ''/health'' None (verified_one now)) of
        HealthJson h \<Rightarrow> hr_status h = ''ok'' \<and> hr_verified h = 1 | _ \<Rightarrow> False)"

section \<open>The health checker\<close>

definition test_fast_probe_empty_batch ::
  "(proxy \<Rightarrow> string \<times> check_result) \<Rightarrow>
   ((string \<times> check_result) list \<Rightarrow> ((string \<times> check_result) \<times> clock) list) \<Rightarrow> bool" where
  "test_fast_probe_empty_batch check arrival \<longleftrightarrow> fst (fast_probe check arrival [] (state_new :: sstate)) = 0"

definition test_fast_probe_with_unreachable_proxies ::
  "tls_client \<Rightarrow> (nat \<Rightarrow> network) \<Rightarrow>
   ((string \<times> check_result) list \<Rightarrow> ((string \<times> check_result) \<times> clock) list) \<Rightarrow> bool" where
  "test_fast_probe_with_unreachable_proxies tls dial arrival \<longleftrightarrow>
     (let ps = [proxy_new ''192.0.2.1'' 8080 Http, proxy_new ''192.0.2.2'' 3128 Http];
          (found, geo, st) = fast_probe (\<lambda>p. check_single tls dial p 100) arrival ps (state_new :: sstate)
      in found = 0 \<and> total_count st \<le> 2)"

definition test_health_loop_does_not_panic :: "clock \<Rightarrow> bool" where
  "test_health_loop_does_not_panic now \<longleftrightarrow> proxies_needing_check now 100 (state_new :: sstate) = []"

definition test_check_result_variants :: bool where
  "test_check_result_variants \<longleftrightarrow>
     (case CheckOk (Fin 100) of CheckOk l \<Rightarrow> l = Fin 100 | _ \<Rightarrow> False)
     \<and> (case OkNoTls (Fin 200) of OkNoTls l \<Rightarrow> l = Fin 200 | _ \<Rightarrow> False)
     \<and> (case Dead of Dead \<Rightarrow> True | _ \<Rightarrow> False)"

section \<open>Persistence\<close>

type_synonym codec = "(proxy list \<Rightarrow> string option) \<times> (string \<Rightarrow> proxy list option)"

text \<open>\<open>fs\<close> are the other files; a test begins by removing what is at its path.\<close>

definition test_load_state_missing_file :: "codec \<Rightarrow> string \<Rightarrow> files \<Rightarrow> clock \<Rightarrow> bool" where
  "test_load_state_missing_file cd path fs now \<longleftrightarrow>
     (case load_state_from (snd cd) now path (tbl_del path fs) (state_new :: sstate) of
        (n, st) \<Rightarrow> n = 0 \<and> total_count st = 0)"

definition checked_once :: "string \<Rightarrow> u16 \<Rightarrow> f64 \<Rightarrow> clock \<Rightarrow> proxy" where
  "checked_once h prt l now = Proxy.record_success l now (proxy_new h prt Http)"

definition keep :: "proxy \<Rightarrow> sstate" where
  "keep p = snd (insert_if_absent p state_new)"

definition test_save_and_load_roundtrip :: "codec \<Rightarrow> string \<Rightarrow> files \<Rightarrow> (nat \<Rightarrow> clock) \<Rightarrow> bool" where
  "test_save_and_load_roundtrip cd path fs t \<longleftrightarrow>
     (let a = keep (checked_once ''1.2.3.4'' 8080 (Fin 100) (t 0));
          fs = save_state_to (fst cd) NoFault path a fs;
          (n, b) = load_state_from (snd cd) (t 1) path fs (state_new :: sstate)
      in tbl_has fs path \<and> n = 1 \<and> tbl_has (proxies b) ''1.2.3.4:8080'')"

definition test_save_state_empty_pool :: "codec \<Rightarrow> string \<Rightarrow> files \<Rightarrow> bool" where
  "test_save_state_empty_pool cd path fs \<longleftrightarrow>
     (case tbl_get (save_state_to (fst cd) NoFault path (state_new :: sstate) fs) path of
        Some content \<Rightarrow> snd cd content = Some [] | None \<Rightarrow> True)"

definition test_load_state_invalid_json :: "codec \<Rightarrow> string \<Rightarrow> files \<Rightarrow> clock \<Rightarrow> bool" where
  "test_load_state_invalid_json cd path fs now \<longleftrightarrow>
     (case load_state_from (snd cd) now path (tbl_put path ''not valid json at all!!!'' fs) (state_new :: sstate) of
        (n, st) \<Rightarrow> n = 0 \<and> total_count st = 0)"

text \<open>What loading a file that holds one proxy gives; \<open>to_string\<close> is unwrapped.\<close>

definition load_one_saved ::
  "codec \<Rightarrow> string \<Rightarrow> files \<Rightarrow> clock \<Rightarrow> proxy list \<Rightarrow> sstate \<Rightarrow> (nat \<times> sstate) option" where
  "load_one_saved cd path fs now ps st =
     map_option (\<lambda>json. load_state_from (snd cd) now path (tbl_put path json fs) st) (fst cd ps)"

definition test_load_state_recent_success_marks_presumed_alive ::
  "codec \<Rightarrow> string \<Rightarrow> files \<Rightarrow> (nat \<Rightarrow> clock) \<Rightarrow> bool" where
  "test_load_state_recent_success_marks_presumed_alive cd path fs t \<longleftrightarrow>
     (case load_one_saved cd path fs (t 1)
        [checked_once ''5.6.7.8'' 3128 (Fin 200) (t 0)] state_new of
        Some (n, st) \<Rightarrow> n = 1 \<and>
          (case tbl_get (proxies st) ''5.6.7.8:3128'' of Some p \<Rightarrow> status p = Some PresumedAlive | None \<Rightarrow> False)
      | None \<Rightarrow> False)"

definition hours2 :: int where "hours2 = 2 * 3600 * 1000000000"

definition old_proxy :: "(nat \<Rightarrow> clock) \<Rightarrow> proxy" where
  "old_proxy t = (let old = Some (utc (t 1) - hours2)
     in (checked_once ''9.9.9.9'' 9999 (Fin 300) (t 0))\<lparr>last_success := old, last_check := old\<rparr>)"

definition test_load_state_old_success_not_presumed_alive ::
  "codec \<Rightarrow> string \<Rightarrow> files \<Rightarrow> (nat \<Rightarrow> clock) \<Rightarrow> bool" where
  "test_load_state_old_success_not_presumed_alive cd path fs t \<longleftrightarrow>
     (case load_one_saved cd path fs (t 2) [old_proxy t] state_new of
        Some (n, st) \<Rightarrow> n = 1 \<and>
          (case tbl_get (proxies st) ''9.9.9.9:9999'' of Some p \<Rightarrow> status p \<noteq> Some PresumedAlive | None \<Rightarrow> False)
      | None \<Rightarrow> False)"

definition test_save_skips_unchecked_proxies :: "codec \<Rightarrow> string \<Rightarrow> files \<Rightarrow> (nat \<Rightarrow> clock) \<Rightarrow> bool" where
  "test_save_skips_unchecked_proxies cd path fs t \<longleftrightarrow>
     (let st = snd (insert_if_absent (checked_once ''2.2.2.2'' 80 (Fin 50) (t 0))
                 (keep (proxy_new ''1.1.1.1'' 80 Http)))
      in case Option.bind (tbl_get (save_state_to (fst cd) NoFault path st fs) path) (snd cd) of
           Some ps \<Rightarrow> length ps = 1 \<and> host (ps ! 0) = ''2.2.2.2'' | None \<Rightarrow> False)"

definition test_save_creates_parent_directories :: "codec \<Rightarrow> string \<Rightarrow> files \<Rightarrow> (nat \<Rightarrow> clock) \<Rightarrow> bool" where
  "test_save_creates_parent_directories cd path fs t \<longleftrightarrow>
     tbl_has (save_state_to (fst cd) NoFault path
       (keep (checked_once ''3.3.3.3'' 3333 (Fin 75) (t 0))) fs) path"

definition five_proxies :: "(nat \<Rightarrow> clock) \<Rightarrow> proxy list" where
  "five_proxies t =
     map (\<lambda>i. checked_once (''10.0.0.'' @ show_nat (i + 1)) 8080 (Fin 100) (t i)) [0..<5]"

definition test_load_respects_max_proxies_limit :: "codec \<Rightarrow> string \<Rightarrow> files \<Rightarrow> (nat \<Rightarrow> clock) \<Rightarrow> bool" where
  "test_load_respects_max_proxies_limit cd path fs t \<longleftrightarrow>
     (case load_one_saved cd path fs (t 5) (five_proxies t) (state_new\<lparr>max_proxies := 3\<rparr>) of
        Some (n, st) \<Rightarrow> n = 5 \<and> total_count st = 3 | None \<Rightarrow> False)"

section \<open>The sources\<close>

definition test_parse_valid_proxy_line :: bool where
  "test_parse_valid_proxy_line \<longleftrightarrow>
     (case parse_line ''1.2.3.4:8080'' Http of
        Some p \<Rightarrow> host p = ''1.2.3.4'' \<and> port p = 8080 \<and> protocol p = Http | None \<Rightarrow> False)"

definition test_parse_proxy_line_with_socks5 :: bool where
  "test_parse_proxy_line_with_socks5 \<longleftrightarrow>
     (case parse_line ''5.6.7.8:1080'' Socks5 of Some p \<Rightarrow> protocol p = Socks5 | None \<Rightarrow> False)"

definition test_parse_invalid_proxy_lines :: bool where
  "test_parse_invalid_proxy_lines \<longleftrightarrow>
     list_all (\<lambda>l. parse_line l Http = None)
       [[], ''noport'', ''1.2.3.4:'', ''1.2.3.4:99999'', ''# comment'', ''not-an-ip:8080'', ''1.2.3.4:8080:extra'']"

definition test_default_sources_not_empty :: bool where
  "test_default_sources_not_empty \<longleftrightarrow> default_sources \<noteq> [] \<and> 10 \<le> length default_sources"

definition test_load_sources_from_missing_file :: "(string \<Rightarrow> string list option) \<Rightarrow> bool" where
  "test_load_sources_from_missing_file parse_json \<longleftrightarrow>
     (let sources = load_sources parse_json None
      in sources \<noteq> [] \<and> contains_str ''proxyscrape'' (sources ! 0))"

text \<open>\<open>data/state.json\<close>, which is absent or no list of strings.\<close>

definition test_load_sources_from_invalid_file :: "(string \<Rightarrow> string list option) \<Rightarrow> string option \<Rightarrow> bool" where
  "test_load_sources_from_invalid_file parse_json content \<longleftrightarrow> load_sources parse_json content \<noteq> []"

section \<open>The configuration\<close>

definition test_default_config :: bool where
  "test_default_config \<longleftrightarrow> c_gateway_port config_default = 1080 \<and> c_api_port config_default = 8080"

text \<open>A disk that has one file at most.\<close>

definition disk :: "string option \<Rightarrow> string \<Rightarrow> string option" where
  "disk content path = content"

definition test_config_load_or_default :: "(string \<Rightarrow> raw_config option) \<Rightarrow> bool" where
  "test_config_load_or_default parse \<longleftrightarrow> c_gateway_port (load_or_default (disk None, parse) ''nonexistent.json'') = 1080"

definition test_config_all_defaults :: bool where
  "test_config_all_defaults \<longleftrightarrow>
     (let c = config_default
      in c_gateway_port c = 1080 \<and> c_api_port c = 8080 \<and> c_udp_port c = 1081 \<and> c_max_proxies c = 5000
         \<and> c_max_connections c = 10000 \<and> c_health_check_interval c = 30 \<and> c_source_update_interval c = 300
         \<and> length (c_preferred_countries c) = 0 \<and> c_state_path c = ''data/state.json''
         \<and> c_sources_path c = ''config/sources.json'' \<and> c_connection_pool_max_idle c = 60
         \<and> c_connection_pool_max_per_proxy c = 10 \<and> \<not> c_enable_connection_pool c \<and> c_sticky_session_ttl c = 300
         \<and> \<not> c_enable_sticky_sessions c \<and> c_dns_upstream c = ''10.13.13.1:5353'')"

text \<open>The object of the test, as serde reads it.\<close>

definition six_fields :: raw_config where
  "six_fields = raw_empty\<lparr>r_gateway_port := Some 9999, r_api_port := Some 7777, r_udp_port := Some 6666,
     r_preferred_countries := Some [''US'', ''DE''], r_enable_connection_pool := Some True,
     r_enable_sticky_sessions := Some True\<rparr>"

definition test_config_from_json :: bool where
  "test_config_from_json \<longleftrightarrow>
     (let c = fill_defaults six_fields
      in c_gateway_port c = 9999 \<and> c_api_port c = 7777 \<and> c_udp_port c = 6666
         \<and> c_preferred_countries c = [''US'', ''DE''] \<and> c_enable_connection_pool c \<and> c_enable_sticky_sessions c)"

definition test_config_partial_json :: bool where
  "test_config_partial_json \<longleftrightarrow>
     (let c = fill_defaults (raw_empty\<lparr>r_gateway_port := Some 1234\<rparr>)
      in c_gateway_port c = 1234 \<and> c_api_port c = 8080)"

definition test_config_manager_get :: "(string \<Rightarrow> raw_config option) \<Rightarrow> bool" where
  "test_config_manager_get parse \<longleftrightarrow>
     c_gateway_port (config_get (config_manager_new (disk None, parse) ''nonexistent.json'')) = 1080"

text \<open>\<open>js1\<close> and \<open>js2\<close> are the two texts that the test writes.\<close>

definition test_config_reload_from_file :: "(string \<Rightarrow> raw_config option) \<Rightarrow> string \<Rightarrow> string \<Rightarrow> bool" where
  "test_config_reload_from_file parse js1 js2 \<longleftrightarrow>
     (let m = config_manager_new (disk (Some js1), parse) ''test_reload.json'';
          (ok, m2) = config_reload (disk (Some js2), parse) m
      in c_gateway_port (config_get m) = 2222 \<and> ok
         \<and> c_gateway_port (config_get m2) = 3333 \<and> c_api_port (config_get m2) = 9999)"

definition test_config_load_malformed_json :: "(string \<Rightarrow> raw_config option) \<Rightarrow> bool" where
  "test_config_load_malformed_json parse \<longleftrightarrow>
     c_gateway_port (load_or_default (disk (Some ''not json at all''), parse) ''bad.json'') = 1080"

section \<open>They pass\<close>

lemma serve_static:
  assumes "matches_paths matcher" "p \<in> set (map fst create_router)" "CHR ''{'' \<notin> set p"
  shows "serve matcher env m p body st =
    (case find (\<lambda>(q, r). q = p \<and> accepts r m) create_router of
       None \<Rightarrow> (MethodNotAllowed, st) | Some (_, r) \<Rightarrow> answer env (endpoint_of r) None body st)"
proof -
  have "matcher (map fst create_router) p = Some (p, None)" using assms unfolding matches_paths_def by blast
  then show ?thesis unfolding serve_def by simp
qed

lemma serve_ban:
  assumes "matches_paths matcher" "s \<noteq> []" "CHR ''/'' \<notin> set s" "CHR ''%'' \<notin> set s"
  shows "serve matcher env Post (''/api/proxy/ban/'' @ s) body st = map_prod ReplyJson id (ban_proxy s st)"
    "serve matcher env Post (''/api/proxy/unban/'' @ s) body st = map_prod ReplyJson id (unban_proxy s st)"
proof -
  have "matcher (map fst create_router) (''/api/proxy/ban/'' @ s) = Some (''/api/proxy/ban/{proxy_key}'', Some s)"
    "matcher (map fst create_router) (''/api/proxy/unban/'' @ s) = Some (''/api/proxy/unban/{proxy_key}'', Some s)"
    using assms unfolding matches_paths_def by blast+
  then show "serve matcher env Post (''/api/proxy/ban/'' @ s) body st = map_prod ReplyJson id (ban_proxy s st)"
    "serve matcher env Post (''/api/proxy/unban/'' @ s) body st = map_prod ReplyJson id (unban_proxy s st)"
    unfolding serve_def by (simp_all add: create_router_def)
qed

lemma pass_gets:
  assumes "matches_paths matcher"
  shows "test_health_endpoint matcher env" "test_metrics_endpoint matcher env" "test_list_proxies_empty matcher env"
    "test_network_status_no_net_manager matcher env" "test_wg_peers_empty matcher env"
  unfolding test_health_endpoint_def test_metrics_endpoint_def test_list_proxies_empty_def
    test_network_status_no_net_manager_def test_wg_peers_empty_def get_ok_def
  by (subst serve_static [OF assms]; simp add: create_router_def)+

lemma pass_add:
  assumes "matches_paths matcher"
  shows "test_add_proxy_valid matcher env" "test_add_proxy_duplicate matcher env"
  unfolding test_add_proxy_valid_def test_add_proxy_duplicate_def
  by (subst serve_static [OF assms]; simp add: create_router_def add_proxy_def add_body_def holding_def Let_def
      replied_def tbl_has_def tbl_get_def tbl_put_def state_new_def)+

lemma pass_ban:
  assumes "matches_paths matcher"
  shows "test_ban_proxy_invalid_key matcher env" "test_ban_proxy_invalid_port matcher env"
    "test_ban_and_unban_proxy matcher env"
proof -
  have split: "split_char (CHR '':'') ''invalid-no-port'' = [''invalid-no-port'']"
    "split_char (CHR '':'') ''1.2.3.4:notaport'' = [''1.2.3.4'', ''notaport'']"
    "split_char (CHR '':'') ''5.6.7.8:3128'' = [''5.6.7.8'', ''3128'']"
    by code_simp+
  have parse: "parse_u16 ''notaport'' = None" "parse_u16 ''3128'' = Some 3128"
    by (simp_all add: parse_u16_def is_digit_def digits_val_def digit_val_def)
  show "test_ban_proxy_invalid_key matcher env"
    using serve_ban(1) [OF assms, of "''invalid-no-port''" env None "state_new :: sstate"]
    by (simp add: test_ban_proxy_invalid_key_def ban_proxy_def split parse replied_def)
  show "test_ban_proxy_invalid_port matcher env"
    using serve_ban(1) [OF assms, of "''1.2.3.4:notaport''" env None "state_new :: sstate"]
    by (simp add: test_ban_proxy_invalid_port_def ban_proxy_def split parse replied_def)
  have "serve matcher env Post ''/api/proxy/ban/5.6.7.8:3128'' None st = map_prod ReplyJson id (ban_proxy ''5.6.7.8:3128'' st)"
    "serve matcher env Post ''/api/proxy/unban/5.6.7.8:3128'' None st = map_prod ReplyJson id (unban_proxy ''5.6.7.8:3128'' st)"
    for st :: sstate
    using serve_ban [OF assms, of "''5.6.7.8:3128''" env None st] by simp_all
  then show "test_ban_and_unban_proxy matcher env"
    by (simp add: test_ban_and_unban_proxy_def Let_def ban_proxy_def unban_proxy_def split parse replied_def holding_def
        tbl_get_def tbl_put_def tbl_del_def tbl_len_def state_new_def)
qed

lemma verified_one_entry:
  "proxies (verified_one now) = [(''1.2.3.4:8080'', Proxy.record_success (Fin 100) now (proxy_new ''1.2.3.4'' 8080 Http))]"
  by (simp add: verified_one_def holding_def state_success_def tbl_modify_def tbl_put_def tbl_get_def)

lemma pass_health:
  assumes "matches_paths matcher" shows "test_health_with_proxies matcher env now"
  unfolding test_health_with_proxies_def
  by (subst serve_static [OF assms]) (simp_all add: create_router_def health_def available_count_def verified_count_def
      count_where_def verified_one_entry tbl_vals_def)

lemma pass_config:
  test_default_config "test_config_load_or_default parse" test_config_all_defaults test_config_from_json
  test_config_partial_json "test_config_manager_get parse"
  by (simp_all add: test_default_config_def test_config_load_or_default_def test_config_all_defaults_def
      test_config_from_json_def test_config_partial_json_def test_config_manager_get_def load_or_default_def
      load_from_file_def disk_def config_default_def Let_def fill_defaults_def six_fields_def raw_empty_def
      or_default_def config_get_def config_manager_new_def)

lemma pass_config_files:
  assumes "parse js1 = Some (raw_empty\<lparr>r_gateway_port := Some 2222\<rparr>)"
    "parse js2 = Some (raw_empty\<lparr>r_gateway_port := Some 3333, r_api_port := Some 9999\<rparr>)"
    "parse ''not json at all'' = None"
  shows "test_config_reload_from_file parse js1 js2" "test_config_load_malformed_json parse"
  using assms
  by (simp_all add: test_config_reload_from_file_def test_config_load_malformed_json_def load_or_default_def
      load_from_file_def disk_def config_default_def Let_def fill_defaults_def raw_empty_def or_default_def
      config_get_def config_manager_new_def config_reload_def)

lemma pass_sources:
  test_parse_valid_proxy_line test_parse_proxy_line_with_socks5 test_parse_invalid_proxy_lines
  test_default_sources_not_empty "test_load_sources_from_missing_file js"
proof -
  have ip: "parse_ipv4 ''1.2.3.4'' \<noteq> None" "parse_ipv4 ''5.6.7.8'' \<noteq> None"
    by (simp_all add: parse_ipv4_def octet_ok_def is_digit_def digits_val_def digit_val_def)
  have "host_port ''1.2.3.4'' 8080 = ''1.2.3.4:8080''" "host_port ''5.6.7.8'' 1080 = ''5.6.7.8:1080''"
    by (simp_all add: host_port_def show_u16_def show_nat.simps digit_chars)
  then have "parse_line ''1.2.3.4:8080'' Http = Some (proxy_new ''1.2.3.4'' 8080 Http)"
    "parse_line ''5.6.7.8:1080'' Socks5 = Some (proxy_new ''5.6.7.8'' 1080 Socks5)"
    using parse_line_host_port [OF ip(1), of 8080 Http] parse_line_host_port [OF ip(2), of 1080 Socks5] by simp_all
  then show test_parse_valid_proxy_line test_parse_proxy_line_with_socks5
    by (simp_all add: test_parse_valid_proxy_line_def test_parse_proxy_line_with_socks5_def proxy_new_def)
  have trim: "rust_trim [] = []" "rust_trim ''noport'' = ''noport''" "rust_trim ''1.2.3.4:'' = ''1.2.3.4:''"
    "rust_trim ''1.2.3.4:99999'' = ''1.2.3.4:99999''" "rust_trim ''# comment'' = ''# comment''"
    "rust_trim ''not-an-ip:8080'' = ''not-an-ip:8080''" "rust_trim ''1.2.3.4:8080:extra'' = ''1.2.3.4:8080:extra''"
    "rust_trim ''1.2.3.4'' = ''1.2.3.4''" "rust_trim ''99999'' = ''99999''" "rust_trim ''not-an-ip'' = ''not-an-ip''"
    "rust_trim ''8080'' = ''8080''" "rust_trim ''8080:extra'' = ''8080:extra''" by code_simp+
  have parts: "splitn2 (CHR '':'') ''noport'' = [''noport'']" "splitn2 (CHR '':'') ''1.2.3.4:'' = [''1.2.3.4'', []]"
    "splitn2 (CHR '':'') ''1.2.3.4:99999'' = [''1.2.3.4'', ''99999'']"
    "splitn2 (CHR '':'') ''not-an-ip:8080'' = [''not-an-ip'', ''8080'']"
    "splitn2 (CHR '':'') ''1.2.3.4:8080:extra'' = [''1.2.3.4'', ''8080:extra'']" by code_simp+
  have "parse_u16 [] = None" "parse_u16 ''99999'' = None" "parse_u16 ''8080:extra'' = None"
    "parse_u16 ''8080'' = Some 8080" "parse_ipv4 ''not-an-ip'' = None"
    by (simp_all add: parse_u16_def parse_ipv4_def octet_ok_def is_digit_def digits_val_def digit_val_def)
  then show test_parse_invalid_proxy_lines
    by (simp add: test_parse_invalid_proxy_lines_def parse_line_def trim parts)
  show test_default_sources_not_empty by (simp add: test_default_sources_not_empty_def default_sources_def)
  show "test_load_sources_from_missing_file js"
    by (simp add: test_load_sources_from_missing_file_def load_sources_def default_sources_def)
qed

text \<open>The scrape of a state with one verified proxy.\<close>

lemma one_figures:
  "collect now (verified_one now) =
     metrics_default\<lparr>proxies_total := 1, proxies_alive := 1, avg_latency_ms := Fin 4020, success_rate := Fin 1\<rparr>"
proof -
  let ?p = "Proxy.record_success (Fin 100) now (proxy_new ''1.2.3.4'' 8080 Http)"
  have "latency_ewma ?p = Fin 4020"
    using ewma_first(2) by (simp add: latency_first latency_sample_int) (simp add: proxy_new_def)
  moreover have "f_of_nat 1 = Fin 1" "f_mk 4020 = Fin 4020" using f_of_nat_exact [of 1] f_mk_int [of 4020] by simp_all
  ultimately have avg: "f_average [latency_ewma ?p] = Fin 4020"
    by (simp add: f_average_def f_sum_def)
  have c: "success_count ?p = 1" "fail_count ?p = 0" "uptime_max_secs ?p = 0" "country ?p = None"
    by (simp_all add: record_success_def track_uptime_def Let_def) (simp_all add: proxy_new_def)
  have "f_mk 1 = Fin 1" using f_mk_int [of 1] by simp
  then have rate: "rate_of (totals [?p]) = Fin 1" using c \<open>f_of_nat 1 = Fin 1\<close>
    by (simp add: totals_def rate_of_def)
  have "warm_stats (warm_pool (verified_one now)) = \<lparr>total_connections = 0, proxies_tracked = 0, st_hits = 0, st_misses = 0\<rparr>"
    by (simp add: verified_one_def state_success_def holding_def state_new_def warm_stats_def warm_pool_new_def tbl_len_def)
  moreover have "banned (verified_one now) = []" "active_connections (verified_one now) = 0"
    "sticky_count (sticky_sessions (verified_one now)) = 0"
    by (simp_all add: verified_one_def state_success_def holding_def state_new_def sticky_count_def sticky_new_def sticky_with_ttl_def tbl_len_def)
  ultimately show ?thesis using avg rate c
    by (simp add: collect_def all_proxies_def tbl_vals_def verified_one_entry metrics_default_def tbl_len_def
        by_country_def count_country_def uptimes_def f_average_def [of "[]"])
qed

lemma join_nl_Cons: "ls \<noteq> [] \<Longrightarrow> join_nl (l # ls) = l @ CHR 0x0A # join_nl ls"
  by (cases ls) auto

lemma shown:
  "show_fixed 2 (Fin 4020) = ''4020.00''" "show_fixed 4 (Fin 1) = ''1.0000''"
  "show_fixed 0 (Fin 0) = ''0''" "show_nat 0 = ''0''" "show_nat (Suc 0) = ''1''"
proof -
  have r: "round_half_even 402000 = 402000" "round_half_even 10000 = 10000" "round_half_even 0 = 0"
    using round_half_even_int [of 402000] round_half_even_int [of 10000] round_half_even_int [of 0] by simp_all
  have zeros: "replicate 3 (CHR ''0'') = ''000''" by code_simp
  have d: "show_nat 0 = ''0''" "show_nat (Suc 0) = ''1''" "show_nat 4020 = ''4020''"
    by (simp_all add: show_nat.simps digit_chars)
  then have "show_scaled 2 402000 = ''4020.00''" "show_scaled 4 10000 = ''1.0000''" "show_scaled 0 0 = ''0''"
    by (simp_all add: show_scaled_def Let_def zeros)
  with r show "show_fixed 2 (Fin 4020) = ''4020.00''" "show_fixed 4 (Fin 1) = ''1.0000''" "show_fixed 0 (Fin 0) = ''0''"
    by simp_all
  show "show_nat 0 = ''0''" "show_nat (Suc 0) = ''1''" by (rule d)+
qed

lemma pass_prometheus:
  assumes "matches_paths matcher" "w_now env = now" shows "test_prometheus_metrics_format matcher env now"
proof -
  let ?m = "collect now (verified_one now)"
  obtain ls where ls: "prometheus_lines ?m = (''# HELP '' @ ''vpn_proxies_total'' @ '' Total number of proxies'') # ls" "ls \<noteq> []"
    by (simp add: prometheus_lines_def metric_def)
  have "contains_str ''vpn_proxies_total'' (format_prometheus ?m)"
    unfolding format_prometheus_def ls(1) join_nl_Cons [OF ls(2)] append.assoc by (rule contains_in)
  moreover have "length (format_prometheus ?m) \<le> 4096"
    by (simp add: one_figures format_prometheus_def prometheus_lines_def metric_def sample_def metrics_default_def
        shown del: show_fixed.simps)
  ultimately show ?thesis
    unfolding test_prometheus_metrics_format_def
    by (subst serve_static [OF assms(1)]) (simp_all add: create_router_def prometheus_metrics_def assms(2))
qed

lemma probe_dead:
  "\<forall>r \<in> set rs. snd (fst r) = Dead \<Longrightarrow>
   \<exists>st'. fold probe_result rs (n, g, st) = (n, g, st') \<and> total_count st' = total_count st"
proof (induction rs arbitrary: st)
  case (Cons r rs)
  obtain k now where r: "r = ((k, Dead), now)" using Cons.prems by (metis list.set_intros(1) prod.collapse)
  have "total_count (state_fail k now st) = total_count st" by (simp add: state_fail_def total_count_def)
  with Cons.IH [of "state_fail k now st"] Cons.prems r show ?case by (auto simp: probe_result_def)
qed simp

lemma pass_probe:
  assumes "\<And>rs. set (map fst (arrival rs)) \<subseteq> set rs" "\<And>a. dial_within 100 (dial 1) a = None"
  shows "test_fast_probe_empty_batch check arrival" "test_fast_probe_with_unreachable_proxies tls dial arrival"
    "test_health_loop_does_not_panic now" test_check_result_variants
proof -
  show "test_fast_probe_empty_batch check arrival" by (simp add: test_fast_probe_empty_batch_def fast_probe_def)
  let ?ps = "[proxy_new ''192.0.2.1'' 8080 Http, proxy_new ''192.0.2.2'' 3128 Http]"
  let ?rs = "arrival (map (\<lambda>p. check_single tls dial p 100) ?ps)"
  have "snd (check_single tls dial p 100) = Dead" for p
    by (simp add: check_single_def check_tcp_connect_def Let_def assms(2) [simplified])
  then have "\<forall>x \<in> set (map (\<lambda>p. check_single tls dial p 100) ?ps). snd x = Dead" by simp
  then have "\<forall>r \<in> set ?rs. snd (fst r) = Dead"
    using assms(1) [of "map (\<lambda>p. check_single tls dial p 100) ?ps"] unfolding set_map by blast
  from probe_dead [OF this, of 0 "[]" "state_new :: sstate"] obtain st' where
    "fold probe_result ?rs (0, [], state_new :: sstate) = (0, [], st')" "total_count st' = total_count (state_new :: sstate)"
    by blast
  then show "test_fast_probe_with_unreachable_proxies tls dial arrival"
    by (simp add: test_fast_probe_with_unreachable_proxies_def Let_def fast_probe_def)
      (simp add: state_new_def total_count_def tbl_len_def)
  show "test_health_loop_does_not_panic now"
    by (simp add: test_health_loop_does_not_panic_def proxies_needing_check_def state_new_def tbl_vals_def)
  show test_check_result_variants by (simp add: test_check_result_variants_def)
qed

section \<open>Persistence: they pass\<close>

lemma checked_once_simps [simp]:
  "proxy_key (checked_once h prt l now) = host_port h prt" "last_check (checked_once h prt l now) = Some (utc now)"
  "last_success (checked_once h prt l now) = Some (utc now)" "host (checked_once h prt l now) = h"
  "port (checked_once h prt l now) = prt"
  by (simp_all add: checked_once_def)
    (auto simp: record_success_def track_uptime_def Let_def proxy_new_def split: option.split)

lemma reload_fields [simp]: "last_success (reload fp p) = last_success p" "host (reload fp p) = host p"
  "status (reload fp p) = None"
  by (simp_all add: reload_def)

lemma kept: "proxies (keep p) = [(proxy_key p, p)]" "max_proxies (keep p) = 5000"
  by (simp_all add: keep_def insert_if_absent_def tbl_has_def tbl_put_def state_new_def tbl_len_def)

lemma empty_pool_fields [simp]: "proxies state_new = []" "max_proxies state_new = 5000"
  by (simp_all add: state_new_def)

lemma saved_file:
  assumes "codec_ok fp (fst cd) (snd cd) (to_save st)"
  shows "\<exists>js. tbl_get (save_state_to (fst cd) NoFault path st fs) path = Some js
    \<and> snd cd js = Some (map (reload fp) (to_save st))"
  using assms by (auto simp: codec_ok_def save_state_to_def split: option.splits)

lemma load_content:
  assumes "tbl_get fs path = Some js" "decode js = Some ps"
  shows "\<exists>st'. load_state_from decode now path fs st = (length ps, st')
    \<and> proxies st' = proxies (fold (\<lambda>p st. snd (insert_if_absent p st)) (map (restore now) ps) st)"
  using assms by (simp add: load_state_from_def load_fold)

lemma load_saved:
  assumes "codec_ok fp (fst cd) (snd cd) ps"
  shows "\<exists>st'. load_one_saved cd path fs now ps st = Some (length ps, st')
    \<and> proxies st' = proxies (fold (\<lambda>p st. snd (insert_if_absent p st)) (map (restore now) (map (reload fp) ps)) st)"
proof -
  from assms obtain js where js: "fst cd ps = Some js" "snd cd js = Some (map (reload fp) ps)"
    by (auto simp: codec_ok_def split: option.splits)
  have "tbl_get (tbl_put path js fs) path = Some js" by simp
  from load_content [where decode = "snd cd", OF this js(2), of now st] js(1) show ?thesis
    by (auto simp: load_one_saved_def)
qed

lemma to_save_kept: "last_check p \<noteq> None \<Longrightarrow> to_save (keep p) = [p]"
  by (simp add: to_save_def all_proxies_def tbl_vals_def kept)

lemma pass_files:
  assumes "snd cd ''not valid json at all!!!'' = None" "codec_ok fp (fst cd) (snd cd) []"
  shows "test_load_state_missing_file cd path fs now" "test_load_state_invalid_json cd path fs now"
    "test_save_state_empty_pool cd path fs"
proof -
  show "test_load_state_missing_file cd path fs now" "test_load_state_invalid_json cd path fs now"
    using assms(1) by (simp_all add: test_load_state_missing_file_def test_load_state_invalid_json_def
        load_state_from_def total_count_def tbl_len_def)
  have "to_save (state_new :: sstate) = []" by (simp add: to_save_def all_proxies_def tbl_vals_def)
  with saved_file [of fp cd "state_new :: sstate" path fs] assms(2) show "test_save_state_empty_pool cd path fs"
    by (auto simp: test_save_state_empty_pool_def)
qed

lemma pass_roundtrip:
  assumes "codec_ok fp (fst cd) (snd cd) [checked_once ''1.2.3.4'' 8080 (Fin 100) (t 0)]"
  shows "test_save_and_load_roundtrip cd path fs t"
proof -
  let ?p = "checked_once ''1.2.3.4'' 8080 (Fin 100) (t 0)"
  have "to_save (keep ?p) = [?p]" by (rule to_save_kept) simp
  with saved_file [of fp cd "keep ?p" path fs] assms obtain js where
    js: "tbl_get (save_state_to (fst cd) NoFault path (keep ?p) fs) path = Some js" "snd cd js = Some [reload fp ?p]"
    by auto
  from load_content [where decode = "snd cd", OF js, of "t 1" "state_new :: sstate"] js(1) show ?thesis
    by (auto simp: test_save_and_load_roundtrip_def Let_def tbl_has_def insert_if_absent_def tbl_len_def)
qed

lemma pass_parents:
  assumes "codec_ok fp (fst cd) (snd cd) [checked_once ''3.3.3.3'' 3333 (Fin 75) (t 0)]"
  shows "test_save_creates_parent_directories cd path fs t"
proof -
  let ?p = "checked_once ''3.3.3.3'' 3333 (Fin 75) (t 0)"
  have "to_save (keep ?p) = [?p]" by (rule to_save_kept) simp
  with saved_file [of fp cd "keep ?p" path fs] assms show ?thesis
    by (auto simp: test_save_creates_parent_directories_def tbl_has_def)
qed

lemma key_80 [simp]: "host_port h 80 = h @ '':80''" "host_port h 9999 = h @ '':9999''"
  by (simp_all add: host_port_def show_u16_def show_nat.simps digit_chars)

lemma pass_skips:
  assumes "codec_ok fp (fst cd) (snd cd) [checked_once ''2.2.2.2'' 80 (Fin 50) (t 0)]"
  shows "test_save_skips_unchecked_proxies cd path fs t"
proof -
  let ?p = "checked_once ''2.2.2.2'' 80 (Fin 50) (t 0)"
  let ?st = "snd (insert_if_absent ?p (keep (proxy_new ''1.1.1.1'' 80 Http)))"
  have "last_check (proxy_new ''1.1.1.1'' 80 Http) = None" by (simp add: proxy_new_def)
  then have "to_save ?st = [?p]"
    by (simp add: to_save_def all_proxies_def tbl_vals_def insert_if_absent_def kept tbl_len_def tbl_has_def
        tbl_get_def tbl_put_def)
  with saved_file [of fp cd ?st path fs] assms show ?thesis
    by (auto simp: test_save_skips_unchecked_proxies_def Let_def)
qed

lemma pass_recent:
  assumes "codec_ok fp (fst cd) (snd cd) [checked_once ''5.6.7.8'' 3128 (Fin 200) (t 0)]" "prompt 60 t"
  shows "test_load_state_recent_success_marks_presumed_alive cd path fs t"
proof -
  have "num_seconds (utc (t 1) - utc (t 0)) < 60" using prompt_utc [OF assms(2), of 1 0] by simp
  then have "trunc_div (num_seconds (utc (t 1) - utc (t 0))) 3600 \<le> trunc_div 60 3600" by (intro trunc_div_mono) auto
  then have "num_hours (utc (t 1) - utc (t 0)) < 1" by (simp add: num_hours_def trunc_div_def)
  moreover have alive: "status (mark_presumed_alive p) = Some PresumedAlive" for p by (simp add: mark_presumed_alive_def)
  ultimately show ?thesis using load_saved [OF assms(1), of path fs "t 1" "state_new :: sstate"]
    by (auto simp: test_load_state_recent_success_marks_presumed_alive_def insert_if_absent_def tbl_len_def
        tbl_has_def restore_def is_recent_def alive)
qed

lemma pass_old:
  assumes "codec_ok fp (fst cd) (snd cd) [old_proxy t]" "prompt 60 t"
  shows "test_load_state_old_success_not_presumed_alive cd path fs t"
proof -
  have "utc (t 1) < utc (t 0) + int (secs 60)" "utc (t 0) \<le> utc (t 2)" using assms(2) by (auto simp: prompt_def)
  then have "3600 * 1000000000 \<le> utc (t 2) - (utc (t 1) - hours2)" by (simp add: hours2_def secs_def)
  then have "trunc_div (3600 * 1000000000) 1000000000 \<le> num_seconds (utc (t 2) - (utc (t 1) - hours2))"
    unfolding num_seconds_def by (intro trunc_div_mono) simp_all
  then have "trunc_div 3600 3600 \<le> num_hours (utc (t 2) - (utc (t 1) - hours2))"
    unfolding num_hours_def by (intro trunc_div_mono) (simp_all add: trunc_div_def)
  then have "\<not> num_hours (utc (t 2) - (utc (t 1) - hours2)) < 1" by (simp add: trunc_div_def)
  moreover have "last_success (old_proxy t) = Some (utc (t 1) - hours2)" "proxy_key (old_proxy t) = ''9.9.9.9:9999''"
    by (simp_all add: old_proxy_def Let_def proxy_key_def)
  ultimately show ?thesis
    using load_saved [OF assms(1), of path fs "t 2" "state_new :: sstate"]
    by (auto simp: test_load_state_old_success_not_presumed_alive_def insert_if_absent_def tbl_len_def tbl_has_def
        restore_def is_recent_def)
qed

lemma pass_limit:
  assumes "codec_ok fp (fst cd) (snd cd) (five_proxies t)"
  shows "test_load_respects_max_proxies_limit cd path fs t"
proof -
  have u: "[0..<5] = [0, 1, 2, 3, 4]" by (simp add: upt_rec)
  have five: "five_proxies t = map (\<lambda>(h, i). checked_once h 8080 (Fin 100) (t i))
      [(''10.0.0.1'', 0), (''10.0.0.2'', 1), (''10.0.0.3'', 2), (''10.0.0.4'', 3), (''10.0.0.5'', 4)]"
    by (simp add: five_proxies_def u show_nat.simps digit_chars digit_chars(4) [unfolded numeral_2_eq_2])
  with load_saved [OF assms, of path fs "t 5" "(state_new :: sstate)\<lparr>max_proxies := 3\<rparr>"] show ?thesis
    by (auto simp: test_load_respects_max_proxies_limit_def insert_if_absent_def total_count_def tbl_len_def
        tbl_has_def tbl_get_def tbl_put_def)
qed

text \<open>
  The codec on the lists of proxies that the tests write, and on a text that is not JSON; and a
  probe whose results arrive in some order.
\<close>

definition tested_codec :: "(f64 \<Rightarrow> f64) \<Rightarrow> codec \<Rightarrow> (nat \<Rightarrow> clock) \<Rightarrow> bool" where
  "tested_codec fp cd t \<longleftrightarrow> snd cd ''not valid json at all!!!'' = None \<and>
     list_all (codec_ok fp (fst cd) (snd cd))
       [[], [checked_once ''1.2.3.4'' 8080 (Fin 100) (t 0)], [checked_once ''5.6.7.8'' 3128 (Fin 200) (t 0)],
        [old_proxy t], [checked_once ''2.2.2.2'' 80 (Fin 50) (t 0)], [checked_once ''3.3.3.3'' 3333 (Fin 75) (t 0)],
        five_proxies t]"

text \<open>
  The tests of the API, of persistence and of the health checker pass, when axum matches the
  paths they use, serde reads back the lists they write, no test is held up for a minute and
  nothing answers at the addresses that they take to be unreachable.
\<close>

theorem service_tests_pass:
  assumes "matches_paths matcher" "w_now env = now" "tested_codec fp cd t" "prompt 60 t"
    and "\<And>rs. set (map fst (arrival rs)) \<subseteq> set rs" "\<And>a. dial_within 100 (dial 1) a = None"
  shows "test_health_endpoint matcher env \<and> test_metrics_endpoint matcher env \<and> test_list_proxies_empty matcher env
    \<and> test_network_status_no_net_manager matcher env \<and> test_wg_peers_empty matcher env
    \<and> test_add_proxy_valid matcher env \<and> test_add_proxy_duplicate matcher env
    \<and> test_ban_proxy_invalid_key matcher env \<and> test_ban_proxy_invalid_port matcher env
    \<and> test_ban_and_unban_proxy matcher env \<and> test_prometheus_metrics_format matcher env now
    \<and> test_health_with_proxies matcher env now
    \<and> test_fast_probe_empty_batch check arrival \<and> test_fast_probe_with_unreachable_proxies tls dial arrival
    \<and> test_health_loop_does_not_panic now \<and> test_check_result_variants
    \<and> test_load_state_missing_file cd path fs now \<and> test_save_and_load_roundtrip cd path fs t
    \<and> test_save_state_empty_pool cd path fs \<and> test_load_state_invalid_json cd path fs now
    \<and> test_load_state_recent_success_marks_presumed_alive cd path fs t
    \<and> test_load_state_old_success_not_presumed_alive cd path fs t
    \<and> test_save_skips_unchecked_proxies cd path fs t \<and> test_save_creates_parent_directories cd path fs t
    \<and> test_load_respects_max_proxies_limit cd path fs t"
proof -
  note c = assms(3) [unfolded tested_codec_def list.pred_inject]
  have probes: "test_fast_probe_empty_batch check arrival" "test_fast_probe_with_unreachable_proxies tls dial arrival"
    "test_health_loop_does_not_panic now" test_check_result_variants
    by (rule pass_probe; rule assms(5,6))+
  show ?thesis
    by (intro conjI pass_gets [OF assms(1)] pass_add [OF assms(1)] pass_ban [OF assms(1)]
        pass_prometheus [OF assms(1,2)] pass_health [OF assms(1)] probes
        pass_files [where fp = fp] pass_roundtrip [where fp = fp] pass_recent [where fp = fp, OF _ assms(4)]
        pass_old [where fp = fp, OF _ assms(4)] pass_skips [where fp = fp] pass_parents [where fp = fp]
        pass_limit [where fp = fp]; use c in blast)
qed

text \<open>A matcher and a codec for which the conditions hold.\<close>

definition plain_matcher :: matcher where
  "plain_matcher pats path =
     (if take 15 path = ''/api/proxy/ban/'' then Some (''/api/proxy/ban/{proxy_key}'', Some (drop 15 path))
      else if take 17 path = ''/api/proxy/unban/'' then Some (''/api/proxy/unban/{proxy_key}'', Some (drop 17 path))
      else if path \<in> set pats then Some (path, None) else None)"

definition first_host :: "proxy list \<Rightarrow> string" where
  "first_host ps = (case ps of [] \<Rightarrow> [] | p # _ \<Rightarrow> host p)"

definition host_codec :: "proxy list list \<Rightarrow> codec" where
  "host_codec pss =
     (\<lambda>ps. Some (first_host ps),
      \<lambda>s. map_option (map (reload (\<lambda>x. x))) (find (\<lambda>ps. first_host ps = s) pss))"

lemma plain_matcher_ok: "matches_paths plain_matcher"
proof -
  have "list_all (\<lambda>p. CHR ''{'' \<in> set p \<or> take 15 p \<noteq> ''/api/proxy/ban/'' \<and> take 17 p \<noteq> ''/api/proxy/unban/'')
      (map fst create_router)" by code_simp
  then have "plain_matcher (map fst create_router) p = Some (p, None)"
    if "p \<in> set (map fst create_router)" "CHR ''{'' \<notin> set p" for p
    using that unfolding list_all_iff plain_matcher_def by auto
  moreover have "plain_matcher pats (''/api/proxy/ban/'' @ s) = Some (''/api/proxy/ban/{proxy_key}'', Some s)"
    "plain_matcher pats (''/api/proxy/unban/'' @ s) = Some (''/api/proxy/unban/{proxy_key}'', Some s)" for pats s
    by (simp_all add: plain_matcher_def)
  ultimately show ?thesis unfolding matches_paths_def by blast
qed

lemma host_codec_ok:
  assumes "distinct (map first_host pss)" "ps \<in> set pss"
  shows "codec_ok (\<lambda>x. x) (fst (host_codec pss)) (snd (host_codec pss)) ps"
proof -
  have "find (\<lambda>qs. first_host qs = first_host ps) pss = Some ps"
    using assms by (induction pss) (auto simp: image_iff)
  then show ?thesis by (simp add: codec_ok_def host_codec_def)
qed

theorem service_tests_pass_witness:
  "test_prometheus_metrics_format plain_matcher (undefined\<lparr>w_now := \<lparr>inst = 5, utc = 7\<rparr>\<rparr>) \<lparr>inst = 5, utc = 7\<rparr>"
proof -
  let ?now = "\<lparr>inst = 5, utc = 7\<rparr>"
  let ?t = "\<lambda>_ :: nat. ?now"
  define pss where "pss = [[], [checked_once ''1.2.3.4'' 8080 (Fin 100) ?now],
    [checked_once ''5.6.7.8'' 3128 (Fin 200) ?now], [old_proxy ?t], [checked_once ''2.2.2.2'' 80 (Fin 50) ?now],
    [checked_once ''3.3.3.3'' 3333 (Fin 75) ?now], five_proxies ?t]"
  have "[0..<5] = [0, 1, 2, 3, 4]" by (simp add: upt_rec)
  then have "first_host (five_proxies ?t) = ''10.0.0.1''"
    by (simp add: first_host_def five_proxies_def show_nat.simps digit_chars)
  then have f: "map first_host pss = [[], ''1.2.3.4'', ''5.6.7.8'', ''9.9.9.9'', ''2.2.2.2'', ''3.3.3.3'', ''10.0.0.1'']"
    by (simp add: pss_def first_host_def old_proxy_def Let_def)
  have "distinct (map first_host pss)" unfolding f by simp
  then have ok: "list_all (codec_ok (\<lambda>x. x) (fst (host_codec pss)) (snd (host_codec pss))) pss"
    by (simp add: list_all_iff host_codec_ok)
  have "''not valid json at all!!!'' \<notin> set (map first_host pss)" unfolding f by simp
  then have "find (\<lambda>ps. first_host ps = ''not valid json at all!!!'') pss = None"
    unfolding find_None_iff by (metis imageI set_map)
  with ok have "tested_codec (\<lambda>x. x) (host_codec pss) ?t"
    by (simp only: tested_codec_def host_codec_def snd_conv fst_conv option.map flip: pss_def)
  from service_tests_pass [OF plain_matcher_ok _ this prompt_const, of "undefined\<lparr>w_now := ?now\<rparr>" ?now
      "\<lambda>rs. map (\<lambda>r. (r, ?now)) rs" "\<lambda>_ _. None"]
  show ?thesis by (simp add: dial_within_def comp_def)
qed

text \<open>The tests of the sources and of the configuration; \<open>js1\<close> and \<open>js2\<close> are the two objects written.\<close>

theorem config_tests_pass:
  assumes "parse js1 = Some (raw_empty\<lparr>r_gateway_port := Some 2222\<rparr>)"
    "parse js2 = Some (raw_empty\<lparr>r_gateway_port := Some 3333, r_api_port := Some 9999\<rparr>)"
    "parse ''not json at all'' = None" "state = None \<or> (\<exists>c. state = Some c \<and> strings c = None)"
  shows "test_parse_valid_proxy_line \<and> test_parse_proxy_line_with_socks5 \<and> test_parse_invalid_proxy_lines
    \<and> test_default_sources_not_empty \<and> test_load_sources_from_missing_file strings
    \<and> test_load_sources_from_invalid_file strings state
    \<and> test_default_config \<and> test_config_load_or_default parse \<and> test_config_all_defaults \<and> test_config_from_json
    \<and> test_config_partial_json \<and> test_config_manager_get parse \<and> test_config_reload_from_file parse js1 js2
    \<and> test_config_load_malformed_json parse"
proof -
  have "default_sources \<noteq> []" by (simp add: default_sources_def)
  then have "test_load_sources_from_invalid_file strings state"
    using assms(4) by (auto simp: test_load_sources_from_invalid_file_def load_sources_def)
  then show ?thesis by (intro conjI pass_sources pass_config pass_config_files [OF assms(1-3)])
qed

theorem config_tests_pass_witness:
  "test_config_reload_from_file (\<lambda>s. if s = ''1'' then Some (raw_empty\<lparr>r_gateway_port := Some 2222\<rparr>)
     else if s = ''2'' then Some (raw_empty\<lparr>r_gateway_port := Some 3333, r_api_port := Some 9999\<rparr>) else None) ''1'' ''2''"
  using config_tests_pass [of "\<lambda>s. if s = ''1'' then Some (raw_empty\<lparr>r_gateway_port := Some 2222\<rparr>)
     else if s = ''2'' then Some (raw_empty\<lparr>r_gateway_port := Some 3333, r_api_port := Some 9999\<rparr>) else None" "''1''" "''2''" None "\<lambda>_. None"]
  by simp

declare key_80 [simp del]

end
