(* ===== verification/Spec2Isabelle.thy ===== *)
theory Spec2Isabelle
  imports Gateway GeoTasks Router Watcher Scans EndToEnd Saves WarmLocks Benches
    TestsProxy TestsStores TestsState TestsProtocols TestsServices
begin

text \<open>
  A model of \<open>vpn-gateway\<close>, a Rust service that takes the TCP and UDP traffic of WireGuard
  clients and sends it out through public proxy servers, which it collects, checks and scores
  itself.  The definitions are translated from the sources under \<open>src/src/\<close>; the theorems say
  what the code guarantees and, where it falls short of its comments and README, what it does.

  \<^bold>\<open>The program.\<close>  A process has one shared state (\<open>SharedState\<close>): a table of proxies and one
  of banned proxies, counters, sticky sessions of clients, a warm pool and a connection pool of
  idle connections, a cache of countries and an index by country.  The tasks of \<open>main\<close> work on
  it at the same time: the transparent proxy accepts clients, finds out the wanted host from the
  first bytes (\<open>sniff\<close>), selects a proxy (\<open>select_best\<close>), tunnels through it with HTTP CONNECT
  or SOCKS5 and relays; the UDP relay forwards datagrams to the name server; the source manager
  downloads lists of proxies; the health checker probes them in three stages and looks up their
  countries; the web API reports, adds, bans and unbans; loops clean up, refresh the warm pool,
  save the state and reload the configuration.

  \<^bold>\<open>Theories and sources.\<close>
  \<^item> \<open>Prelude\<close>: tables (the contents of a \<open>DashMap\<close>), clocks, panics, the interface
    \<open>keyed_store\<close> of tables and the contract \<open>keeps\<close> of operations with an invariant.
  \<^item> \<open>RustStd\<close>, \<open>F64\<close>: strings, UTF-8, white space, lines, number parsing and printing;
    doubles with exact rounding to nearest even.
  \<^item> \<open>Proxy\<close> (\<open>pool/proxy.rs\<close>): a proxy, its circuit breaker, latency average and score.
  \<^item> \<open>Sticky\<close> (\<open>pool/sticky_sessions.rs\<close>), \<open>IdleStore\<close>, \<open>WarmPool\<close>, \<open>ConnPool\<close>
    (\<open>pool/warm_pool.rs\<close>, \<open>pool/connection_pool.rs\<close>; the interface \<open>checkout\<close> is what both
    pools promise), \<open>GeoIp\<close> (\<open>pool/geo_ip.rs\<close>).
  \<^item> \<open>TopN\<close>, \<open>State\<close> (\<open>pool/state.rs\<close>): selection in one pass, the tiers, the mutations of
    the pool, the batch to check next.
  \<^item> \<open>Sniff\<close>, \<open>Upstream\<close>, \<open>Transparent\<close>, \<open>Udp\<close> (\<open>proxy/\<close>): parsing of ClientHello and Host;
    the handshakes over a stream that comes in arbitrary segments (interface
    \<open>tunnel_protocol\<close>); the handler of a client as a state machine and the listener; the UDP
    tasks with the fair lock of their session table.
  \<^item> \<open>Sources\<close>, \<open>Persistence\<close>, \<open>Health\<close>, \<open>Metrics\<close> (\<open>pool/\<close>), \<open>Web\<close>, \<open>Router\<close>
    (\<open>api/web.rs\<close>): one definition for each function of the file.
  \<^item> \<open>Config\<close>, \<open>Watcher\<close> (\<open>config.rs\<close>), \<open>Startup\<close> (\<open>main.rs\<close>): the configuration, the file
    watcher and the reload loop; coming up, the ticks of the loops, shutting down.
  \<^item> \<open>Tasks\<close>, \<open>GeoTasks\<close>: the tasks again, at the grain of single atomic operations on the
    shared tables, and the country look-ups with their semaphores.
  \<^item> \<open>Scans\<close>: the selection again, over a pool that changes while its shards are read.
  \<^item> \<open>Saves\<close>: saving again, at the grain of the calls to the file system, with inodes: the loop
    that saves, its abort at the shutdown and the final save.
  \<^item> \<open>WarmLocks\<close>: the warm pool again, as shard locks, mutexes and worker threads.
  \<^item> \<open>Gateway\<close>: the life of the process as a step relation, which task runs when and when its timers are made; \<open>EndToEnd\<close>:
    one client from its first bytes to the tunnel, one listed proxy from its source line to its
    first client; this theory: the properties of the whole.
  \<^item> \<open>Testing\<close>, \<open>TestsProxy\<close>, \<open>TestsStores\<close>, \<open>TestsState\<close>, \<open>TestsProtocols\<close>,
    \<open>TestsServices\<close>: the unit tests of the sources, run on the model; \<open>Benches\<close>: the
    benchmarks (\<open>benches/proxy_bench.rs\<close>), what they do and so what they measure.

  \<^bold>\<open>How the code is rendered.\<close>  A struct is a record, an enum a datatype, a method a function
  from the old state to the result and the new state.  Counters of 32 and 64 bits are words and
  wrap, as they do in the release profile; \<open>usize\<close> counts of objects in memory are naturals.  A
  panic (index out of range, overflow in \<open>chrono\<close>, a zero timer period) is the value \<open>Panic\<close>; it
  ends the process, since the release profile aborts.  Errors are values of sums.  A table is the
  list of its entries in the order of an iteration, and every statement holds for every order
  (only the unit tests build their tables by inserts, which append).
  Strings are the lists of their UTF-8 bytes.  What the sources only call is an argument: the
  clock, the random draw, sockets (a connection delivers its bytes in any segments and then
  closes, resets or stays silent), TLS validation, HTTP of sources and of the country service,
  JSON codecs, the file system, path matching, the file watcher, the order in which concurrent
  fetches complete.

  \<^bold>\<open>Concurrency.\<close>  Each theory of a component describes its operations as if they ran alone.
  Step relations then put them together.  \<open>gateway_step\<close> of \<open>Transparent\<close> interleaves
  any number of handlers at their suspension points; \<open>udp_step\<close> of \<open>Udp\<close> does so for datagrams
  and queued lock requests; \<open>interleave\<close> of \<open>Tasks\<close> switches between tasks after every atomic
  table operation, where the operations of the components are proved to be the uninterrupted
  runs of their tasks.  \<open>saving_step\<close> of \<open>Saves\<close> interleaves the file-system calls of two saves,
  \<open>lock_step\<close> of \<open>WarmLocks\<close> the users of the warm pool on a number of worker threads (both are
  proved to be as coarse as the rest of the model makes them, or shown not to be: a save alone
  refines \<open>save_state_to\<close>, two saves do not).  \<open>main_step\<close> of \<open>Gateway\<close> says which of them can run in which phase.

  \<^bold>\<open>What is shown.\<close>  Invariants: the pool and the list of bans are sound in every reachable
  state of the process and under every interleaving of atomic operations (their keys always, their
  scores if the numbers of the saved file, which loading does not check, are in range); the counter
  of active connections, the permits of clients, datagrams and look-ups are exact; unless the warm
  pool is on, no connection is reused.  Selection: tiers, the ten best of a single pass against sorting,
  completeness, preference for proxies that do not break TLS.  Protocols: sniffing never panics
  and finds the name of every well-formed ClientHello; the handshakes do not depend on the
  segmentation, refine a specification on the whole byte stream and follow RFC 1928.  Liveness
  and its failures: handlers are bounded, a silent proxy or name server blocks clients, changes of
  the configuration file always get to the reload loop, which applies two settings of it, a \<open>take\<close> and a refresh of the warm pool can block each other.  The
  state file is whole at every moment, where the process may be killed, unless the shutdown
  falls into a save, when it can end up as a mixture of two texts.  Round trips: source lines, bans, saving and restarting.  Errors:
  what is booked on whom when a handshake cannot succeed.  Bounds: scores, averages and rates
  stay finite and in range after all roundings; the pool exceeds its limit only by requests.
  Composition: a new client gets a tunnel to the host that it names through a fit proxy, if the fit
  ones serve well; its three attempts decide what is booked and when it is given up; an address
  that any source lists comes into the pool, is checked, and is then fit for every client.

  \<^bold>\<open>The unit tests.\<close>  Each test of the modules \<open>tests\<close> is a predicate of the same name, with the
  readings of the clocks, the draws, the mock servers, axum and serde as its parameters.  The
  theorems \<open>proxy_tests_pass\<close>, \<open>store_tests_pass\<close>, \<open>state_tests_pass\<close>, \<open>protocol_tests_pass\<close>,
  \<open>service_tests_pass\<close> and \<open>config_tests_pass\<close> say under which conditions they pass: the model
  agrees with the code on all the values that its authors check.  They also show what a test
  depends on, such as not being held up for longer than the circuit breaker opens.

  \<^bold>\<open>Termination and bounds.\<close>  No definition takes fuel, but \<open>drain\<close> of \<open>Watcher\<close>, run once
  for every outstanding message and twice for every event, which is enough to have none left.
  The loops over bytes, extensions, segments and retries end by a measure (what is left of the
  buffer or of the peer's segments); an endless loop is described by one tick, or by the list of
  its ticks so far, and a wait for a silent peer is the outcome \<open>Hang\<close>, so that it cannot be
  taken for an answer.  Handlers retry three times, a probe's semaphore has twenty permits, the
  UDP relay a thousand, the channel of the watcher a hundred messages: the numbers of the code.

  \<^bold>\<open>Not modelled.\<close>  The bytes that \<open>copy_bidirectional\<close> (tokio) relays, only that the relay ends;
  socket options but those of keep-alive; logging; how long the delays before the first ticks
  of two loops are; signals other than their effect; the resolution of a \<open>dns_upstream\<close> that is a
  name, for which \<open>send_to\<close> of the UDP relay would wait with the read lock held.  \<open>DashMap::len\<close> and iterations read their shards one after the other; here
  they are one operation, except for \<open>retain\<close>, which goes shard by shard in \<open>Tasks\<close>, and the
  iterations of the selection, which do so in \<open>Scans\<close>.  The
  dashboard page, shell scripts and packaging hold no logic of the service.  Of the
  unit tests, two of the kernel's behaviour alone are left out (binding a listener, connecting to
  one that does not accept), and the text serde prints of a value is
  looked at as the value.
\<close>

section \<open>The whole gateway\<close>

text \<open>
  The pool stays sound whatever the gateway does.  Under any sequence of source refreshes,
  health checks, GeoIP look-ups, API calls, steps of connection handlers, configuration changes
  and clean-ups, with any outcome of the network, every proxy of the pool and of the ban list
  stands once, under its own key, and has a finite score.
\<close>

theorem every_task_keeps_pool:
  assumes "pool_ok st" "list_all act_ok acts"
  shows "pool_ok (fold act acts st)"
  using assms by (induction acts arbitrary: st) (auto intro: act_pool_ok)

lemma every_task_keeps_pool_witness:
  "pool_ok (fold act [Api (ApiAdd ''h'' 80 None), Api (ApiBan ''h:80''),
     Refresh (\<lambda>_. None) None (\<lambda>_ _. Body ''1.2.3.4:80'') rev \<lparr>inst = 0, utc = 0\<rparr>] state_new)"
  by (rule every_task_keeps_pool) (simp_all add: pool_ok_def state_new_def arrival_ok_def)

text \<open>
  C1: from the first moment to the last.  In every state that the process can reach, from loading the
  saved pool over the probing and the running gateway to the final save, with every task that
  runs at that moment doing what it may, and with any listener failing at any time: every proxy of
  the pool and of the list of bans stands once, under its own key, whatever the saved file held.
  If the numbers of the saved proxies are in range (latency averages and boosts; loading does not
  check them), every proxy has a finite score at all times, whatever is measured later.  Only
  configured tasks run, and while the first probe runs only the three that take clients.
\<close>

theorem gateway_always_sound:
  assumes "main_reachable encode out c m" "arrival_ok (o_arrival out)"
  shows "pool_keyed (m_state m)
    \<and> ((\<forall>p \<in> set (saved_proxies (o_decode out) (o_files out)). score_ok p) \<longrightarrow> pool_ok (m_state m))
    \<and> set (m_services m) \<subseteq> set (services c)
    \<and> (m_phase m = Probing left_over found \<longrightarrow> set (m_services m) \<subseteq> set first_services)"
proof -
  obtain reported batch and st :: gstate where b: "boot out c = (reported, batch, st)" by (metis surj_pair)
  have "pool_keyed (m_state (main_start out c))" using boot_pool_keyed [OF b] by (simp add: main_start_def b)
  with assms(1) have "pool_keyed (m_state m)"
    by (rule main_invariant [where I = pool_keyed])
      (auto simp: shutdown_state intro: act_keyed keyed_probes.keeps)
  moreover have "pool_ok (m_state m)" if "\<forall>p \<in> set (saved_proxies (o_decode out) (o_files out)). score_ok p"
  proof -
    have "pool_within (c_max_proxies c) st" using b assms(2) that by (rule boot_pool_within)
    then have "pool_ok (m_state (main_start out c))" by (simp add: main_start_def b pool_within_def)
    with assms(1) show ?thesis
      by (rule main_invariant [where I = pool_ok])
        (auto simp: shutdown_state intro: act_pool_ok probes.keeps)
  qed
  ultimately show ?thesis using main_services [OF assms(1)] by (simp add: services_ok_def)
qed

text \<open>A start on a saved pool.\<close>

lemma saved_by_restart: "saved_proxies (o_decode restart) (o_files restart) = [reload (\<lambda>x. x) checked]"
  by (simp add: saved_proxies_def restart_def shutdown_def save_state_def save_state_to_def encode_any_def
      Let_def quiet_outside_def)

lemma gateway_always_sound_witness:
  "saved_proxies (o_decode restart) (o_files restart) \<noteq> [] \<and> pool_ok (m_state (main_start restart config_default))"
proof
  have "\<forall>p \<in> set (saved_proxies (o_decode restart) (o_files restart)). score_ok p"
    by (simp add: saved_by_restart checked_def score_ok_def ewma_ok_def reload_def)
  then show "pool_ok (m_state (main_start restart config_default))"
    using gateway_always_sound [OF main_reachable.start, of restart config_default]
    by (simp add: restart_def quiet_outside_def arrival_ok_def)
qed (simp add: saved_by_restart)

text \<open>
  C33: no connection is ever reused unless the warm pool is switched on.  In every reachable state the
  connection pool is empty, whatever \<open>enable_connection_pool\<close> says, since no task puts a
  connection into it; and with the warm pool switched off, as by default, that pool is empty too,
  so every dial finds nothing to take and opens a connection of its own.
\<close>

theorem no_connection_reuse_without_warm_pool:
  assumes "main_reachable encode out c m"
  shows "pools (connection_pool (m_state m)) = [] \<and>
    (\<not> c_enable_warm_pool c \<longrightarrow> connections (warm_pool (m_state m)) = [] \<and>
       fst (warm_take pk now key (warm_pool (m_state m))) = None)"
proof -
  let ?I = "no_idle (\<not> c_enable_warm_pool c)"
  obtain reported batch and st :: gstate where b: "boot out c = (reported, batch, st)" by (metis surj_pair)
  have work: "?I (act a (m_state m))"
    if "main_reachable encode out c m" "may_act c m a" "act_ok a" "?I (m_state m)" for m a
    using that(4,3) by (rule no_idle_act)
      (use warm_refresh_needs_warm_pool [OF _ that(1)] that(2) in \<open>auto simp: may_act_def\<close>)
  have "?I (m_state (main_start out c))" using boot_no_idle [OF b] by (simp add: main_start_def b)
  with assms have "?I (m_state m)"
    by (rule main_invariant [where I = ?I]) (auto simp: no_idle_probe shutdown_state intro: work)
  then show ?thesis by (auto simp: no_idle_def warm_take_def tbl_get_def)
qed

lemma no_connection_reuse_without_warm_pool_witness:
  "pools (connection_pool (m_state (main_start quiet_outside config_default))) = []"
  by (rule no_connection_reuse_without_warm_pool [OF main_reachable.start, THEN conjunct1])

section \<open>A ban does not last\<close>

text \<open>
  C37: a ban lasts at most until the next source refresh.  After a successful ban, a refresh in which
  some source still lists the address, as one of the first 500 lines of its answer, whatever the
  other sources answer and in whatever order they do, puts a fresh record of the proxy back into
  the pool, unless the pool gets full in it.  There it can be selected, unchecked as it is, while
  it stays in the list of bans; unbanning it then overwrites the new record by the banned one.
\<close>

theorem banned_proxy_returns:
  fixes st :: gstate
  assumes "ban_proxy (host_port h prt) st = (r, st1)" "success r" "pool_ok st"
    and "full_refresh parse content w arrival now st1 = (n, st2)" "arrival_ok arrival"
    and "url \<in> set (load_sources parse content)" "source_lists w url (host_port h prt)" "parse_ipv4 h \<noteq> None"
    and "max_proxies st1 = 0 \<or> total_count st1 + n < max_proxies st1"
  shows "\<exists>proto. tbl_get (proxies st2) (host_port h prt) = Some (proxy_new h prt proto)
    \<and> candidate t st2 (Some Unchecked) (proxy_new h prt proto)
    \<and> tbl_get (banned st2) (host_port h prt) = tbl_get (proxies st) (host_port h prt)
    \<and> tbl_get (proxies (snd (unban_proxy (host_port h prt) st2))) (host_port h prt)
        = tbl_get (proxies st) (host_port h prt)"
proof -
  let ?k = "host_port h prt"
  obtain px where px: "tbl_get (proxies st) ?k = Some px"
    and st1: "st1 = st\<lparr>proxies := tbl_del ?k (proxies st), banned := tbl_put ?k px (banned st)\<rparr>"
    using assms(1,2) by (rule ban_success_moved)
  have ok: "keys_ok (proxies st)" "proxy_key px = ?k"
    using assms(3) well_keyed_get [OF _ px] by (simp_all add: pool_ok_def well_keyed_def)
  have "keys_ok (proxies st1)" "tbl_get (proxies st1) ?k = None" using ok(1) by (simp_all add: st1)
  note r = refresh_brings [OF assms(4) this(1) assms(5-8) this(2) assms(9)]
  from r(1) obtain proto where p: "tbl_get (proxies st2) ?k = Some (proxy_new h prt proto)" by blast
  then have "proxy_new h prt proto \<in> set (tbl_vals (proxies st2))" by (auto simp: in_tbl_vals dest: tbl_get_in_set)
  then have "candidate t st2 (Some Unchecked) (proxy_new h prt proto)"
    by (simp add: candidate_def is_available_def proxy_new_def country_excluded_iff)
  moreover have "tbl_get (banned st2) ?k = Some px" using r(4) by (simp add: st1)
  ultimately show ?thesis using p px ok(2) by (auto simp: unban_proxy_def)
qed

definition listed :: gstate where
  "listed = snd (add_proxy ''1.2.3.4'' 80 None state_new)"

text \<open>Two sources answer with a comment and two addresses, of which the second is banned.\<close>

lemma banned_proxy_returns_witness:
  "\<exists>proto. tbl_get (proxies (snd (full_refresh (\<lambda>_. Some [''u'', ''v'']) (Some ''{}'') two_lines rev
     \<lparr>inst = 0, utc = 0\<rparr> (snd (ban_proxy (host_port ''1.2.3.4'' 80) listed))))) (host_port ''1.2.3.4'' 80) =
   Some (proxy_new ''1.2.3.4'' 80 proto)"
proof -
  let ?k = "host_port ''1.2.3.4'' 80" and ?parse = "\<lambda>_. Some [''u'', ''v''] :: string list option"
  obtain r st1 where b: "ban_proxy ?k listed = (r, st1)" by fastforce
  obtain n st2 where f: "full_refresh ?parse (Some ''{}'') two_lines rev \<lparr>inst = 0, utc = 0\<rparr> st1 = (n, st2)" by fastforce
  have ip: "parse_ipv4 ''1.2.3.4'' \<noteq> None"
    by (simp add: parse_ipv4_def octet_ok_def is_digit_def digits_val_def digit_val_def)
  have px: "proxies listed = [(?k, proxy_new ''1.2.3.4'' 80 Http)]" "max_proxies listed = 5000"
    by (simp_all add: listed_def add_proxy_def state_new_def Let_def tbl_has_def tbl_get_def tbl_put_def
        requested_protocol_def)
  have "success (fst (ban_proxy ?k listed))" by (simp add: ban_success_iff px tbl_has_def tbl_get_def)
  then have 1: "success r" using b by simp
  have 2: "pool_ok listed"
    using api_ops.keeps [of state_new "ApiAdd ''1.2.3.4'' 80 None"]
    by (simp add: listed_def pool_ok_def state_new_def)
  have st1: "proxies st1 = []" "max_proxies st1 = 5000"
    using b 1 px by (auto elim!: ban_success_moved simp: tbl_del_def)
  have 3: "arrival_ok rev" "''u'' \<in> set (load_sources ?parse (Some ''{}''))"
    by (simp_all add: arrival_ok_def load_sources_def)
  have len: "map (\<lambda>url. fetch_source two_lines url (guess_protocol url)) (load_sources ?parse (Some ''{}'')) =
      [fetch_source two_lines ''u'' (guess_protocol ''u''), fetch_source two_lines ''v'' (guess_protocol ''v'')]"
    by (simp add: load_sources_def)
  have "n \<le> 6"
    using refresh_counts [OF f _ refl, unfolded len] two_lines_length [of "''u''" "guess_protocol ''u''"]
      two_lines_length [of "''v''" "guess_protocol ''v''"] by (simp add: st1)
  then have "max_proxies st1 = 0 \<or> total_count st1 + n < max_proxies st1"
    by (simp add: st1 total_count_def tbl_len_def)
  from banned_proxy_returns [OF b 1 2 f 3 two_lines_listed ip this] f b show ?thesis by auto
qed

end
